(* ===== verification/Xen_Prelude.thy ===== *)
theory Xen_Prelude
  imports Main "HOL-Library.Word" "HOL-Library.Monad_Syntax"
begin

text \<open>
  Shared vocabulary of the development: the machine types of the hypervisor, its error
  numbers, the convention for fatal assertions, and the generic lemmas on lists, options
  and words that the components use.

  An operation that can hit \<^verbatim>\<open>BUG()\<close>, \<^verbatim>\<open>BUG_ON\<close>, \<^verbatim>\<open>ASSERT\<close> or a NULL dereference returns
  an \<open>option\<close>: \<open>None\<close> is the stopped hypervisor, \<open>Some\<close> the ordinary return. Error codes
  are the negated error numbers of \<^verbatim>\<open>xen/include/xen/errno.h\<close>, as the code returns them.
\<close>

unbundle bit_operations_syntax

section \<open>Machine types and error numbers\<close>

type_synonym u8 = "8 word"
type_synonym u16 = "16 word"
type_synonym u32 = "32 word"
type_synonym ulong = "64 word"

abbreviation EPERM :: int where "EPERM \<equiv> 1"
abbreviation ENOENT :: int where "ENOENT \<equiv> 2"
abbreviation ESRCH :: int where "ESRCH \<equiv> 3"
abbreviation ENOMEM :: int where "ENOMEM \<equiv> 12"
abbreviation EFAULT :: int where "EFAULT \<equiv> 14"
abbreviation EBUSY :: int where "EBUSY \<equiv> 16"
abbreviation EEXIST :: int where "EEXIST \<equiv> 17"
abbreviation EINVAL :: int where "EINVAL \<equiv> 22"
abbreviation ENOSPC :: int where "ENOSPC \<equiv> 28"
abbreviation ENOSYS :: int where "ENOSYS \<equiv> 38"

section \<open>Fatal assertions\<close>

definition bug_on :: "bool \<Rightarrow> unit option" where
  "bug_on c = (if c then None else Some ())"

definition assert_that :: "bool \<Rightarrow> unit option" where
  "assert_that c = (if c then Some () else None)"

lemma bug_on_simps [simp]: "bug_on True = None" "bug_on False = Some ()"
  by (simp_all add: bug_on_def)

lemma assert_that_simps [simp]: "assert_that True = Some ()" "assert_that False = None"
  by (simp_all add: assert_that_def)

lemma bug_on_eq_Some [simp]: "bug_on c = Some u \<longleftrightarrow> \<not> c"
  by (simp add: bug_on_def)

lemma assert_that_eq_Some [simp]: "assert_that c = Some u \<longleftrightarrow> c"
  by (simp add: assert_that_def)

lemma bug_on_bind [simp]: "bug_on c \<bind> f = (if c then None else f ())"
  by (simp add: bug_on_def)

lemma assert_that_bind [simp]: "assert_that c \<bind> f = (if c then f () else None)"
  by (simp add: assert_that_def)

section \<open>Lists\<close>

lemma takeWhile_append_stop:
  "\<forall>x \<in> set xs. P x \<Longrightarrow> ys = [] \<or> \<not> P (hd ys) \<Longrightarrow> takeWhile P (xs @ ys) = xs"
  by (cases ys) auto

lemma update_length_middle [simp]: "(xs @ y # ys)[length xs := z] = xs @ z # ys"
  by (simp add: list_update_append)

section \<open>Words\<close>

lemma word_Suc_unat: "(a :: 'a::len word) < b \<Longrightarrow> unat (a + 1) = Suc (unat a)"
  by unat_arith

lemma word_pred_unat: "(a :: 'a::len word) < b \<Longrightarrow> unat (b - 1) = unat b - 1"
  by unat_arith

lemma word_le_succ: "(a :: 'a::len word) < b \<Longrightarrow> v \<le> a \<longleftrightarrow> v < a + 1"
  by unat_arith

lemma word_pred_less: "(a :: 'a::len word) < b \<Longrightarrow> v \<le> b - 1 \<longleftrightarrow> v < b"
  by unat_arith

lemma word_succ_le: "(a :: 'a::len word) < b \<Longrightarrow> a + 1 \<le> v \<longleftrightarrow> a < v"
  by unat_arith

lemma word_succ_bound: "(a :: 'a::len word) < b \<Longrightarrow> a + 1 \<le> b"
  by unat_arith

lemma word_succ_not_le: "(e :: 'a::len word) \<noteq> - 1 \<Longrightarrow> v < e + 1 \<longleftrightarrow> v \<le> e"
  using word_le_succ [of e "- 1" v] by (simp add: word_order.not_eq_extremum)

lemma word_interval_join:
  fixes a :: "'a::len word"
  assumes "b < c" and "b + 1 = c" and "a \<le> b" and "c \<le> d"
  shows "{a .. d} = {a .. b} \<union> {c .. d}"
proof -
  have "v \<le> b \<longleftrightarrow> v < c" for v
    using word_le_succ [OF assms(1)] assms(2) by simp
  then show ?thesis using assms(3,4) by (fastforce simp: not_less)
qed

lemma interval_extend:
  fixes a :: "'a::linorder"
  shows "a \<le> s \<Longrightarrow> s \<le> m \<Longrightarrow> m \<le> M \<Longrightarrow> {a .. m} \<union> {s .. M} = {a .. M}"
  by auto

lemma word_pred_lt: "(a :: 'a::len word) < b \<Longrightarrow> b - 1 < b"
  using word_pred_less [of a b "b - 1"] by simp

lemma word_lt_succ: "(a :: 'a::len word) < b \<Longrightarrow> a < a + 1"
  using word_le_succ [of a b a] by simp

lemma interval_cut:
  fixes a :: "'a::linorder"
  shows "s \<le> e \<Longrightarrow> {a .. e} \<inter> {..< s} = {a ..< s}"
    and "\<not> s \<le> e \<Longrightarrow> {a .. e} \<inter> {..< s} = {a .. e}"
    and "{a .. e} \<inter> {..< s} \<union> {a ..< s} = {a ..< s}"
  by auto

lemma word_interval_pred:
  "(a :: 'a::len word) < s \<Longrightarrow> {a .. s - 1} = {a ..< s}"
  unfolding atLeastAtMost_def atLeastLessThan_def atMost_def lessThan_def
  by (simp only: word_pred_less)

lemma interval_above:
  fixes a :: "'a::linorder"
  shows "a \<le> e \<Longrightarrow> {a .. b} \<inter> {e <..} = {e <.. b}"
  by auto

lemma word_interval_succ:
  "(e :: 'a::len word) < b \<Longrightarrow> {e + 1 .. b} = {e <.. b}"
  unfolding atLeastAtMost_def greaterThanAtMost_def atLeast_def greaterThan_def
  by (simp only: word_succ_le)

section \<open>Loops over a list that may stop\<close>

fun foldM :: "('a \<Rightarrow> 's \<Rightarrow> 's option) \<Rightarrow> 'a list \<Rightarrow> 's \<Rightarrow> 's option" where
  "foldM f [] s = Some s"
| "foldM f (x # xs) s = f x s \<bind> foldM f xs"

lemma foldM_append: "foldM f (xs @ ys) s = foldM f xs s \<bind> foldM f ys"
  by (induction xs arbitrary: s) (auto split: bind_splits)

lemma foldM_inv:
  assumes "foldM f xs s = Some s'" and "I s"
    and "\<And>x s s'. x \<in> set xs \<Longrightarrow> I s \<Longrightarrow> f x s = Some s' \<Longrightarrow> I s'"
  shows "I s'"
  using assms
proof (induction xs arbitrary: s)
  case (Cons x xs)
  then obtain s1 where "f x s = Some s1" "foldM f xs s1 = Some s'"
    by (auto simp: bind_eq_Some_conv)
  with Cons show ?case by (metis list.set_intros(1) list.set_intros(2))
qed simp

lemma foldM_total:
  assumes "I s" and "\<And>x s. x \<in> set xs \<Longrightarrow> I s \<Longrightarrow> \<exists>s'. f x s = Some s' \<and> I s'"
  shows "\<exists>s'. foldM f xs s = Some s' \<and> I s'"
  using assms
proof (induction xs arbitrary: s)
  case (Cons x xs)
  then obtain s1 where "f x s = Some s1" "I s1" by (meson list.set_intros(1))
  with Cons show ?case by simp
qed simp

section \<open>Transition systems\<close>

text \<open>The contract of a step relation with an invariant: every component that is a state machine provides it.\<close>

locale transition_invariant =
  fixes step :: "'s \<Rightarrow> 's \<Rightarrow> bool" and inv :: "'s \<Rightarrow> bool"
  assumes step_inv: "step s t \<Longrightarrow> inv s \<Longrightarrow> inv t"
begin

lemma reach: "step\<^sup>*\<^sup>* s t \<Longrightarrow> inv s \<Longrightarrow> inv t"
  by (induction rule: rtranclp_induct) (auto intro: step_inv)

end

end
