(* ===== verification/Rangeset.thy ===== *)
theory Rangeset
  imports Xen_Prelude
begin

text \<open>
  The sets of numeric ranges of \<^verbatim>\<open>xen/common/rangeset.c\<close>: ordered lists of inclusive,
  disjoint, non-adjacent ranges of \<^verbatim>\<open>unsigned long\<close>, in which Xen keeps every domain's
  I/O-memory, interrupt and I/O-port capabilities (\<^verbatim>\<open>xen/include/xen/iocap.h\<close>).

  A \<^verbatim>\<open>struct range *\<close> into the list of a set is modelled by its position in that list
  (NULL is \<open>None\<close>); \<^verbatim>\<open>destroy_range\<close> shifts the positions behind the destroyed entry.
  Memory allocation is an argument: whether \<^verbatim>\<open>xmalloc\<close> succeeds. The locks of the sets
  protect each operation as a whole, so an operation is one step.
\<close>

section \<open>Data\<close>

record range =
  r_s :: ulong
  r_e :: ulong

record rangeset =
  range_list :: "range list"
  rs_domain :: "nat option"
  rs_name :: string
  rs_flags :: u32

section \<open>Private range functions\<close>

fun find_range_from :: "range list \<Rightarrow> ulong \<Rightarrow> nat \<Rightarrow> nat option \<Rightarrow> nat option" where
  "find_range_from [] s i x = x"
| "find_range_from (y # ys) s i x =
     (if s < r_s y then x else find_range_from ys s (Suc i) (Some i))"

definition find_range :: "rangeset \<Rightarrow> ulong \<Rightarrow> nat option" where
  "find_range r s = find_range_from (range_list r) s 0 None"

definition first_range :: "rangeset \<Rightarrow> nat option" where
  "first_range r = (if range_list r = [] then None else Some 0)"

definition next_range :: "rangeset \<Rightarrow> nat \<Rightarrow> nat option" where
  "next_range r x = (if Suc x < length (range_list r) then Some (Suc x) else None)"

definition insert_range :: "rangeset \<Rightarrow> nat option \<Rightarrow> range \<Rightarrow> rangeset" where
  "insert_range r x y =
     (case x of
        None \<Rightarrow> r\<lparr>range_list := y # range_list r\<rparr>
      | Some i \<Rightarrow> r\<lparr>range_list := take (Suc i) (range_list r) @ y # drop (Suc i) (range_list r)\<rparr>)"

definition destroy_range :: "rangeset \<Rightarrow> nat \<Rightarrow> rangeset" where
  "destroy_range r x = r\<lparr>range_list := take x (range_list r) @ drop (Suc x) (range_list r)\<rparr>"

text \<open>Reading and writing the members of the range at a position: \<^verbatim>\<open>x->s\<close>, \<^verbatim>\<open>x->e = v\<close>.\<close>

abbreviation range_s :: "rangeset \<Rightarrow> nat \<Rightarrow> ulong" where
  "range_s r x \<equiv> r_s (range_list r ! x)"

abbreviation range_e :: "rangeset \<Rightarrow> nat \<Rightarrow> ulong" where
  "range_e r x \<equiv> r_e (range_list r ! x)"

definition set_s :: "rangeset \<Rightarrow> nat \<Rightarrow> ulong \<Rightarrow> rangeset" where
  "set_s r x v = r\<lparr>range_list := (range_list r)[x := (range_list r ! x)\<lparr>r_s := v\<rparr>]\<rparr>"

definition set_e :: "rangeset \<Rightarrow> nat \<Rightarrow> ulong \<Rightarrow> rangeset" where
  "set_e r x v = r\<lparr>range_list := (range_list r)[x := (range_list r ! x)\<lparr>r_e := v\<rparr>]\<rparr>"

section \<open>Adding a range\<close>

text \<open>The loop that destroys the ranges after \<open>x\<close> which \<open>x\<close> has swallowed.\<close>

function swallow_ranges :: "rangeset \<Rightarrow> nat \<Rightarrow> rangeset" where
  "swallow_ranges r x =
     (case next_range r x of
        None \<Rightarrow> r
      | Some y \<Rightarrow>
          if range_e r y > range_e r x then r
          else swallow_ranges (destroy_range r y) x)"
  by pat_completeness auto
termination
  by (relation "measure (\<lambda>(r, x). length (range_list r))")
    (auto simp: destroy_range_def next_range_def split: if_splits)

declare swallow_ranges.simps [simp del]

text \<open>The last step: the range after \<open>x\<close> is merged into it when it is adjacent.\<close>

definition merge_next :: "rangeset \<Rightarrow> nat \<Rightarrow> rangeset" where
  "merge_next r x =
     (case next_range r x of
        None \<Rightarrow> r
      | Some y \<Rightarrow>
          if range_e r x + 1 = range_s r y
          then destroy_range (set_e r x (range_e r y)) y
          else r)"

text \<open>When several ranges are involved: the range that grows to hold the new one.\<close>

definition extend_start :: "rangeset \<Rightarrow> nat option \<Rightarrow> ulong \<Rightarrow> (rangeset \<times> nat) option" where
  "extend_start r x s =
     (case x of
        None \<Rightarrow> do { i \<leftarrow> first_range r; Some (set_s r i s, i) }
      | Some i0 \<Rightarrow>
          if range_e r i0 < s \<and> range_e r i0 + 1 \<noteq> s
          then do { i \<leftarrow> next_range r i0; Some (set_s r i s, i) }
          else Some (r, i0))"

definition rangeset_add_range ::
    "bool \<Rightarrow> rangeset \<Rightarrow> ulong \<Rightarrow> ulong \<Rightarrow> (int \<times> rangeset) option" where
  "rangeset_add_range xmalloc_ok r s e = do {
     assert_that (s \<le> e);
     let x = find_range r s;
     let y = find_range r e;
     if x = y then
       (if (case x of None \<Rightarrow> True | Some i \<Rightarrow> range_e r i < s \<and> range_e r i + 1 \<noteq> s) then
          (if \<not> xmalloc_ok then Some (- ENOMEM, r)
           else Some (0, merge_next (insert_range r y \<lparr>r_s = s, r_e = e\<rparr>)
                           (case y of None \<Rightarrow> 0 | Some j \<Rightarrow> Suc j)))
        else do {
          i \<leftarrow> x;
          Some (0, merge_next (if range_e r i < e then set_e r i e else r) i)
        })
     else do {
       (r1, i) \<leftarrow> extend_start r x s;
       j \<leftarrow> y;
       let r2 = set_e r1 i (if range_e r1 j > e then range_e r1 j else e);
       Some (0, merge_next (swallow_ranges r2 i) i)
     }
   }"

section \<open>Removing a range\<close>

text \<open>
  \<^verbatim>\<open>while ( x != y ) { t = x; x = next_range(r, x); destroy_range(t); }\<close>: once \<open>t\<close> is gone
  its successor stands at the position \<open>t\<close> had, and \<open>y\<close> one position earlier.
\<close>

function destroy_until :: "rangeset \<Rightarrow> nat \<Rightarrow> nat \<Rightarrow> (rangeset \<times> nat) option" where
  "destroy_until r x y =
     (if x = y then Some (r, x)
      else (case next_range r x of
              None \<Rightarrow> None
            | Some _ \<Rightarrow> destroy_until (destroy_range r x) x (y - 1)))"
  by pat_completeness auto
termination
  by (relation "measure (\<lambda>(r, x, y). length (range_list r))")
    (auto simp: destroy_range_def next_range_def split: if_splits)

declare destroy_until.simps [simp del]

text \<open>When several ranges are involved: the first one to destroy.\<close>

definition cut_start :: "rangeset \<Rightarrow> nat option \<Rightarrow> ulong \<Rightarrow> (rangeset \<times> nat) option" where
  "cut_start r x s = do {
     i0 \<leftarrow> (case x of None \<Rightarrow> first_range r | Some i \<Rightarrow> Some i);
     if range_s r i0 < s
     then do { i \<leftarrow> next_range r i0; Some (set_e r i0 (s - 1), i) }
     else Some (r, i0)
   }"

definition rangeset_remove_range ::
    "bool \<Rightarrow> rangeset \<Rightarrow> ulong \<Rightarrow> ulong \<Rightarrow> (int \<times> rangeset) option" where
  "rangeset_remove_range xmalloc_ok r s e = do {
     assert_that (s \<le> e);
     let x = find_range r s;
     let y = find_range r e;
     if x = y then
       (case x of
          None \<Rightarrow> Some (0, r)
        | Some i \<Rightarrow>
            if range_e r i < s then Some (0, r)
            else if range_s r i < s \<and> range_e r i > e then
              (if \<not> xmalloc_ok then Some (- ENOMEM, r)
               else Some (0, insert_range (set_e r i (s - 1)) (Some i)
                               \<lparr>r_s = e + 1, r_e = range_e r i\<rparr>))
            else if range_s r i = s \<and> range_e r i \<le> e then Some (0, destroy_range r i)
            else if range_s r i = s then Some (0, set_s r i (e + 1))
            else if range_e r i \<le> e then Some (0, set_e r i (s - 1))
            else Some (0, r))
     else do {
       (r1, i1) \<leftarrow> cut_start r x s;
       j \<leftarrow> y;
       (r2, i) \<leftarrow> destroy_until r1 i1 j;
       let r3 = set_s r2 i (e + 1);
       Some (0, if range_s r3 i > range_e r3 i then destroy_range r3 i else r3)
     }
   }"

section \<open>Queries and singletons\<close>

definition rangeset_contains_range :: "rangeset \<Rightarrow> ulong \<Rightarrow> ulong \<Rightarrow> bool option" where
  "rangeset_contains_range r s e = do {
     assert_that (s \<le> e);
     Some (case find_range r s of None \<Rightarrow> False | Some x \<Rightarrow> e \<le> range_e r x)
   }"

definition rangeset_overlaps_range :: "rangeset \<Rightarrow> ulong \<Rightarrow> ulong \<Rightarrow> bool option" where
  "rangeset_overlaps_range r s e = do {
     assert_that (s \<le> e);
     Some (case find_range r e of None \<Rightarrow> False | Some x \<Rightarrow> s \<le> range_e r x)
   }"

text \<open>
  The callback of \<^verbatim>\<open>rangeset_report_ranges\<close> takes the bounds of a reported part and the
  context, and returns its code with the context it leaves.
\<close>

fun report_loop ::
    "(ulong \<Rightarrow> ulong \<Rightarrow> 'c \<Rightarrow> int \<times> 'c) \<Rightarrow> range list \<Rightarrow> ulong \<Rightarrow> ulong \<Rightarrow> int \<Rightarrow> 'c \<Rightarrow> int \<times> 'c" where
  "report_loop cb [] s e rc ctxt = (rc, ctxt)"
| "report_loop cb (x # xs) s e rc ctxt =
     (if r_s x \<le> e \<and> rc = 0 then
        (if r_e x \<ge> s then
           (let (rc', ctxt') = cb (max (r_s x) s) (min (r_e x) e) ctxt
            in report_loop cb xs s e rc' ctxt')
         else report_loop cb xs s e rc ctxt)
      else (rc, ctxt))"

definition rangeset_report_ranges ::
    "rangeset \<Rightarrow> ulong \<Rightarrow> ulong \<Rightarrow> (ulong \<Rightarrow> ulong \<Rightarrow> 'c \<Rightarrow> int \<times> 'c) \<Rightarrow> 'c \<Rightarrow> int \<times> 'c" where
  "rangeset_report_ranges r s e cb ctxt =
     (case find_range r s of
        None \<Rightarrow> (0, ctxt)
      | Some i \<Rightarrow> report_loop cb (drop i (range_list r)) s e 0 ctxt)"

definition rangeset_add_singleton :: "bool \<Rightarrow> rangeset \<Rightarrow> ulong \<Rightarrow> (int \<times> rangeset) option" where
  "rangeset_add_singleton xmalloc_ok r s = rangeset_add_range xmalloc_ok r s s"

definition rangeset_remove_singleton :: "bool \<Rightarrow> rangeset \<Rightarrow> ulong \<Rightarrow> (int \<times> rangeset) option" where
  "rangeset_remove_singleton xmalloc_ok r s = rangeset_remove_range xmalloc_ok r s s"

definition rangeset_contains_singleton :: "rangeset \<Rightarrow> ulong \<Rightarrow> bool option" where
  "rangeset_contains_singleton r s = rangeset_contains_range r s s"

definition rangeset_is_empty :: "rangeset option \<Rightarrow> bool" where
  "rangeset_is_empty r = (case r of None \<Rightarrow> True | Some r' \<Rightarrow> range_list r' = [])"

section \<open>Creation and destruction\<close>

text \<open>
  The rangesets in memory, by address, and the list of rangesets each domain owns. The
  address \<^verbatim>\<open>xmalloc\<close> returns (\<open>None\<close> for NULL) is an argument.
\<close>

record rs_store =
  rs_heap :: "nat \<rightharpoonup> rangeset"
  rangesets :: "nat \<Rightarrow> nat list"

definition rangeset_new ::
    "nat option \<Rightarrow> rs_store \<Rightarrow> nat option \<Rightarrow> string option \<Rightarrow> u32 \<Rightarrow> (nat option \<times> rs_store) option" where
  "rangeset_new xmalloc st d nm flags =
     (case xmalloc of
        None \<Rightarrow> Some (None, st)
      | Some r \<Rightarrow> do {
          bug_on (flags AND NOT 1 \<noteq> 0);
          let rs = \<lparr>range_list = [], rs_domain = d,
                    rs_name = (case nm of Some n \<Rightarrow> take 31 n | None \<Rightarrow> ''(no name)''),
                    rs_flags = flags\<rparr>;
          let st1 = st\<lparr>rs_heap := (rs_heap st)(r \<mapsto> rs)\<rparr>;
          Some (Some r,
            case d of None \<Rightarrow> st1
            | Some d' \<Rightarrow> st1\<lparr>rangesets := (rangesets st1)(d' := r # rangesets st1 d')\<rparr>)
        })"

definition rangeset_destroy :: "rs_store \<Rightarrow> nat option \<Rightarrow> rs_store option" where
  "rangeset_destroy st r =
     (case r of
        None \<Rightarrow> Some st
      | Some a \<Rightarrow> do {
          rs \<leftarrow> rs_heap st a;
          let st1 = (case rs_domain rs of
                       None \<Rightarrow> st
                     | Some d \<Rightarrow> st\<lparr>rangesets := (rangesets st)(d := remove1 a (rangesets st d))\<rparr>);
          Some (st1\<lparr>rs_heap := (rs_heap st1)(a := None)\<rparr>)
        })"

definition rangeset_domain_initialise :: "rs_store \<Rightarrow> nat \<Rightarrow> rs_store" where
  "rangeset_domain_initialise st d = st\<lparr>rangesets := (rangesets st)(d := [])\<rparr>"

fun destroy_all :: "nat list \<Rightarrow> rs_store \<Rightarrow> nat \<Rightarrow> rs_store option" where
  "destroy_all [] st d = Some st"
| "destroy_all (a # as) st d = do {
     rs \<leftarrow> rs_heap st a;
     bug_on (rs_domain rs \<noteq> Some d);
     st' \<leftarrow> rangeset_destroy
        (st\<lparr>rs_heap := (rs_heap st)(a \<mapsto> rs\<lparr>rs_domain := None\<rparr>),
            rangesets := (rangesets st)(d := as)\<rparr>) (Some a);
     destroy_all as st' d
   }"

definition rangeset_domain_destroy :: "rs_store \<Rightarrow> nat \<Rightarrow> rs_store option" where
  "rangeset_domain_destroy st d = destroy_all (rangesets st d) st d"

section \<open>Well-formed sets and the set they denote\<close>

definition gap :: "range \<Rightarrow> range \<Rightarrow> bool" where
  "gap a b \<longleftrightarrow> r_e a < r_s b \<and> r_e a + 1 \<noteq> r_s b"

definition ranges_ok :: "range list \<Rightarrow> bool" where
  "ranges_ok l \<longleftrightarrow> (\<forall>x \<in> set l. r_s x \<le> r_e x) \<and> sorted_wrt gap l"

definition rs_ok :: "rangeset \<Rightarrow> bool" where
  "rs_ok r \<longleftrightarrow> ranges_ok (range_list r)"

definition ranges_set :: "range list \<Rightarrow> ulong set" where
  "ranges_set l = (\<Union>x \<in> set l. {r_s x .. r_e x})"

definition rs_set :: "rangeset \<Rightarrow> ulong set" where
  "rs_set r = ranges_set (range_list r)"

end
