(* ===== verification/Rangeset_Correct.thy ===== *)
theory Rangeset_Correct
  imports Rangeset
begin

text \<open>
  Correctness of the rangesets. A well-formed set (\<^const>\<open>rs_ok\<close>) is a sorted list of
  disjoint, non-adjacent ranges; \<^const>\<open>rs_set\<close> is the set of numbers it denotes. The
  operations are first computed on the list split at the ends of the argument
  (\<open>parts\<close>), then shown to be union, difference, inclusion and overlap of the denoted
  sets. Removal is exact only under \<open>remove_exact\<close>: two closed theorems exhibit the inputs
  on which the code adds numbers to the set it should shrink.
\<close>

section \<open>Positions and sorted lists\<close>

lemma find_range_from_eq:
  "find_range_from l s i x =
     (if takeWhile (\<lambda>y. r_s y \<le> s) l = [] then x
      else Some (i + length (takeWhile (\<lambda>y. r_s y \<le> s) l) - 1))"
  by (induction l s i x rule: find_range_from.induct) (auto simp: not_le)

lemma find_range_append:
  assumes "range_list r = A @ C" and "\<forall>a \<in> set A. r_s a \<le> s" and "\<forall>c \<in> set C. s < r_s c"
  shows "find_range r s = (if A = [] then None else Some (length A - 1))"
proof -
  have "takeWhile (\<lambda>y. r_s y \<le> s) (A @ C) = A"
    using assms(2,3) by (cases C) (auto intro: takeWhile_append_stop simp: not_le)
  then show ?thesis by (simp add: find_range_def find_range_from_eq assms(1))
qed

lemma ranges_ok_Nil [simp]: "ranges_ok []"
  by (simp add: ranges_ok_def)

lemma ranges_ok_Cons:
  "ranges_ok (x # xs) \<longleftrightarrow> r_s x \<le> r_e x \<and> (\<forall>y \<in> set xs. gap x y) \<and> ranges_ok xs"
  by (auto simp: ranges_ok_def)

lemma ranges_ok_append:
  "ranges_ok (xs @ ys) \<longleftrightarrow>
     ranges_ok xs \<and> ranges_ok ys \<and> (\<forall>x \<in> set xs. \<forall>y \<in> set ys. gap x y)"
  by (auto simp: ranges_ok_def sorted_wrt_append)

lemma ranges_ok_lower: "ranges_ok (x # xs) \<Longrightarrow> y \<in> set xs \<Longrightarrow> r_s x < r_s y"
  by (auto simp: ranges_ok_Cons gap_def)

lemma ranges_split:
  assumes "ranges_ok l"
  obtains A C where "l = A @ C" and "\<forall>a \<in> set A. r_s a \<le> s" and "\<forall>c \<in> set C. s < r_s c"
proof
  let ?P = "\<lambda>y. r_s y \<le> s"
  show "l = takeWhile ?P l @ dropWhile ?P l" by simp
  show "\<forall>a \<in> set (takeWhile ?P l). r_s a \<le> s" by (auto dest: set_takeWhileD)
  show "\<forall>c \<in> set (dropWhile ?P l). s < r_s c"
  proof (cases "dropWhile ?P l")
    case Nil
    show ?thesis unfolding Nil by simp
  next
    case (Cons c C)
    then have "s < r_s c" using hd_dropWhile [of ?P l] by auto
    moreover have "ranges_ok (c # C)"
      using assms Cons by (metis ranges_ok_append takeWhile_dropWhile_id)
    ultimately show ?thesis using Cons by (auto dest: ranges_ok_lower)
  qed
qed

lemma ranges_split3:
  assumes "ranges_ok l" and "s \<le> e"
  obtains A B C where "l = A @ B @ C" and "\<forall>a \<in> set A. r_s a \<le> s"
    and "\<forall>b \<in> set B. s < r_s b \<and> r_s b \<le> e" and "\<forall>c \<in> set C. e < r_s c"
proof -
  obtain A D where l: "l = A @ D" and A: "\<forall>a \<in> set A. r_s a \<le> s" and D: "\<forall>c \<in> set D. s < r_s c"
    using ranges_split [OF assms(1), of s] by blast
  have "ranges_ok D" using assms(1) l by (simp add: ranges_ok_append)
  then obtain B C where "D = B @ C" and "\<forall>b \<in> set B. r_s b \<le> e" and "\<forall>c \<in> set C. e < r_s c"
    using ranges_split [of D e] by blast
  with l A D that show thesis by auto
qed

lemma swallow_ranges_append:
  assumes "range_list r = A @ x # B @ C"
    and "\<forall>b \<in> set B. r_e b \<le> r_e x" and "C = [] \<or> r_e x < r_e (hd C)"
  shows "swallow_ranges r (length A) = r\<lparr>range_list := A @ x # C\<rparr>"
  using assms
proof (induction B arbitrary: r)
  case Nil
  then show ?case
    by (cases C) (auto simp: swallow_ranges.simps [of r] next_range_def nth_append)
next
  case (Cons b B)
  have d: "destroy_range r (Suc (length A)) = r\<lparr>range_list := A @ x # B @ C\<rparr>"
    by (simp add: destroy_range_def Cons.prems(1))
  have "swallow_ranges r (length A) = swallow_ranges (r\<lparr>range_list := A @ x # B @ C\<rparr>) (length A)"
    using Cons.prems by (auto simp: swallow_ranges.simps [of r] next_range_def nth_append d dest: leD)
  also have "\<dots> = r\<lparr>range_list := A @ x # C\<rparr>"
    using Cons.IH [of "r\<lparr>range_list := A @ x # B @ C\<rparr>"] Cons.prems by simp
  finally show ?case .
qed

fun merge_head :: "range \<Rightarrow> range list \<Rightarrow> range list" where
  "merge_head x [] = [x]"
| "merge_head x (c # C) = (if r_e x + 1 = r_s c then x\<lparr>r_e := r_e c\<rparr> # C else x # c # C)"

lemma merge_next_append:
  assumes "range_list r = A @ x # C"
  shows "merge_next r (length A) = r\<lparr>range_list := A @ merge_head x C\<rparr>"
  using assms
  by (cases C)
    (auto simp: merge_next_def next_range_def nth_append set_e_def destroy_range_def)

lemma ranges_set_simps [simp]:
  "ranges_set [] = {}"
  "ranges_set (x # xs) = {r_s x .. r_e x} \<union> ranges_set xs"
  "ranges_set (xs @ ys) = ranges_set xs \<union> ranges_set ys"
  by (auto simp: ranges_set_def)
text \<open>What the operation leaves: the kept ranges below, one range grown out of the ones it
  touches, and the rest behind it.\<close>

definition touches :: "range \<Rightarrow> ulong \<Rightarrow> bool" where
  "touches a s \<longleftrightarrow> \<not> (r_e a < s \<and> r_e a + 1 \<noteq> s)"

definition add_list :: "range list \<Rightarrow> range list \<Rightarrow> range list \<Rightarrow> ulong \<Rightarrow> ulong \<Rightarrow> range list" where
  "add_list A B C s e =
     (if A \<noteq> [] \<and> touches (last A) s
      then butlast A @ merge_head ((last A)\<lparr>r_e := max (r_e (last (last A # B))) e\<rparr>) C
      else A @ merge_head \<lparr>r_s = s, r_e = (if B = [] then e else max (r_e (last B)) e)\<rparr> C)"

lemma range_update [simp]:
  "x\<lparr>r_s := s, r_e := e\<rparr> = \<lparr>r_s = s, r_e = e\<rparr>" "(x :: range)\<lparr>r_e := r_e x\<rparr> = x"
  by (cases x; simp)+

text \<open>
  The list of a well-formed set, split for an operation on \<open>[s, e]\<close>: the ranges that start
  at or below \<open>s\<close>, those that start inside, and those that start above \<open>e\<close>.
\<close>

definition parts :: "rangeset \<Rightarrow> range list \<Rightarrow> range list \<Rightarrow> range list \<Rightarrow> ulong \<Rightarrow> ulong \<Rightarrow> bool" where
  "parts r A B C s e \<longleftrightarrow>
     range_list r = A @ B @ C \<and> ranges_ok (A @ B @ C) \<and> s \<le> e \<and> (\<forall>a \<in> set A. r_s a \<le> s) \<and>
     (\<forall>b \<in> set B. s < r_s b \<and> r_s b \<le> e) \<and> (\<forall>c \<in> set C. e < r_s c)"

lemma parts_exist: "rs_ok r \<Longrightarrow> s \<le> e \<Longrightarrow> \<exists>A B C. parts r A B C s e"
  using ranges_split3 [of "range_list r" s e] unfolding rs_ok_def parts_def by metis

lemma find_range_parts:
  assumes "parts r A B C s e"
  shows "find_range r s = (if A = [] then None else Some (length A - 1))"
    and "find_range r e = (if A @ B = [] then None else Some (length (A @ B) - 1))"
    and "find_range r s = find_range r e \<longleftrightarrow> B = []"
proof -
  show s: "find_range r s = (if A = [] then None else Some (length A - 1))"
    using assms by (intro find_range_append [where C = "B @ C"]) (auto simp: parts_def)
  show e: "find_range r e = (if A @ B = [] then None else Some (length (A @ B) - 1))"
    using assms by (intro find_range_append [where C = C]) (auto simp: parts_def)
  show "find_range r s = find_range r e \<longleftrightarrow> B = []"
    using s e by (cases A; cases B) auto
qed

lemma add_range_single:
  assumes p: "parts r A [] C s e"
  shows "rangeset_add_range True r s e = Some (0, r\<lparr>range_list := add_list A [] C s e\<rparr>)"
proof -
  have l: "range_list r = A @ C" and se: "s \<le> e" using p by (simp_all add: parts_def)
  note fs = find_range_parts(1) [OF p] and fe = find_range_parts(2) [OF p]
  show ?thesis
  proof (cases A rule: rev_cases)
    case Nil
    then show ?thesis
      using fs fe l se merge_next_append [of "insert_range r None \<lparr>r_s = s, r_e = e\<rparr>" "[]"]
      by (simp add: rangeset_add_range_def add_list_def insert_range_def)
  next
    case (snoc A' a)
    then have la: "length A - 1 = length A'" and ra: "range_list r ! length A' = a"
      using l by (simp_all add: nth_append)
    show ?thesis
    proof (cases "touches a s")
      case True
      then show ?thesis
        using fs fe l se snoc la ra
        by (auto simp: rangeset_add_range_def Let_def add_list_def touches_def set_e_def max_def
            merge_next_append [where A = A' and C = C] not_less)
    next
      case False
      then show ?thesis
        using fs fe l se snoc la ra
          merge_next_append [of "r\<lparr>range_list := (A' @ [a]) @ \<lparr>r_s = s, r_e = e\<rparr> # C\<rparr>" "A' @ [a]"]
        by (auto simp: rangeset_add_range_def Let_def add_list_def touches_def insert_range_def)
    qed
  qed
qed

lemma add_range_finish:
  assumes p: "parts r A (B' @ [b]) C s e"
    and st: "extend_start r (find_range r s) s = Some (r1, length K)"
    and re: "range_e r1 (length (A @ B')) = r_e b"
    and r2: "set_e r1 (length K) (max (r_e b) e) = r\<lparr>range_list := K @ n # D @ C\<rparr>"
    and n: "r_e n = max (r_e b) e" and D: "set D \<subseteq> set (B' @ [b])"
  shows "rangeset_add_range True r s e = Some (0, r\<lparr>range_list := K @ merge_head n C\<rparr>)"
proof -
  have ok: "ranges_ok (B' @ b # C)" and C: "\<forall>c \<in> set C. e < r_s c" and se: "s \<le> e"
    using p by (auto simp: parts_def ranges_ok_append)
  have "C = [] \<or> r_e n < r_e (hd C)"
    using C ok n by (cases C) (auto simp: ranges_ok_append ranges_ok_Cons gap_def)
  moreover have "\<forall>x \<in> set (B' @ [b]). r_e x \<le> r_e b"
    using ok by (fastforce simp: ranges_ok_append ranges_ok_Cons gap_def)
  then have "\<forall>x \<in> set D. r_e x \<le> r_e n" using D n by (auto simp: le_max_iff_disj)
  ultimately have "swallow_ranges (r\<lparr>range_list := K @ n # D @ C\<rparr>) (length K)
      = r\<lparr>range_list := K @ n # C\<rparr>"
    by (subst swallow_ranges_append [where B = D and C = C]) simp_all
  moreover have "merge_next (r\<lparr>range_list := K @ n # C\<rparr>) (length K)
      = r\<lparr>range_list := K @ merge_head n C\<rparr>"
    by (simp add: merge_next_append)
  moreover have "find_range r s \<noteq> find_range r e" using find_range_parts(3) [OF p] by simp
  moreover have "find_range r e = Some (length (A @ B'))" using find_range_parts(2) [OF p] by simp
  moreover have "(if range_e r1 (length A + length B') > e then range_e r1 (length A + length B') else e)
      = max (r_e b) e"
    using re by (auto simp: max_def)
  ultimately show ?thesis
    using se st r2 by (simp add: rangeset_add_range_def Let_def split del: if_split)
qed

lemma add_range_multi:
  assumes p: "parts r A (B' @ [b]) C s e"
  shows "rangeset_add_range True r s e = Some (0, r\<lparr>range_list := add_list A (B' @ [b]) C s e\<rparr>)"
proof (cases "A = [] \<or> \<not> touches (last A) s")
  case True
  obtain h D where h: "B' @ [b] = h # D" by (cases "B' @ [b]") auto
  have l: "range_list r = A @ h # D @ C" using p h by (simp add: parts_def)
  have "extend_start r (find_range r s) s = Some (set_s r (length A) s, length A)"
    using True l find_range_parts(1) [OF p]
    by (cases A rule: rev_cases)
      (auto simp: extend_start_def first_range_def next_range_def touches_def nth_append)
  moreover have "range_e (set_s r (length A) s) (length (A @ B')) = r_e b"
    using l h by (cases B') (auto simp: set_s_def nth_append)
  moreover have "set_e (set_s r (length A) s) (length A) (max (r_e b) e)
      = r\<lparr>range_list := A @ \<lparr>r_s = s, r_e = max (r_e b) e\<rparr> # D @ C\<rparr>"
    using l by (simp add: set_s_def set_e_def)
  moreover have "set D \<subseteq> set (B' @ [b])" unfolding h by auto
  ultimately show ?thesis
    using True add_range_finish [OF p] by (auto simp: add_list_def)
next
  case False
  then obtain A' a where a: "A = A' @ [a]" "touches a s"
    by (cases A rule: rev_cases) auto
  have l: "range_list r = A' @ a # (B' @ [b]) @ C" using p a by (simp add: parts_def)
  have "extend_start r (find_range r s) s = Some (r, length A')"
    using l a find_range_parts(1) [OF p] by (auto simp: extend_start_def touches_def nth_append)
  moreover have "range_e r (length (A @ B')) = r_e b"
    using l a by (auto simp: nth_append)
  moreover have "set_e r (length A') (max (r_e b) e)
      = r\<lparr>range_list := A' @ a\<lparr>r_e := max (r_e b) e\<rparr> # (B' @ [b]) @ C\<rparr>"
    using l by (simp add: set_e_def)
  ultimately show ?thesis
    using a add_range_finish [OF p, of r A' "a\<lparr>r_e := max (r_e b) e\<rparr>" "B' @ [b]"]
    by (simp add: add_list_def)
qed

lemma add_range_list:
  assumes "parts r A B C s e"
  shows "rangeset_add_range True r s e = Some (0, r\<lparr>range_list := add_list A B C s e\<rparr>)"
  using assms add_range_single add_range_multi by (cases B rule: rev_cases) auto

lemma gap_update [simp]: "gap x (a\<lparr>r_e := v\<rparr>) = gap x a"
  by (simp add: gap_def)

lemma merge_head_ok:
  assumes "ranges_ok C" and "r_s x \<le> r_e x" and "\<forall>c \<in> set C. r_e x < r_s c"
  shows "ranges_ok (merge_head x C)"
proof (cases C)
  case Nil
  with assms show ?thesis by (simp add: ranges_ok_Cons)
next
  case (Cons c C')
  with assms have "r_s x \<le> r_e c" by (auto simp: ranges_ok_Cons intro: order_trans less_imp_le)
  moreover have "r_e x + 1 < r_s y" if "y \<in> set C'" for y
  proof -
    have "r_e x + 1 \<le> r_s c" using assms Cons by (intro word_succ_bound) simp
    also have "\<dots> < r_s y" using assms Cons that by (auto dest: ranges_ok_lower)
    finally show ?thesis .
  qed
  ultimately show ?thesis using assms Cons by (fastforce simp: ranges_ok_Cons gap_def)
qed

lemma merge_head_set:
  assumes "ranges_ok C" and "r_s x \<le> r_e x" and "\<forall>c \<in> set C. r_e x < r_s c"
  shows "ranges_set (merge_head x C) = {r_s x .. r_e x} \<union> ranges_set C"
proof (cases "\<exists>c C'. C = c # C' \<and> r_e x + 1 = r_s c")
  case True
  then obtain c C' where C: "C = c # C'" "r_e x + 1 = r_s c" by blast
  then have "{r_s x .. r_e c} = {r_s x .. r_e x} \<union> {r_s c .. r_e c}"
    using assms by (intro word_interval_join) (simp_all add: ranges_ok_Cons)
  with C show ?thesis by (simp add: Un_assoc)
next
  case False
  then show ?thesis by (cases C) auto
qed

lemma merge_head_gap:
  assumes "\<forall>c \<in> set C. gap a c" and "gap a x"
  shows "\<forall>c \<in> set (merge_head x C). gap a c"
  using assms by (cases C) (simp_all add: gap_def)

lemma ranges_set_upto:
  assumes "ranges_ok (B @ [b])" and "\<forall>x \<in> set (B @ [b]). s \<le> r_s x \<and> r_s x \<le> e"
  shows "ranges_set (B @ [b]) \<union> {s .. e} = {s .. max (r_e b) e}"
proof -
  have "r_e x < r_s b" if "x \<in> set B" for x
    using assms(1) that by (auto simp: ranges_ok_append gap_def)
  moreover have "r_s b \<le> r_e b" using assms(1) by (simp add: ranges_ok_append ranges_ok_Cons)
  ultimately have "ranges_set B \<subseteq> {s .. max (r_e b) e}"
    using assms(2) by (fastforce simp: ranges_set_def le_max_iff_disj)
  moreover have "{r_s b .. r_e b} \<union> {s .. e} = {s .. max (r_e b) e}"
    using assms(2) \<open>r_s b \<le> r_e b\<close> by (auto simp: max_def not_le)
  ultimately show ?thesis by auto
qed

lemma add_list_grow:
  assumes ok: "ranges_ok (a # B @ C)" and t: "touches a s" and "r_s a \<le> s" and "s \<le> e"
    and B: "\<forall>b \<in> set B. s < r_s b \<and> r_s b \<le> e" and C: "\<forall>c \<in> set C. e < r_s c"
  shows "{r_s a .. max (r_e (last (a # B))) e} = ranges_set (a # B) \<union> {s .. e}"
    and "\<forall>c \<in> set C. max (r_e (last (a # B))) e < r_s c"
proof -
  have as: "{r_s a .. r_e a} \<union> {s .. e} = {r_s a .. max (r_e a) e}"
  proof (cases "r_e a < s")
    case True
    then have "r_e a + 1 = s" using t by (simp add: touches_def)
    moreover have "r_s a \<le> r_e a" using ok by (simp add: ranges_ok_Cons)
    ultimately have "{r_s a .. e} = {r_s a .. r_e a} \<union> {s .. e}"
      using True \<open>s \<le> e\<close> by (intro word_interval_join) simp_all
    moreover have "max (r_e a) e = e" using True \<open>s \<le> e\<close> by simp
    ultimately show ?thesis by simp
  next
    case False
    then show ?thesis using \<open>r_s a \<le> s\<close> by (auto simp: max_def not_le)
  qed
  show "{r_s a .. max (r_e (last (a # B))) e} = ranges_set (a # B) \<union> {s .. e}"
  proof (cases B rule: rev_cases)
    case Nil
    with as show ?thesis by simp
  next
    case (snoc B' b)
    have u: "ranges_set B \<union> {s .. e} = {s .. max (r_e b) e}"
      using snoc ok B by (simp only: snoc, intro ranges_set_upto)
        (auto simp: ranges_ok_Cons ranges_ok_append)
    have "r_e a < r_s b" "r_s b \<le> r_e b" using snoc ok by (auto simp: ranges_ok_Cons ranges_ok_append gap_def)
    then have "r_e a \<le> max (r_e b) e" by (auto simp: le_max_iff_disj)
    have "ranges_set (a # B) \<union> {s .. e} = {r_s a .. r_e a} \<union> {s .. e} \<union> (ranges_set B \<union> {s .. e})"
      by auto
    also have "\<dots> = {r_s a .. max (r_e b) e}"
      unfolding as u using \<open>r_e a \<le> max (r_e b) e\<close> \<open>s \<le> e\<close> \<open>r_s a \<le> s\<close>
      by (intro interval_extend max.boundedI) (simp_all add: le_max_iff_disj)
    finally show ?thesis using snoc by simp
  qed
  show "\<forall>c \<in> set C. max (r_e (last (a # B))) e < r_s c"
    using C ok by (cases B rule: rev_cases) (auto simp: ranges_ok_Cons ranges_ok_append gap_def)
qed

lemma gap_lower [simp]: "gap x (b\<lparr>r_s := v\<rparr>) \<longleftrightarrow> r_e x < v \<and> r_e x + 1 \<noteq> v"
  by (simp add: gap_def)

lemma gap_upper: "gap (b\<lparr>r_e := v\<rparr>) x \<longleftrightarrow> v < r_s x \<and> v + 1 \<noteq> r_s x"
  by (simp add: gap_def)

lemma gap_trans:
  assumes "gap a b" and "r_s b \<le> v"
  shows "r_e a < v \<and> r_e a + 1 \<noteq> v"
proof -
  have g: "r_e a < r_s b" "r_e a + 1 \<noteq> r_s b" using assms(1) by (simp_all add: gap_def)
  have "r_e a + 1 \<le> r_s b" using g(1) by (rule word_succ_bound)
  then have "r_e a + 1 < v" using g(2) assms(2) by order
  moreover have "r_e a < v" using g(1) assms(2) by order
  ultimately show ?thesis by auto
qed

lemma kept_and_merged:
  assumes "ranges_ok K" and C: "ranges_ok C" and n: "r_s n \<le> r_e n" "\<forall>c \<in> set C. r_e n < r_s c"
    and g: "\<And>x. x \<in> set K \<Longrightarrow> gap x n \<and> (\<forall>c \<in> set C. gap x c)"
  shows "ranges_ok (K @ merge_head n C) \<and>
    ranges_set (K @ merge_head n C) = ranges_set K \<union> {r_s n .. r_e n} \<union> ranges_set C"
proof -
  have "\<forall>c \<in> set (merge_head n C). gap x c" if "x \<in> set K" for x
    using g [OF that] by (intro merge_head_gap) auto
  then have "ranges_ok (K @ merge_head n C)"
    using assms(1) merge_head_ok [OF C n] by (simp add: ranges_ok_append)
  moreover have "ranges_set (K @ merge_head n C) = ranges_set K \<union> {r_s n .. r_e n} \<union> ranges_set C"
    unfolding ranges_set_simps merge_head_set [OF C n] by blast
  ultimately show ?thesis ..
qed

lemma gap_below:
  assumes ok: "ranges_ok (A' @ [a])" and a: "r_e a < r_s n" "r_e a + 1 \<noteq> r_s n" and x: "x \<in> set (A' @ [a])"
  shows "gap x n"
proof (cases "x = a")
  case True
  with a show ?thesis by (simp add: gap_def)
next
  case False
  with x ok have "gap x a" "r_s a \<le> r_e a" by (auto simp: ranges_ok_append ranges_ok_Cons)
  moreover have "r_s a \<le> r_s n" using \<open>r_s a \<le> r_e a\<close> a(1) by order
  ultimately show ?thesis using gap_trans [of x a "r_s n"] by (simp add: gap_def)
qed

lemma add_list_touching:
  assumes p: "parts r (A' @ [a]) B C s e" and t: "touches a s"
  shows "ranges_ok (add_list (A' @ [a]) B C s e) \<and>
    ranges_set (add_list (A' @ [a]) B C s e) = rs_set r \<union> {s .. e}"
proof -
  have ok: "ranges_ok (A' @ a # B @ C)" and se: "s \<le> e" and as: "r_s a \<le> s"
    and B: "\<forall>b \<in> set B. s < r_s b \<and> r_s b \<le> e" and C: "\<forall>c \<in> set C. e < r_s c"
    using p by (simp_all add: parts_def)
  let ?n = "a\<lparr>r_e := max (r_e (last (a # B))) e\<rparr>"
  have "ranges_ok (a # B @ C)" using ok by (simp add: ranges_ok_append)
  note g = add_list_grow [OF this t as se B C]
  have "r_s ?n \<le> r_e ?n" using as se by (auto simp: le_max_iff_disj)
  then have "ranges_ok (A' @ merge_head ?n C) \<and>
      ranges_set (A' @ merge_head ?n C) = ranges_set A' \<union> {r_s ?n .. r_e ?n} \<union> ranges_set C"
    using ok g(2) by (intro kept_and_merged) (auto simp: ranges_ok_append ranges_ok_Cons)
  moreover have "rs_set r = ranges_set A' \<union> ranges_set (a # B) \<union> ranges_set C"
    using p by (auto simp: parts_def rs_set_def)
  ultimately show ?thesis using t g(1) by (auto simp: add_list_def)
qed

lemma add_list_apart:
  assumes p: "parts r A B C s e" and t: "A = [] \<or> \<not> touches (last A) s"
  shows "ranges_ok (add_list A B C s e) \<and> ranges_set (add_list A B C s e) = rs_set r \<union> {s .. e}"
proof -
  have ok: "ranges_ok (A @ B @ C)" and se: "s \<le> e"
    and B: "\<forall>b \<in> set B. s < r_s b \<and> r_s b \<le> e" and C: "\<forall>c \<in> set C. e < r_s c"
    using p by (simp_all add: parts_def)
  let ?n = "\<lparr>r_s = s, r_e = (if B = [] then e else max (r_e (last B)) e)\<rparr>"
  have nC: "\<forall>c \<in> set C. r_e ?n < r_s c"
    using C ok by (cases B rule: rev_cases) (auto simp: ranges_ok_Cons ranges_ok_append gap_def)
  have nB: "{r_s ?n .. r_e ?n} = ranges_set B \<union> {s .. e}"
  proof (cases B rule: rev_cases)
    case (snoc B' b)
    have "ranges_ok (B' @ [b])" using ok snoc by (simp add: ranges_ok_append ranges_ok_Cons)
    moreover have "\<forall>x \<in> set (B' @ [b]). s \<le> r_s x \<and> r_s x \<le> e"
      using B unfolding snoc by (blast intro: less_imp_le)
    ultimately have "ranges_set (B' @ [b]) \<union> {s .. e} = {s .. max (r_e b) e}"
      by (rule ranges_set_upto)
    with snoc show ?thesis by simp
  qed simp
  have "gap x ?n" if "x \<in> set A" for x
  proof -
    from that obtain A' a where a: "A = A' @ [a]" by (cases A rule: rev_cases) auto
    show ?thesis
      using t a ok that by (intro gap_below [of A' a]) (auto simp: touches_def ranges_ok_append ranges_ok_Cons)
  qed
  then have "ranges_ok (A @ merge_head ?n C) \<and>
      ranges_set (A @ merge_head ?n C) = ranges_set A \<union> {r_s ?n .. r_e ?n} \<union> ranges_set C"
    using ok nC se by (intro kept_and_merged) (auto simp: ranges_ok_append le_max_iff_disj)
  moreover have "rs_set r = ranges_set A \<union> ranges_set B \<union> ranges_set C"
    using p by (auto simp: parts_def rs_set_def)
  ultimately show ?thesis using t nB by (auto simp: add_list_def)
qed

lemma add_list_ok:
  assumes "parts r A B C s e"
  shows "ranges_ok (add_list A B C s e) \<and> ranges_set (add_list A B C s e) = rs_set r \<union> {s .. e}"
proof (cases "A = [] \<or> \<not> touches (last A) s")
  case True
  with assms show ?thesis by (rule add_list_apart)
next
  case False
  then obtain A' a where "A = A' @ [a]" "touches a s" by (cases A rule: rev_cases) auto
  with assms show ?thesis using add_list_touching by blast
qed

text \<open>
  Removal: what stays of the range \<open>a\<close> that starts below \<open>s\<close>, and of the last range the
  removed one reaches. When ranges start inside the removed one (\<open>multi\<close>), the code ends
  \<open>a\<close> at \<open>s - 1\<close> whether or not \<open>a\<close> reached that far.
\<close>

definition cut_below :: "bool \<Rightarrow> range \<Rightarrow> ulong \<Rightarrow> range list" where
  "cut_below multi a s =
     (if r_s a < s then [if multi \<or> s \<le> r_e a then a\<lparr>r_e := s - 1\<rparr> else a] else [])"

definition cut_above :: "range \<Rightarrow> ulong \<Rightarrow> range list" where
  "cut_above b e = (if e < r_e b then [b\<lparr>r_s := e + 1\<rparr>] else [])"

definition remove_list :: "range list \<Rightarrow> range list \<Rightarrow> range list \<Rightarrow> ulong \<Rightarrow> ulong \<Rightarrow> range list" where
  "remove_list A B C s e =
     (if A = [] then [] else butlast A @ cut_below (B \<noteq> []) (last A) s) @
     (if A @ B = [] then [] else cut_above (last (A @ B)) e) @ C"

lemma destroy_until_append:
  assumes "range_list r = A @ B @ y # C"
  shows "destroy_until r (length A) (length (A @ B)) = Some (r\<lparr>range_list := A @ y # C\<rparr>, length A)"
  using assms
proof (induction B arbitrary: r)
  case Nil
  then show ?case by (simp add: destroy_until.simps)
next
  case (Cons b B)
  have d: "destroy_range r (length A) = r\<lparr>range_list := A @ B @ y # C\<rparr>"
    by (simp add: destroy_range_def Cons.prems(1))
  show ?case
    using Cons.IH [of "r\<lparr>range_list := A @ B @ y # C\<rparr>"] Cons.prems
    by (simp add: destroy_until.simps [of r] next_range_def d)
qed

lemma remove_range_single:
  assumes p: "parts r A [] C s e"
  shows "rangeset_remove_range True r s e = Some (0, r\<lparr>range_list := remove_list A [] C s e\<rparr>)"
proof (cases A rule: rev_cases)
  case Nil
  then show ?thesis
    using p find_range_parts(1,2) [OF p]
    by (simp add: rangeset_remove_range_def remove_list_def parts_def)
next
  case (snoc A' a)
  then have f: "find_range r s = Some (length A')" "find_range r e = Some (length A')"
    and ra: "range_list r = A' @ a # C"
    using p find_range_parts(1,2) [OF p] by (simp_all add: parts_def)
  have a: "r_s a \<le> s" "r_s a \<le> r_e a" "s \<le> e"
    using p snoc by (auto simp: parts_def ranges_ok_append ranges_ok_Cons)
  then consider "r_e a < s" | "r_s a < s" "e < r_e a" | "r_s a = s" "r_e a \<le> e"
    | "r_s a = s" "e < r_e a" | "r_s a < s" "s \<le> r_e a" "r_e a \<le> e"
    by fastforce
  then show ?thesis
    by cases (use f ra a snoc in
      \<open>auto simp: rangeset_remove_range_def Let_def remove_list_def cut_below_def cut_above_def
        set_e_def set_s_def destroy_range_def insert_range_def\<close>)
qed

lemma cut_start_parts:
  assumes p: "parts r A (B' @ [b]) C s e"
    and P: "P = (if A = [] then [] else butlast A @ cut_below True (last A) s)"
  shows "\<exists>Q. cut_start r (find_range r s) s = Some (r\<lparr>range_list := P @ Q @ b # C\<rparr>, length P)
    \<and> length (A @ B') = length (P @ Q)"
proof (cases A rule: rev_cases)
  case Nil
  then have "cut_start r (find_range r s) s = Some (r\<lparr>range_list := P @ B' @ b # C\<rparr>, length P)"
    using p P find_range_parts(1) [OF p]
    by (cases B') (auto simp: cut_start_def first_range_def parts_def)
  then show ?thesis using Nil P by auto
next
  case (snoc A' a)
  then have f: "find_range r s = Some (length A')" and ra: "range_list r = A' @ a # B' @ b # C"
    using p find_range_parts(1) [OF p] by (simp_all add: parts_def)
  show ?thesis
  proof (cases "r_s a < s")
    case True
    then have "cut_start r (find_range r s) s = Some (r\<lparr>range_list := P @ B' @ b # C\<rparr>, length P)"
      using f ra snoc P by (simp add: cut_start_def next_range_def cut_below_def set_e_def)
    then show ?thesis using snoc True P by (auto simp: cut_below_def)
  next
    case False
    then have "cut_start r (find_range r s) s = Some (r\<lparr>range_list := P @ (a # B') @ b # C\<rparr>, length P)"
      using f ra snoc P by (simp add: cut_start_def cut_below_def)
    then show ?thesis using snoc False P
      by (intro exI [where x = "a # B'"]) (auto simp: cut_below_def)
  qed
qed

lemma remove_range_multi:
  assumes p: "parts r A (B' @ [b]) C s e" and top: "e \<noteq> - 1"
  shows "rangeset_remove_range True r s e
    = Some (0, r\<lparr>range_list := remove_list A (B' @ [b]) C s e\<rparr>)"
proof -
  have ne: "find_range r s \<noteq> find_range r e" using find_range_parts(3) [OF p] by simp
  have je: "find_range r e = Some (length (A @ B'))" using find_range_parts(2) [OF p] by simp
  have top': "r_e b < e + 1 \<longleftrightarrow> r_e b \<le> e" using top by (rule word_succ_not_le)
  define P where "P = (if A = [] then [] else butlast A @ cut_below True (last A) s)"
  obtain Q where cs: "cut_start r (find_range r s) s =
      Some (r\<lparr>range_list := P @ Q @ b # C\<rparr>, length P)" and len: "length (A @ B') = length (P @ Q)"
    using cut_start_parts [OF p P_def] by blast
  have "destroy_until (r\<lparr>range_list := P @ Q @ b # C\<rparr>) (length P) (length (P @ Q))
      = Some (r\<lparr>range_list := P @ b # C\<rparr>, length P)"
    by (subst destroy_until_append) simp_all
  then have "rangeset_remove_range True r s e
      = Some (0, r\<lparr>range_list := P @ cut_above b e @ C\<rparr>)"
    using ne je cs top' p unfolding rangeset_remove_range_def len
    by (auto simp: Let_def cut_above_def set_s_def destroy_range_def not_less not_le parts_def)
  moreover have "remove_list A (B' @ [b]) C s e = P @ cut_above b e @ C"
    by (simp add: remove_list_def P_def)
  ultimately show ?thesis by simp
qed

lemma remove_range_list:
  assumes "parts r A B C s e" and "e \<noteq> - 1 \<or> B = []"
  shows "rangeset_remove_range True r s e = Some (0, r\<lparr>range_list := remove_list A B C s e\<rparr>)"
  using assms remove_range_single remove_range_multi by (cases B rule: rev_cases) auto

lemma cut_below_set:
  assumes "r_s a \<le> s" and "r_s a \<le> r_e a"
  shows "ranges_set (cut_below m a s) =
    ({r_s a .. r_e a} \<inter> {..< s}) \<union> (if m \<and> r_s a < s then {r_s a .. s - 1} else {})"
proof (cases "r_s a < s")
  case True
  then show ?thesis by (simp add: cut_below_def interval_cut word_interval_pred)
next
  case False
  then have "{r_s a .. r_e a} \<inter> {..< s} = {}" using assms by auto
  with False show ?thesis by (simp add: cut_below_def)
qed

lemma cut_above_set: "r_s b \<le> e \<Longrightarrow> ranges_set (cut_above b e) = {r_s b .. r_e b} \<inter> {e <..}"
  by (simp add: cut_above_def interval_above word_interval_succ)

lemma remove_list_set:
  assumes ok: "ranges_ok (A @ B @ C)" and se: "s \<le> e" and A: "\<forall>a \<in> set A. r_s a \<le> s"
    and B: "\<forall>b \<in> set B. s < r_s b \<and> r_s b \<le> e" and C: "\<forall>c \<in> set C. e < r_s c"
  shows "ranges_set (remove_list A B C s e) = (ranges_set (A @ B @ C) - {s .. e}) \<union>
    (if A \<noteq> [] \<and> B \<noteq> [] \<and> r_s (last A) < s then {r_s (last A) .. s - 1} else {})"
proof -
  have dC: "ranges_set C \<inter> {s .. e} = {}" using C by (fastforce simp: ranges_set_def)
  have low: "ranges_set X \<subseteq> {..< r_s x}" if "ranges_ok (X @ x # Y)" for X x Y
    using that by (fastforce simp: ranges_set_def ranges_ok_append gap_def)
  show ?thesis
  proof (cases A rule: rev_cases)
    case Nil
    show ?thesis
    proof (cases B rule: rev_cases)
      case Nil
      with \<open>A = []\<close> dC show ?thesis by (auto simp: remove_list_def)
    next
      case (snoc B' b)
      have "ranges_set B' \<subseteq> {s .. e}"
        using low [of B' b C] ok B snoc \<open>A = []\<close> by (fastforce simp: ranges_set_def)
      moreover have "s < r_s b" "r_s b \<le> e" using B snoc by auto
      ultimately show ?thesis
        using snoc \<open>A = []\<close> dC cut_above_set [of b e] by (fastforce simp: remove_list_def)
    qed
  next
    case (snoc A' a)
    have a: "r_s a \<le> s" "r_s a \<le> r_e a" using A ok snoc by (auto simp: ranges_ok_append ranges_ok_Cons)
    have dA: "ranges_set A' \<inter> {s .. e} = {}"
      using low [of A' a "B @ C"] ok snoc a by fastforce
    show ?thesis
    proof (cases B rule: rev_cases)
      case Nil
      have "{r_s a .. r_e a} - {s .. e} = ({r_s a .. r_e a} \<inter> {..< s}) \<union> ({r_s a .. r_e a} \<inter> {e <..})"
        using se by auto
      with Nil snoc dA dC a se show ?thesis
        by (simp add: remove_list_def cut_below_set cut_above_set) blast
    next
      case B': (snoc B' b)
      have "ranges_set B' \<subseteq> {s .. e}"
        using low [of "A @ B'" b C] ok B B' by (fastforce simp: ranges_set_def)
      moreover have b: "s < r_s b" "r_s b \<le> e" using B B' by auto
      moreover have "{r_s a .. r_e a} - {s .. e} = {r_s a .. r_e a} \<inter> {..< s}"
        using ok snoc B' b by (auto simp: ranges_ok_append ranges_ok_Cons gap_def)
      moreover have "{r_s b .. r_e b} - {s .. e} = {r_s b .. r_e b} \<inter> {e <..}"
        using b by auto
      ultimately show ?thesis
        using snoc B' dA dC a se
        by (simp add: remove_list_def cut_below_set cut_above_set) blast
    qed
  qed
qed

lemma cut_below_gap: "gap x a \<Longrightarrow> \<forall>y \<in> set (cut_below m a s). gap x y"
  by (simp add: cut_below_def)

lemma cut_below_member:
  "y \<in> set (cut_below m a s) \<longleftrightarrow>
     r_s a < s \<and> y = (if m \<or> s \<le> r_e a then a\<lparr>r_e := s - 1\<rparr> else a)"
  by (auto simp: cut_below_def)

lemma cut_below_end:
  assumes "s \<le> e" and "e < v" and "y \<in> set (cut_below m a s)"
  shows "r_e y < v \<and> r_e y + 1 \<noteq> v"
proof (cases "m \<or> s \<le> r_e a")
  case True
  then have y: "r_e y = s - 1" "r_s a < s" using assms(3) by (simp_all add: cut_below_member)
  have "s - 1 < v" using word_pred_lt [OF y(2)] assms(1,2) by order
  moreover have "s \<noteq> v" using assms(1,2) by order
  ultimately show ?thesis using y(1) by simp
next
  case False
  then have y: "y = a" "r_e a < s" using assms(3) by (auto simp: cut_below_member not_le)
  have "r_e a + 1 \<le> s" using y(2) by (rule word_succ_bound)
  then have "r_e a + 1 < v" using assms(1,2) by order
  moreover have "r_e a < v" using y(2) assms(1,2) by order
  ultimately show ?thesis using y(1) by auto
qed

lemma remove_list_ok:
  assumes ok: "ranges_ok (A @ B @ C)" and se: "s \<le> e" and A: "\<forall>a \<in> set A. r_s a \<le> s"
    and C: "\<forall>c \<in> set C. e < r_s c"
  shows "ranges_ok (remove_list A B C s e)"
proof -
  define H where "H = (if A @ B = [] then [] else cut_above (last (A @ B)) e)"
  define L where "L = (if A = [] then [] else butlast A @ cut_below (B \<noteq> []) (last A) s)"
  have H: "ranges_ok (H @ C)"
  proof (cases "A @ B" rule: rev_cases)
    case Nil
    then show ?thesis using ok by (simp add: H_def)
  next
    case (snoc X b)
    then have "ranges_ok (X @ b # C)" using ok by (metis append.assoc append_Cons append_Nil)
    then have "ranges_ok C" "\<forall>c \<in> set C. gap b c" by (auto simp: ranges_ok_append ranges_ok_Cons)
    with snoc show ?thesis using word_succ_bound [of e "r_e b"]
      by (simp add: H_def cut_above_def ranges_ok_Cons gap_def)
  qed
  have top: "\<forall>y \<in> set (H @ C). e < r_s y"
    using C by (auto simp: H_def cut_above_def intro: word_lt_succ split: if_splits)
  have L: "ranges_ok L \<and> (\<forall>x \<in> set L. \<forall>v > e. r_e x < v \<and> r_e x + 1 \<noteq> v)"
  proof (cases A rule: rev_cases)
    case Nil
    then show ?thesis by (simp add: L_def)
  next
    case (snoc A' a)
    then have okA: "ranges_ok A'" "\<forall>x \<in> set A'. gap x a" "r_s a \<le> r_e a" "r_s a \<le> s"
      using ok A by (auto simp: ranges_ok_append ranges_ok_Cons)
    have "ranges_ok (cut_below (B \<noteq> []) a s)"
      using okA word_pred_less [of "r_s a" s "r_s a"] by (simp add: cut_below_def ranges_ok_Cons)
    moreover have "r_e x < v \<and> r_e x + 1 \<noteq> v" if "x \<in> set A'" "e < v" for x v
      using okA that se by (intro gap_trans [of x a v]) auto
    moreover have "r_e x < v \<and> r_e x + 1 \<noteq> v" if "x \<in> set (cut_below (B \<noteq> []) a s)" "e < v" for x v
      using cut_below_end [OF se that(2,1)] .
    moreover have L': "L = A' @ cut_below (B \<noteq> []) a s" using snoc by (simp add: L_def)
    ultimately show ?thesis
      using okA(1,2) cut_below_gap [of _ a "B \<noteq> []" s]
      unfolding L' ranges_ok_append set_append by blast
  qed
  have "\<forall>x \<in> set L. \<forall>y \<in> set (H @ C). gap x y" using top L by (simp add: gap_def)
  then have "ranges_ok (L @ (H @ C))" using H L unfolding ranges_ok_append [of L] by blast
  then show ?thesis by (simp add: remove_list_def H_def L_def)
qed


lemma rangeset_add_range_correct:
  assumes "rs_ok r" and "s \<le> e"
  shows "\<exists>r'. rangeset_add_range True r s e = Some (0, r') \<and> rs_ok r' \<and> rs_set r' = rs_set r \<union> {s .. e}"
proof -
  obtain A B C where p: "parts r A B C s e" using parts_exist [OF assms] by blast
  show ?thesis
    using add_range_list [OF p] add_list_ok [OF p] by (simp add: rs_ok_def rs_set_def)
qed

lemma rangeset_add_range_nomem:
  assumes "rs_ok r" and "s \<le> e"
  shows "\<exists>rc r'. rangeset_add_range False r s e = Some (rc, r') \<and>
    ((rc = - ENOMEM \<and> r' = r) \<or> rangeset_add_range True r s e = Some (rc, r'))"
proof -
  obtain r' where "rangeset_add_range True r s e = Some (0, r')"
    using rangeset_add_range_correct [OF assms] by blast
  then show ?thesis
    using assms(2) by (auto simp: rangeset_add_range_def Let_def split: if_splits)
qed

lemma in_ranges_set: "v \<in> ranges_set l \<longleftrightarrow> (\<exists>x \<in> set l. r_s x \<le> v \<and> v \<le> r_e x)"
  by (auto simp: ranges_set_def)

lemma ranges_set_last:
  assumes "ranges_ok (A @ a # C)" and "r_s a \<le> v" and "\<forall>c \<in> set C. v < r_s c"
  shows "v \<in> ranges_set (A @ a # C) \<longleftrightarrow> v \<le> r_e a"
proof -
  have "r_e x < v" if "x \<in> set A" for x
    using assms(1,2) that by (auto simp: ranges_ok_append gap_def)
  then show ?thesis using assms(2,3) by (fastforce simp: in_ranges_set)
qed

lemma rangeset_contains_range_correct:
  assumes "rs_ok r" and "s \<le> e"
  shows "rangeset_contains_range r s e = Some ({s .. e} \<subseteq> rs_set r)"
proof -
  obtain A C where l: "range_list r = A @ C" and A: "\<forall>a \<in> set A. r_s a \<le> s" and C: "\<forall>c \<in> set C. s < r_s c"
    using assms(1) ranges_split [of "range_list r" s] unfolding rs_ok_def by blast
  have f: "find_range r s = (if A = [] then None else Some (length A - 1))"
    using l A C by (rule find_range_append)
  show ?thesis
  proof (cases A rule: rev_cases)
    case Nil
    then have "s \<notin> rs_set r" using C l by (auto simp: rs_set_def in_ranges_set)
    with Nil f assms(2) show ?thesis by (auto simp: rangeset_contains_range_def)
  next
    case (snoc A' a)
    have ok: "ranges_ok (A' @ a # C)" using assms(1) l snoc by (simp add: rs_ok_def)
    have a: "r_s a \<le> s" using A snoc by simp
    have "{s .. e} \<subseteq> rs_set r \<longleftrightarrow> e \<le> r_e a"
    proof
      assume "e \<le> r_e a"
      then show "{s .. e} \<subseteq> rs_set r" using a l snoc by (auto simp: rs_set_def)
    next
      assume sub: "{s .. e} \<subseteq> rs_set r"
      have set: "rs_set r = ranges_set (A' @ a # C)" using l snoc by (simp add: rs_set_def)
      have "s \<in> rs_set r" using sub assms(2) by auto
      then have s: "s \<le> r_e a" using ranges_set_last [OF ok a C] set by simp
      show "e \<le> r_e a"
      proof (rule ccontr)
        assume "\<not> e \<le> r_e a"
        then have lt: "r_e a < e" by simp
        then have b: "r_e a + 1 \<le> e" "r_e a < r_e a + 1" by (rule word_succ_bound, rule word_lt_succ)
        have "r_e a + 1 < r_s c" if "c \<in> set C" for c
        proof -
          have g: "r_e a < r_s c" "r_e a + 1 \<noteq> r_s c"
            using ok that by (auto simp: ranges_ok_append ranges_ok_Cons gap_def)
          then show ?thesis using word_succ_bound [OF g(1)] by simp
        qed
        moreover have "r_s a \<le> r_e a + 1" using a s b(2) by order
        ultimately have "r_e a + 1 \<notin> rs_set r"
          using ranges_set_last [OF ok, of "r_e a + 1"] b(2) set by (simp add: not_le)
        moreover have "r_e a + 1 \<in> {s .. e}" using s b by auto
        ultimately show False using sub by blast
      qed
    qed
    with f l snoc assms(2) show ?thesis by (simp add: rangeset_contains_range_def)
  qed
qed

lemma rangeset_overlaps_range_correct:
  assumes "rs_ok r" and "s \<le> e"
  shows "rangeset_overlaps_range r s e = Some ({s .. e} \<inter> rs_set r \<noteq> {})"
proof -
  obtain A C where l: "range_list r = A @ C" and A: "\<forall>a \<in> set A. r_s a \<le> e" and C: "\<forall>c \<in> set C. e < r_s c"
    using assms(1) ranges_split [of "range_list r" e] unfolding rs_ok_def by blast
  have f: "find_range r e = (if A = [] then None else Some (length A - 1))"
    using l A C by (rule find_range_append)
  show ?thesis
  proof (cases A rule: rev_cases)
    case Nil
    then have "{s .. e} \<inter> rs_set r = {}" using C l by (fastforce simp: rs_set_def in_ranges_set)
    with Nil f assms(2) show ?thesis by (simp add: rangeset_overlaps_range_def)
  next
    case (snoc A' a)
    have ok: "ranges_ok (A' @ a # C)" using assms(1) l snoc by (simp add: rs_ok_def)
    have a: "r_s a \<le> e" using A snoc by simp
    have low: "r_e x \<le> r_e a" if "x \<in> set A" for x
      using ok that snoc by (fastforce simp: ranges_ok_append ranges_ok_Cons gap_def)
    have "{s .. e} \<inter> rs_set r \<noteq> {} \<longleftrightarrow> s \<le> r_e a"
    proof
      assume "{s .. e} \<inter> rs_set r \<noteq> {}"
      then obtain v x where "s \<le> v" "v \<le> e" "x \<in> set (A @ C)" "r_s x \<le> v" "v \<le> r_e x"
        using l unfolding rs_set_def by (fastforce simp: in_ranges_set simp del: ranges_set_simps)
      moreover from this C have "x \<in> set A" by fastforce
      ultimately show "s \<le> r_e a" using low [of x] by auto
    next
      assume "s \<le> r_e a"
      moreover have "r_s a \<le> r_e a" using ok by (simp add: ranges_ok_append ranges_ok_Cons)
      moreover have "a \<in> set (range_list r)" using l snoc by simp
      ultimately have "max s (r_s a) \<in> {s .. e} \<inter> rs_set r"
        using a assms(2) by (auto simp: rs_set_def in_ranges_set max_def not_le intro: bexI [of _ a])
      then show "{s .. e} \<inter> rs_set r \<noteq> {}" by blast
    qed
    with f l snoc assms(2) show ?thesis by (simp add: rangeset_overlaps_range_def)
  qed
qed

text \<open>
  When a removal is exact: one range holds both ends, or nothing lies between the range
  below \<open>s\<close> and \<open>s\<close>, and \<open>e\<close> is not the largest number.
\<close>

definition remove_exact :: "rangeset \<Rightarrow> ulong \<Rightarrow> ulong \<Rightarrow> bool" where
  "remove_exact r s e \<longleftrightarrow>
     find_range r s = find_range r e \<or>
     e \<noteq> - 1 \<and> (case find_range r s of
        None \<Rightarrow> True
      | Some x \<Rightarrow> \<not> (range_e r x < s \<and> range_e r x + 1 \<noteq> s))"

lemma remove_exact_below:
  assumes p: "parts r A B C s e" and ex: "remove_exact r s e"
    and ne: "A \<noteq> []" "B \<noteq> []" "r_s (last A) < s"
  shows "{r_s (last A) .. s - 1} \<subseteq> rs_set r - {s .. e}"
proof -
  have "range_list r ! (length A - 1) = last A"
    using p ne(1) by (simp add: parts_def last_conv_nth nth_append)
  then have "\<not> (r_e (last A) < s \<and> r_e (last A) + 1 \<noteq> s)"
    using ex ne find_range_parts [OF p] by (auto simp: remove_exact_def)
  then have "s - 1 \<le> r_e (last A)"
    using word_pred_less [OF ne(3), of "r_e (last A)"] by auto
  moreover have "v \<le> s - 1 \<longleftrightarrow> v < s" for v by (rule word_pred_less [OF ne(3)])
  moreover have "last A \<in> set (range_list r)" using p ne(1) by (simp add: parts_def)
  ultimately show ?thesis by (fastforce simp: rs_set_def in_ranges_set)
qed

lemma rangeset_remove_range_correct:
  assumes "rs_ok r" and se: "s \<le> e" and ex: "remove_exact r s e"
  shows "\<exists>r'. rangeset_remove_range True r s e = Some (0, r') \<and> rs_ok r' \<and> rs_set r' = rs_set r - {s .. e}"
proof -
  obtain A B C where p: "parts r A B C s e" using parts_exist [OF assms(1,2)] by blast
  then have ok: "ranges_ok (A @ B @ C)" and A: "\<forall>a \<in> set A. r_s a \<le> s"
    and B: "\<forall>b \<in> set B. s < r_s b \<and> r_s b \<le> e" and C: "\<forall>c \<in> set C. e < r_s c"
    and l: "range_list r = A @ B @ C"
    by (simp_all add: parts_def)
  have "e \<noteq> - 1 \<or> B = []" using ex find_range_parts(3) [OF p] by (auto simp: remove_exact_def)
  moreover have "ranges_set (remove_list A B C s e) = rs_set r - {s .. e}"
    using remove_list_set [OF ok se A B C] remove_exact_below [OF p ex] l by (auto simp: rs_set_def)
  ultimately show ?thesis
    using remove_range_list [OF p] remove_list_ok [OF ok se A C] by (simp add: rs_ok_def rs_set_def)
qed

lemma rangeset_remove_range_nomem:
  assumes "rs_ok r" and "s \<le> e" and "remove_exact r s e"
  shows "\<exists>rc r'. rangeset_remove_range False r s e = Some (rc, r') \<and>
    ((rc = - ENOMEM \<and> r' = r) \<or> rangeset_remove_range True r s e = Some (rc, r'))"
proof -
  obtain r' where "rangeset_remove_range True r s e = Some (0, r')"
    using rangeset_remove_range_correct [OF assms] by blast
  then show ?thesis
    using assms(2) by (auto simp: rangeset_remove_range_def Let_def split: if_splits option.splits)
qed


section \<open>Reporting\<close>

definition clip :: "ulong \<Rightarrow> ulong \<Rightarrow> range \<Rightarrow> ulong \<times> ulong" where
  "clip s e x = (max (r_s x) s, min (r_e x) e)"

definition log_range :: "ulong \<Rightarrow> ulong \<Rightarrow> (ulong \<times> ulong) list \<Rightarrow> int \<times> (ulong \<times> ulong) list" where
  "log_range s e log = (0, log @ [(s, e)])"

lemma report_loop_log:
  assumes "ranges_ok l"
  shows "report_loop log_range l s e 0 log
    = (0, log @ map (clip s e) (filter (\<lambda>x. r_s x \<le> e \<and> s \<le> r_e x) l))"
  using assms
proof (induction l arbitrary: log)
  case Nil
  then show ?case by simp
next
  case (Cons x l)
  have ok: "ranges_ok l" using Cons.prems by (simp add: ranges_ok_Cons)
  show ?case
  proof (cases "r_s x \<le> e")
    case True
    with Cons.IH [OF ok] show ?thesis by (simp add: log_range_def clip_def)
  next
    case False
    have "e < r_s y" if "y \<in> set l" for y
      using ranges_ok_lower [OF Cons.prems that] False by simp
    then have "filter (\<lambda>x. r_s x \<le> e \<and> s \<le> r_e x) l = []"
      by (force simp: filter_empty_conv)
    with False show ?thesis by simp
  qed
qed

lemma rangeset_report_ranges_log:
  assumes "rs_ok r" and "find_range r s \<noteq> None"
  shows "rangeset_report_ranges r s e log_range []
    = (0, map (clip s e) (filter (\<lambda>x. r_s x \<le> e \<and> s \<le> r_e x) (range_list r)))"
proof -
  obtain A C where l: "range_list r = A @ C" and A: "\<forall>a \<in> set A. r_s a \<le> s" and C: "\<forall>c \<in> set C. s < r_s c"
    using assms(1) ranges_split [of "range_list r" s] unfolding rs_ok_def by blast
  have f: "find_range r s = (if A = [] then None else Some (length A - 1))"
    using l A C by (rule find_range_append)
  then obtain A' a where a: "A = A' @ [a]" using assms(2) by (cases A rule: rev_cases) auto
  have ok: "ranges_ok (A' @ a # C)" using assms(1) l a by (simp add: rs_ok_def)
  have "r_e x < s" if "x \<in> set A'" for x
    using ok that A a by (auto simp: ranges_ok_append gap_def)
  then have "filter (\<lambda>x. r_s x \<le> e \<and> s \<le> r_e x) A' = []" by (force simp: filter_empty_conv)
  moreover have "drop (length A') (range_list r) = a # C" using l a by simp
  moreover have "ranges_ok (a # C)" using ok by (simp add: ranges_ok_append)
  ultimately show ?thesis
    using f l a by (simp add: rangeset_report_ranges_def report_loop_log del: report_loop.simps)
qed

lemma clip_union:
  "(\<Union>(a, b) \<in> set (map (clip s e) (filter (\<lambda>x. r_s x \<le> e \<and> s \<le> r_e x) l)). {a .. b})
    = ranges_set l \<inter> {s .. e}"
  by (fastforce simp: in_ranges_set clip_def)

section \<open>The rangesets of the domains\<close>

definition store_ok :: "rs_store \<Rightarrow> bool" where
  "store_ok st \<longleftrightarrow>
     (\<forall>d. distinct (rangesets st d) \<and>
        (\<forall>a. a \<in> set (rangesets st d) \<longleftrightarrow> (\<exists>rs. rs_heap st a = Some rs \<and> rs_domain rs = Some d)))"

lemma rangeset_new_ok:
  assumes "store_ok st" and "rs_heap st a = None"
    and "rangeset_new (Some a) st d nm flags = Some (r, st')"
  shows "store_ok st' \<and> r = Some a \<and> (\<exists>rs. rs_heap st' a = Some rs \<and> rs_set rs = {} \<and> rs_ok rs)"
  using assms by (auto simp: rangeset_new_def store_ok_def Let_def rs_set_def rs_ok_def
      split: option.splits if_splits)

lemma rangeset_destroy_ok:
  assumes "store_ok st" and "rs_heap st a = Some rs"
  shows "\<exists>st'. rangeset_destroy st (Some a) = Some st' \<and> store_ok st' \<and>
    rs_heap st' = (rs_heap st)(a := None)"
  using assms
  by (auto simp: rangeset_destroy_def store_ok_def Let_def split: option.splits)

lemma destroy_all_ok:
  assumes "distinct as" and "\<forall>a \<in> set as. \<exists>rs. rs_heap st a = Some rs \<and> rs_domain rs = Some d"
    and "rangesets st d = as"
  shows "destroy_all as st d =
    Some (st\<lparr>rs_heap := (rs_heap st) |` (- set as), rangesets := (rangesets st)(d := [])\<rparr>)"
  using assms
proof (induction as arbitrary: st)
  case Nil
  then show ?case by (cases st) auto
next
  case (Cons a as)
  then obtain rs where rs: "rs_heap st a = Some rs" "rs_domain rs = Some d" by auto
  let ?st = "st\<lparr>rs_heap := (rs_heap st)(a := None), rangesets := (rangesets st)(d := as)\<rparr>"
  have "rangeset_destroy (st\<lparr>rs_heap := (rs_heap st)(a \<mapsto> rs\<lparr>rs_domain := None\<rparr>),
      rangesets := (rangesets st)(d := as)\<rparr>) (Some a) = Some ?st"
    by (simp add: rangeset_destroy_def)
  moreover have "destroy_all as ?st d =
      Some (?st\<lparr>rs_heap := (rs_heap ?st) |` (- set as), rangesets := (rangesets ?st)(d := [])\<rparr>)"
    using Cons.prems by (intro Cons.IH) auto
  moreover have "(rs_heap st)(a := None) |` (- set as) = rs_heap st |` (- insert a (set as))"
    by (auto simp: restrict_map_def)
  ultimately show ?case using rs by (simp, simp add: fun_upd_def)
qed

lemma rangeset_domain_destroy_frees:
  assumes "store_ok st"
  shows "\<exists>st'. rangeset_domain_destroy st d = Some st' \<and> store_ok st' \<and> rangesets st' d = [] \<and>
    (\<forall>a. rs_heap st' a =
       (case rs_heap st a of Some rs \<Rightarrow> if rs_domain rs = Some d then None else Some rs | None \<Rightarrow> None))"
proof -
  let ?st = "st\<lparr>rs_heap := (rs_heap st) |` (- set (rangesets st d)), rangesets := (rangesets st)(d := [])\<rparr>"
  have "rangeset_domain_destroy st d = Some ?st"
    unfolding rangeset_domain_destroy_def using assms
    by (intro destroy_all_ok) (auto simp: store_ok_def)
  moreover have "store_ok ?st"
    using assms by (fastforce simp: store_ok_def restrict_map_def)
  moreover have "rs_heap ?st a =
      (case rs_heap st a of Some rs \<Rightarrow> if rs_domain rs = Some d then None else Some rs | None \<Rightarrow> None)" for a
    using assms by (auto simp: store_ok_def restrict_map_def split: option.splits)
  ultimately show ?thesis by auto
qed


section \<open>Properties\<close>

text \<open>A set with two ranges, and an empty store with one domain's set, for the instances below.\<close>

definition two_ranges :: "ulong \<Rightarrow> ulong \<Rightarrow> ulong \<Rightarrow> ulong \<Rightarrow> rangeset" where
  "two_ranges a b c d = \<lparr>range_list = [\<lparr>r_s = a, r_e = b\<rparr>, \<lparr>r_s = c, r_e = d\<rparr>],
     rs_domain = None, rs_name = [], rs_flags = 0\<rparr>"

lemmas rs_eval = two_ranges_def rs_ok_def rs_set_def ranges_ok_def gap_def find_range_def
  first_range_def next_range_def set_e_def set_s_def destroy_range_def insert_range_def
  merge_next_def destroy_until.simps cut_start_def

text \<open>
  C33: \<^verbatim>\<open>rangeset_add_range\<close> computes the union. On a well-formed set and \<open>s \<le> e\<close> it returns,
  keeps the set well-formed, and either adds exactly the numbers from \<open>s\<close> to \<open>e\<close> (code 0)
  or, only when \<^verbatim>\<open>xmalloc\<close> failed, returns \<^verbatim>\<open>-ENOMEM\<close> with the set unchanged.
\<close>
theorem rangeset_add_range_union:
  assumes "rs_ok r" and "s \<le> e"
  shows "\<exists>rc r'. rangeset_add_range m r s e = Some (rc, r') \<and> rs_ok r' \<and>
    (rc = 0 \<and> rs_set r' = rs_set r \<union> {s .. e} \<or> rc = - ENOMEM \<and> \<not> m \<and> r' = r)"
proof (cases m)
  case True
  then show ?thesis using rangeset_add_range_correct [OF assms] by auto
next
  case False
  then show ?thesis
    using rangeset_add_range_correct [OF assms] rangeset_add_range_nomem [OF assms] assms(1) by fastforce
qed

theorem rangeset_add_range_union_witness:
  "rs_ok (two_ranges 0 1 8 9) \<and> (2::ulong) \<le> 5 \<and>
   (\<exists>rc r'. rangeset_add_range True (two_ranges 0 1 8 9) 2 5 = Some (rc, r') \<and> rs_ok r' \<and>
     (rc = 0 \<and> rs_set r' = rs_set (two_ranges 0 1 8 9) \<union> {2 .. 5} \<or>
      rc = - ENOMEM \<and> \<not> True \<and> r' = two_ranges 0 1 8 9))"
proof -
  have h: "rs_ok (two_ranges 0 1 8 9)" by (simp add: rs_eval)
  moreover have "(2::ulong) \<le> 5" by simp
  ultimately show ?thesis using rangeset_add_range_union [of "two_ranges 0 1 8 9" 2 5 True] by blast
qed

text \<open>
  C34: \<^verbatim>\<open>rangeset_remove_range\<close> computes the difference where the removal is exact: one range
  holds or precedes both ends, or the range below \<open>s\<close> reaches up to \<open>s - 1\<close> and \<open>e\<close> is not the
  largest \<^verbatim>\<open>unsigned long\<close>. It returns, keeps the set well-formed, and removes exactly the numbers
  from \<open>s\<close> to \<open>e\<close>, or returns \<^verbatim>\<open>-ENOMEM\<close> (only when \<^verbatim>\<open>xmalloc\<close> failed) with the set unchanged.
\<close>
theorem rangeset_remove_range_minus:
  assumes "rs_ok r" and "s \<le> e" and "remove_exact r s e"
  shows "\<exists>rc r'. rangeset_remove_range m r s e = Some (rc, r') \<and> rs_ok r' \<and>
    (rc = 0 \<and> rs_set r' = rs_set r - {s .. e} \<or> rc = - ENOMEM \<and> \<not> m \<and> r' = r)"
proof (cases m)
  case True
  then show ?thesis using rangeset_remove_range_correct [OF assms] by auto
next
  case False
  then show ?thesis
    using rangeset_remove_range_correct [OF assms] rangeset_remove_range_nomem [OF assms] assms(1)
    by fastforce
qed

theorem rangeset_remove_range_minus_witness:
  "rs_ok (two_ranges 0 3 8 9) \<and> (2::ulong) \<le> 8 \<and> remove_exact (two_ranges 0 3 8 9) 2 8 \<and>
   (\<exists>rc r'. rangeset_remove_range True (two_ranges 0 3 8 9) 2 8 = Some (rc, r') \<and> rs_ok r' \<and>
     (rc = 0 \<and> rs_set r' = rs_set (two_ranges 0 3 8 9) - {2 .. 8} \<or>
      rc = - ENOMEM \<and> \<not> True \<and> r' = two_ranges 0 3 8 9))"
proof -
  have "rs_ok (two_ranges 0 3 8 9)" by (simp add: rs_eval)
  moreover have "(2::ulong) \<le> 8" by simp
  moreover have "remove_exact (two_ranges 0 3 8 9) 2 8" by (simp add: remove_exact_def rs_eval)
  ultimately show ?thesis using rangeset_remove_range_minus [of "two_ranges 0 3 8 9" 2 8 True] by blast
qed



text \<open>
  C37: The queries decide inclusion and overlap: on a well-formed set and \<open>s \<le> e\<close>,
  \<^verbatim>\<open>rangeset_contains_range\<close> tells whether every number from \<open>s\<close> to \<open>e\<close> is in the set, and
  \<^verbatim>\<open>rangeset_overlaps_range\<close> whether some number is.
\<close>
theorem rangeset_queries_decide:
  assumes "rs_ok r" and "s \<le> e"
  shows "rangeset_contains_range r s e = Some ({s .. e} \<subseteq> rs_set r) \<and>
    rangeset_overlaps_range r s e = Some ({s .. e} \<inter> rs_set r \<noteq> {})"
  using rangeset_contains_range_correct [OF assms] rangeset_overlaps_range_correct [OF assms] by simp

theorem rangeset_queries_decide_witness:
  "rs_ok (two_ranges 0 3 8 9) \<and> (2::ulong) \<le> 3 \<and>
   rangeset_contains_range (two_ranges 0 3 8 9) 2 3 = Some ({2 .. 3} \<subseteq> rs_set (two_ranges 0 3 8 9)) \<and>
   rangeset_overlaps_range (two_ranges 0 3 8 9) 2 3 = Some ({2 .. 3} \<inter> rs_set (two_ranges 0 3 8 9) \<noteq> {})"
proof -
  have "rs_ok (two_ranges 0 3 8 9)" by (simp add: rs_eval)
  moreover have "(2::ulong) \<le> 3" by simp
  ultimately show ?thesis using rangeset_queries_decide [of "two_ranges 0 3 8 9" 2 3] by blast
qed

text \<open>
  C38: \<^verbatim>\<open>rangeset_report_ranges\<close> reports the intersection when some range starts at or below
  \<open>s\<close>: a callback that logs its arguments and returns 0 is called once for every range that
  meets \<open>[s, e]\<close>, in ascending order, with the range clipped to \<open>[s, e]\<close>, so the reported parts
  are together the numbers of the set between \<open>s\<close> and \<open>e\<close>.
\<close>
theorem rangeset_report_ranges_exact:
  assumes "rs_ok r" and "find_range r s \<noteq> None"
  shows "\<exists>log. rangeset_report_ranges r s e log_range [] = (0, log) \<and>
    log = map (clip s e) (filter (\<lambda>x. r_s x \<le> e \<and> s \<le> r_e x) (range_list r)) \<and>
    (\<Union>(a, b) \<in> set log. {a .. b}) = rs_set r \<inter> {s .. e}"
  using rangeset_report_ranges_log [OF assms] clip_union [of s e "range_list r"]
  by (simp add: rs_set_def)

theorem rangeset_report_ranges_exact_witness:
  "rs_ok (two_ranges 0 3 8 9) \<and> find_range (two_ranges 0 3 8 9) 2 \<noteq> None \<and>
   (\<exists>log. rangeset_report_ranges (two_ranges 0 3 8 9) 2 8 log_range [] = (0, log) \<and>
     log = map (clip 2 8) (filter (\<lambda>x. r_s x \<le> 8 \<and> 2 \<le> r_e x) (range_list (two_ranges 0 3 8 9))) \<and>
     (\<Union>(a, b) \<in> set log. {a .. b}) = rs_set (two_ranges 0 3 8 9) \<inter> {2 .. 8})"
proof -
  have "rs_ok (two_ranges 0 3 8 9)" by (simp add: rs_eval)
  moreover have "find_range (two_ranges 0 3 8 9) 2 \<noteq> None" by (simp add: rs_eval)
  ultimately show ?thesis using rangeset_report_ranges_exact [of "two_ranges 0 3 8 9" 2 8] by blast
qed


text \<open>
  \<^verbatim>\<open>rangeset_domain_destroy\<close> frees exactly the rangesets of the dying domain. In a store
  whose per-domain lists agree with the owners recorded in the sets, it runs without hitting its
  \<^verbatim>\<open>BUG_ON\<close>, keeps that agreement, empties the domain's list, frees every set the domain owns
  and leaves every other set as it is.
\<close>
theorem rangeset_domain_destroy_exact:
  assumes "store_ok st"
  shows "\<exists>st'. rangeset_domain_destroy st d = Some st' \<and> store_ok st' \<and> rangesets st' d = [] \<and>
    (\<forall>a. rs_heap st' a =
       (case rs_heap st a of Some rs \<Rightarrow> if rs_domain rs = Some d then None else Some rs | None \<Rightarrow> None))"
  by (rule rangeset_domain_destroy_frees [OF assms])

theorem rangeset_domain_destroy_exact_witness:
  "store_ok \<lparr>rs_heap = [5 \<mapsto> (two_ranges 0 1 4 5)\<lparr>rs_domain := Some 2\<rparr>], rangesets = (\<lambda>_. [])(2 := [5])\<rparr> \<and>
   (\<exists>st'. rangeset_domain_destroy
      \<lparr>rs_heap = [5 \<mapsto> (two_ranges 0 1 4 5)\<lparr>rs_domain := Some 2\<rparr>], rangesets = (\<lambda>_. [])(2 := [5])\<rparr> 2
      = Some st' \<and> store_ok st' \<and> rangesets st' 2 = [] \<and> rs_heap st' 5 = None)"
proof -
  let ?st = "\<lparr>rs_heap = [5 \<mapsto> (two_ranges 0 1 4 5)\<lparr>rs_domain := Some 2\<rparr>], rangesets = (\<lambda>_. [])(2 := [5])\<rparr>"
  have "store_ok ?st" by (auto simp: store_ok_def)
  then show ?thesis using rangeset_domain_destroy_exact [of ?st 2] by auto
qed

end
