(* ===== verification/Iocap.thy ===== *)
theory Iocap
  imports Rangeset_Correct
begin

text \<open>
  The per-domain I/O capabilities of \<^verbatim>\<open>xen/include/xen/iocap.h\<close>: the client of the
  rangesets. What it relies on is stated as the locale \<open>range_caps\<close>; its laws are
  discharged for the model of \<^verbatim>\<open>rangeset.c\<close> by an interpretation, and the access-control
  lemmas are proved once from the laws.
\<close>

section \<open>The interface\<close>

locale range_caps =
  fixes add :: "bool \<Rightarrow> 's \<Rightarrow> ulong \<Rightarrow> ulong \<Rightarrow> (int \<times> 's) option"
    and holds :: "'s \<Rightarrow> ulong \<Rightarrow> ulong \<Rightarrow> bool option"
    and invar :: "'s \<Rightarrow> bool"
    and denotes :: "'s \<Rightarrow> ulong set"
  assumes add_returns: "invar r \<Longrightarrow> s \<le> e \<Longrightarrow> \<exists>rc r'. add m r s e = Some (rc, r')"
    and add_done: "invar r \<Longrightarrow> s \<le> e \<Longrightarrow> add m r s e = Some (0, r') \<Longrightarrow>
      invar r' \<and> denotes r' = denotes r \<union> {s .. e}"
    and add_failed: "invar r \<Longrightarrow> s \<le> e \<Longrightarrow> add m r s e = Some (rc, r') \<Longrightarrow> rc \<noteq> 0 \<Longrightarrow> r' = r"
    and holds_spec: "invar r \<Longrightarrow> s \<le> e \<Longrightarrow> holds r s e = Some ({s .. e} \<subseteq> denotes r)"
begin

lemma add_invar:
  assumes "invar r" and "s \<le> e" and "add m r s e = Some (rc, r')"
  shows "invar r'"
  using assms add_done add_failed by (cases "rc = 0") blast+

lemma added_holds:
  assumes "invar r" and "s \<le> e" and "add m r s e = Some (0, r')"
    and "s \<le> a" and "a \<le> b" and "b \<le> e"
  shows "holds r' a b = Some True"
  using add_done [OF assms(1-3)] holds_spec [of r' a b] assms(4-6) by auto

lemma kept_holds:
  assumes "invar r" and "s \<le> e" and "add m r s e = Some (rc, r')"
    and "a \<le> b" and "holds r a b = Some True"
  shows "holds r' a b = Some True"
proof (cases "rc = 0")
  case True
  then show ?thesis
    using assms add_done [of r s e m r'] holds_spec [of r a b] holds_spec [of r' a b] by auto
next
  case False
  then show ?thesis using assms add_failed by blast
qed

lemma not_added_holds:
  assumes "invar r" and "s \<le> e" and "add m r s e = Some (rc, r')"
    and "a \<le> b" and "b < s \<or> e < a" and "holds r' a b = Some True"
  shows "holds r a b = Some True"
proof (cases "rc = 0")
  case True
  have "{a .. b} \<inter> {s .. e} = {}" using assms(5) by auto
  then have "{a .. b} \<subseteq> denotes r \<union> {s .. e} \<longleftrightarrow> {a .. b} \<subseteq> denotes r" by blast
  then show ?thesis
    using True assms(1-4,6) add_done [of r s e m r'] holds_spec [of r a b] holds_spec [of r' a b] by simp
next
  case False
  then show ?thesis using assms add_failed by blast
qed

end

locale range_caps_remove = range_caps +
  fixes remove :: "bool \<Rightarrow> 's \<Rightarrow> ulong \<Rightarrow> ulong \<Rightarrow> (int \<times> 's) option"
    and exact :: "'s \<Rightarrow> ulong \<Rightarrow> ulong \<Rightarrow> bool"
  assumes remove_done: "invar r \<Longrightarrow> s \<le> e \<Longrightarrow> exact r s e \<Longrightarrow> remove m r s e = Some (0, r') \<Longrightarrow>
      invar r' \<and> denotes r' = denotes r - {s .. e}"
begin

lemma removed_not_held:
  assumes "invar r" and "s \<le> e" and "exact r s e" and "remove m r s e = Some (0, r')"
    and "a \<le> b" and "a \<le> e" and "s \<le> b"
  shows "holds r' a b = Some False"
proof -
  have "invar r'" and "denotes r' = denotes r - {s .. e}" using remove_done [OF assms(1-4)] by auto
  moreover have "max a s \<in> {a .. b} \<inter> {s .. e}" using assms(2,5-7) by (auto simp: max_def)
  ultimately have "\<not> {a .. b} \<subseteq> denotes r'" by blast
  then show ?thesis using holds_spec [OF \<open>invar r'\<close> assms(5)] by simp
qed

lemma not_removed_holds:
  assumes "invar r" and "s \<le> e" and "exact r s e" and "remove m r s e = Some (0, r')"
    and "a \<le> b" and "b < s \<or> e < a" 
  shows "holds r' a b = holds r a b"
proof -
  have "{a .. b} \<inter> {s .. e} = {}" using assms(6) by auto
  then show ?thesis
    using remove_done [OF assms(1-4)] holds_spec [of r a b] holds_spec [of r' a b] assms(1,5) by auto
qed

end

section \<open>The rangesets provide it\<close>

interpretation rs_caps: range_caps_remove
  rangeset_add_range rangeset_contains_range rs_ok rs_set rangeset_remove_range remove_exact
proof unfold_locales
  fix r :: rangeset and s e :: ulong and m
  assume r: "rs_ok r" "s \<le> e"
  obtain r0 where t: "rangeset_add_range True r s e = Some (0, r0)" "rs_ok r0" "rs_set r0 = rs_set r \<union> {s .. e}"
    using rangeset_add_range_correct [OF r] by blast
  obtain rc1 r1 where f: "rangeset_add_range False r s e = Some (rc1, r1)"
      "rc1 = - ENOMEM \<and> r1 = r \<or> rc1 = 0 \<and> r1 = r0"
    using rangeset_add_range_nomem [OF r] t(1) by auto
  show "\<exists>rc r'. rangeset_add_range m r s e = Some (rc, r')" using t(1) f(1) by (cases m) auto
  show "rs_ok r' \<and> rs_set r' = rs_set r \<union> {s .. e}"
    if "rangeset_add_range m r s e = Some (0, r')" for r' using that t f by (cases m) auto
  show "r' = r" if "rangeset_add_range m r s e = Some (rc, r')" "rc \<noteq> 0" for rc r'
    using that t f by (cases m) auto
  show "rangeset_contains_range r s e = Some ({s .. e} \<subseteq> rs_set r)"
    by (rule rangeset_contains_range_correct [OF r])
  show "rs_ok r' \<and> rs_set r' = rs_set r - {s .. e}"
    if "remove_exact r s e" "rangeset_remove_range m r s e = Some (0, r')" for r'
    using rangeset_remove_range_correct [OF r that(1)] rangeset_remove_range_nomem [OF r that(1)] that(2)
    by (cases m) auto
qed

section \<open>The capabilities of a domain\<close>

record iocaps =
  iomem_caps :: rangeset
  irq_caps :: rangeset

definition iomem_permit_access :: "bool \<Rightarrow> iocaps \<Rightarrow> ulong \<Rightarrow> ulong \<Rightarrow> (int \<times> iocaps) option" where
  "iomem_permit_access m d s e = do {
     (rc, r) \<leftarrow> rangeset_add_range m (iomem_caps d) s e;
     Some (rc, d\<lparr>iomem_caps := r\<rparr>)
   }"

definition iomem_deny_access :: "bool \<Rightarrow> iocaps \<Rightarrow> ulong \<Rightarrow> ulong \<Rightarrow> (int \<times> iocaps) option" where
  "iomem_deny_access m d s e = do {
     (rc, r) \<leftarrow> rangeset_remove_range m (iomem_caps d) s e;
     Some (rc, d\<lparr>iomem_caps := r\<rparr>)
   }"

definition iomem_access_permitted :: "iocaps \<Rightarrow> ulong \<Rightarrow> ulong \<Rightarrow> bool option" where
  "iomem_access_permitted d s e = rangeset_contains_range (iomem_caps d) s e"

definition irq_permit_access :: "bool \<Rightarrow> iocaps \<Rightarrow> ulong \<Rightarrow> (int \<times> iocaps) option" where
  "irq_permit_access m d i = do {
     (rc, r) \<leftarrow> rangeset_add_singleton m (irq_caps d) i;
     Some (rc, d\<lparr>irq_caps := r\<rparr>)
   }"

definition irq_deny_access :: "bool \<Rightarrow> iocaps \<Rightarrow> ulong \<Rightarrow> (int \<times> iocaps) option" where
  "irq_deny_access m d i = do {
     (rc, r) \<leftarrow> rangeset_remove_singleton m (irq_caps d) i;
     Some (rc, d\<lparr>irq_caps := r\<rparr>)
   }"

definition irqs_permit_access :: "bool \<Rightarrow> iocaps \<Rightarrow> ulong \<Rightarrow> ulong \<Rightarrow> (int \<times> iocaps) option" where
  "irqs_permit_access m d s e = do {
     (rc, r) \<leftarrow> rangeset_add_range m (irq_caps d) s e;
     Some (rc, d\<lparr>irq_caps := r\<rparr>)
   }"

definition irqs_deny_access :: "bool \<Rightarrow> iocaps \<Rightarrow> ulong \<Rightarrow> ulong \<Rightarrow> (int \<times> iocaps) option" where
  "irqs_deny_access m d s e = do {
     (rc, r) \<leftarrow> rangeset_remove_range m (irq_caps d) s e;
     Some (rc, d\<lparr>irq_caps := r\<rparr>)
   }"

definition irq_access_permitted :: "iocaps \<Rightarrow> ulong \<Rightarrow> bool option" where
  "irq_access_permitted d i = rangeset_contains_singleton (irq_caps d) i"

text \<open>The translation \<^verbatim>\<open>domain_pirq_to_irq\<close> of the architecture is an argument.\<close>

definition pirq_permit_access :: "(nat \<Rightarrow> int) \<Rightarrow> bool \<Rightarrow> iocaps \<Rightarrow> nat \<Rightarrow> (int \<times> iocaps) option" where
  "pirq_permit_access domain_pirq_to_irq m d i =
     (let irq = domain_pirq_to_irq i in
      if irq > 0 then irq_permit_access m d (word_of_int irq) else Some (- EINVAL, d))"

definition pirq_deny_access :: "(nat \<Rightarrow> int) \<Rightarrow> bool \<Rightarrow> iocaps \<Rightarrow> nat \<Rightarrow> (int \<times> iocaps) option" where
  "pirq_deny_access domain_pirq_to_irq m d i =
     (let irq = domain_pirq_to_irq i in
      if irq > 0 then irq_deny_access m d (word_of_int irq) else Some (- EINVAL, d))"

definition pirq_access_permitted :: "(nat \<Rightarrow> int) \<Rightarrow> iocaps \<Rightarrow> nat \<Rightarrow> bool option" where
  "pirq_access_permitted domain_pirq_to_irq d i =
     rangeset_contains_singleton (irq_caps d) (word_of_int (domain_pirq_to_irq i))"

definition iocaps_ok :: "iocaps \<Rightarrow> bool" where
  "iocaps_ok d \<longleftrightarrow> rs_ok (iomem_caps d) \<and> rs_ok (irq_caps d)"

section \<open>Properties\<close>

text \<open>
  C40: Granting I/O memory grants that memory and nothing else. After a successful
  \<^verbatim>\<open>iomem_permit_access(d, s, e)\<close> every access inside \<open>[s, e]\<close> is permitted, an access outside
  \<open>[s, e]\<close> is permitted exactly when it was before, the interrupt capabilities are untouched and
  the capabilities stay well-formed.
\<close>
theorem iomem_permit_access_exact:
  assumes "iocaps_ok d" and "s \<le> e" and "iomem_permit_access m d s e = Some (0, d')"
  shows "iocaps_ok d' \<and> irq_caps d' = irq_caps d \<and>
    (\<forall>a b. s \<le> a \<and> a \<le> b \<and> b \<le> e \<longrightarrow> iomem_access_permitted d' a b = Some True) \<and>
    (\<forall>a b. a \<le> b \<and> (b < s \<or> e < a) \<longrightarrow>
       iomem_access_permitted d' a b = iomem_access_permitted d a b)"
proof -
  from assms obtain r' where r: "rangeset_add_range m (iomem_caps d) s e = Some (0, r')"
    and d: "d' = d\<lparr>iomem_caps := r'\<rparr>"
    by (auto simp: iomem_permit_access_def bind_eq_Some_conv)
  have ok: "rs_ok (iomem_caps d)" using assms(1) by (simp add: iocaps_ok_def)
  have ok': "rs_ok r'" using rs_caps.add_invar [OF ok assms(2) r] .
  have "iomem_access_permitted d' a b = iomem_access_permitted d a b"
    if "a \<le> b" "b < s \<or> e < a" for a b
    using rs_caps.kept_holds [OF ok assms(2) r that(1)] rs_caps.not_added_holds [OF ok assms(2) r that]
      rs_caps.holds_spec [OF ok that(1)] rs_caps.holds_spec [OF ok' that(1)] d
    by (auto simp: iomem_access_permitted_def)
  then show ?thesis
    using ok' d assms(1) rs_caps.added_holds [OF ok assms(2) r]
    by (auto simp: iomem_access_permitted_def iocaps_ok_def)
qed

theorem iomem_permit_access_exact_witness:
  "\<exists>d'. iocaps_ok \<lparr>iomem_caps = two_ranges 0 1 8 9, irq_caps = two_ranges 0 1 8 9\<rparr> \<and> (3::ulong) \<le> 5 \<and>
    iomem_permit_access True \<lparr>iomem_caps = two_ranges 0 1 8 9, irq_caps = two_ranges 0 1 8 9\<rparr> 3 5 = Some (0, d') \<and>
    iomem_access_permitted d' 4 5 = Some True"
proof -
  let ?d = "\<lparr>iomem_caps = two_ranges 0 1 8 9, irq_caps = two_ranges 0 1 8 9\<rparr>"
  have ok: "iocaps_ok ?d" by (simp add: iocaps_ok_def rs_eval)
  obtain d' where d': "iomem_permit_access True ?d 3 5 = Some (0, d')"
    by (simp add: iomem_permit_access_def rangeset_add_range_def Let_def rs_eval)
  have "(3::ulong) \<le> 5" by simp
  from iomem_permit_access_exact [OF ok this d'] have "iomem_access_permitted d' 4 5 = Some True" by simp
  with ok d' show ?thesis by auto
qed

text \<open>
  Revoking an interrupt revokes that interrupt and nothing else. \<^verbatim>\<open>irq_deny_access(d, i)\<close>,
  when it succeeds, leaves interrupt \<open>i\<close> not permitted and every other interrupt as it was: the
  removal of a single number is always exact, so the faults of C3 and C4 do not reach it.
\<close>
theorem irq_deny_access_exact:
  assumes "iocaps_ok d" and "irq_deny_access m d i = Some (0, d')"
  shows "iocaps_ok d' \<and> irq_access_permitted d' i = Some False \<and>
    (\<forall>j. j \<noteq> i \<longrightarrow> irq_access_permitted d' j = irq_access_permitted d j)"
proof -
  from assms(2) obtain r' where r: "rangeset_remove_range m (irq_caps d) i i = Some (0, r')"
    and d: "d' = d\<lparr>irq_caps := r'\<rparr>"
    by (auto simp: irq_deny_access_def rangeset_remove_singleton_def bind_eq_Some_conv)
  have ok: "rs_ok (irq_caps d)" and ex: "remove_exact (irq_caps d) i i"
    using assms(1) by (simp_all add: iocaps_ok_def remove_exact_def)
  have "rs_ok r'" using rs_caps.remove_done [OF ok _ ex r] by simp
  moreover have "rangeset_contains_range r' i i = Some False"
    using rs_caps.removed_not_held [OF ok _ ex r] by simp
  moreover have "rangeset_contains_range r' j j = rangeset_contains_range (irq_caps d) j j" if "j \<noteq> i" for j
    using rs_caps.not_removed_holds [OF ok _ ex r, of j j] that by (simp add: neq_iff)
  ultimately show ?thesis
    using d assms(1) by (simp add: irq_access_permitted_def rangeset_contains_singleton_def iocaps_ok_def)
qed

theorem irq_deny_access_exact_witness:
  "\<exists>d'. iocaps_ok \<lparr>iomem_caps = two_ranges 0 1 8 9, irq_caps = two_ranges 0 4 8 9\<rparr> \<and>
    irq_deny_access True \<lparr>iomem_caps = two_ranges 0 1 8 9, irq_caps = two_ranges 0 4 8 9\<rparr> 3 = Some (0, d') \<and>
    irq_access_permitted d' 3 = Some False"
proof -
  let ?d = "\<lparr>iomem_caps = two_ranges 0 1 8 9, irq_caps = two_ranges 0 4 8 9\<rparr>"
  have ok: "iocaps_ok ?d" by (simp add: iocaps_ok_def rs_eval)
  obtain d' where d': "irq_deny_access True ?d 3 = Some (0, d')"
    by (simp add: irq_deny_access_def rangeset_remove_singleton_def rangeset_remove_range_def Let_def rs_eval)
  from irq_deny_access_exact [OF ok d'] ok d' show ?thesis by blast
qed

end
