(* ===== verification/Xen_State.thy ===== *)
theory Xen_State
  imports Iocap
begin

text \<open>
  The part of the hypervisor's state that event channels, virtual-CPU blocking and domain
  references work on: \<^verbatim>\<open>struct evtchn\<close>, \<^verbatim>\<open>struct vcpu\<close> and \<^verbatim>\<open>struct domain\<close> of
  \<^verbatim>\<open>xen/include/xen/sched.h\<close>, \<^verbatim>\<open>struct pirq\<close> of \<^verbatim>\<open>xen/include/xen/irq.h\<close>, and the globals of
  \<^verbatim>\<open>xen/common/event_channel.c\<close>.

  A \<^verbatim>\<open>struct domain *\<close> is the identifier of the domain, a \<^verbatim>\<open>struct vcpu *\<close> the identifier of
  its domain with the number of the virtual CPU. Calls that leave this state (the scheduler's
  \<^verbatim>\<open>wake\<close> and \<^verbatim>\<open>sleep\<close> hooks, interrupt injection, the physical-interrupt layer) are appended
  to a log of effects. What such calls return is a member of the record of external
  functions, \<open>ext\<close>.
\<close>

section \<open>Data\<close>

type_synonym domid = int
type_synonym port = int

datatype ecs = ECS_FREE | ECS_RESERVED | ECS_UNBOUND | ECS_INTERDOMAIN | ECS_PIRQ | ECS_VIRQ | ECS_IPI

text \<open>
  The union \<^verbatim>\<open>u\<close> of \<^verbatim>\<open>struct evtchn\<close> by its layout: \<open>u_lo\<close> is the half-word at offset 0, which is
  \<^verbatim>\<open>unbound.remote_domid\<close>, \<^verbatim>\<open>interdomain.remote_port\<close>, \<^verbatim>\<open>pirq.irq\<close> and \<^verbatim>\<open>virq\<close>; \<open>u_next\<close> and
  \<open>u_prev\<close> are \<^verbatim>\<open>pirq.next_port\<close> and \<^verbatim>\<open>pirq.prev_port\<close>; \<open>u_dom\<close> is the pointer
  \<^verbatim>\<open>interdomain.remote_dom\<close> at offset 8.
\<close>

record evtchn =
  ec_state :: ecs
  xen_consumer :: nat
  notify_vcpu_id :: int
  u_lo :: int
  u_next :: port
  u_prev :: port
  u_dom :: domid

definition zero_evtchn :: evtchn where
  "zero_evtchn = \<lparr>ec_state = ECS_FREE, xen_consumer = 0, notify_vcpu_id = 0,
     u_lo = 0, u_next = 0, u_prev = 0, u_dom = 0\<rparr>"

record pirq =
  pirq_evtchn :: port
  arch_irq :: int
  hvm_emuirq :: int
  dpci_flags :: int

datatype runstate = RUNSTATE_running | RUNSTATE_runnable | RUNSTATE_blocked | RUNSTATE_offline

datatype vpf = VPF_blocked | VPF_down | VPF_blocked_in_xen | VPF_migrating
  | VPF_mem_paging | VPF_mem_access | VPF_mem_sharing | VPF_in_reset

record vcpu =
  processor :: int
  pause_flags :: "vpf \<Rightarrow> bool"
  v_pause_count :: int
  runstate_state :: runstate
  state_entry_time :: int
  runstate_time :: "runstate \<Rightarrow> int"
  is_urgent :: bool
  poll_evtchn :: int
  virq_to_evtchn :: "int \<Rightarrow> port"
  pirq_evtchn_head :: port
  evtchn_upcall_pending :: bool
  evtchn_upcall_mask :: bool
  evtchn_pending_sel :: "int \<Rightarrow> bool"

record xdomain =
  is_hvm :: bool
  has_32bit_shinfo :: bool
  is_dying :: bool
  is_privileged :: bool
  d_target :: "domid option"
  refcnt :: nat
  d_pause_count :: int
  is_paused_by_controller :: bool
  max_vcpus :: int
  d_vcpu :: "int \<Rightarrow> vcpu option"
  poll_mask :: "int \<Rightarrow> bool"
  d_evtchn :: "int \<Rightarrow> (int \<Rightarrow> evtchn) option"
  evtchn_pending :: "port \<Rightarrow> bool"
  evtchn_mask :: "port \<Rightarrow> bool"
  nr_pirqs :: int
  pirq_tree :: "int \<Rightarrow> pirq option"
  emuirq_pirq :: "int \<Rightarrow> int option"
  d_caps :: iocaps

text \<open>
  A notification function of a Xen consumer: the default one of \<^verbatim>\<open>event_channel.c\<close> or another
  one, by number.
\<close>

datatype xen_notification = Default_fn | Other_fn nat

datatype effect =
    Sched_wake domid int
  | Sched_sleep domid int
  | Vcpu_kick domid int
  | Hvm_assert_evtchn_irq domid int
  | Xen_notify nat domid int port
  | Pirq_guest_bind domid int bool
  | Pirq_guest_unbind domid int
  | Pirq_set_affinity domid int int
  | Xsm_evtchn_close_post domid port
  | Domain_destroy domid
  | Raise_schedule_softirq
  | Set_poll_timer domid int int

record xen =
  doms :: "domid \<Rightarrow> xdomain option"
  xen_consumers :: "xen_notification option list"
  global_virq_handlers :: "int \<Rightarrow> domid option"
  urgent_count :: "int \<Rightarrow> int"
  effects :: "effect list"

record ext =
  now :: int
  nr_irqs :: int
  xzalloc_ok :: bool
  radix_insert_rc :: int
  dom_before :: "domid \<Rightarrow> domid \<Rightarrow> bool"
  xsm_alloc_security_evtchn :: "int \<Rightarrow> int"
  xsm_evtchn_unbound :: "domid \<Rightarrow> port \<Rightarrow> domid \<Rightarrow> int"
  xsm_evtchn_interdomain :: "domid \<Rightarrow> port \<Rightarrow> domid \<Rightarrow> port \<Rightarrow> int"
  xsm_evtchn_send :: "domid \<Rightarrow> port \<Rightarrow> int"
  xsm_evtchn_status :: "domid \<Rightarrow> port \<Rightarrow> int"
  xsm_evtchn_reset :: "domid \<Rightarrow> domid \<Rightarrow> int"
  pirq_guest_bind :: "domid \<Rightarrow> int \<Rightarrow> bool \<Rightarrow> int"
  hvm_local_events_need_delivery :: "domid \<Rightarrow> int \<Rightarrow> bool"

section \<open>Domains, virtual CPUs and the log\<close>

definition put_dom :: "xen \<Rightarrow> domid \<Rightarrow> xdomain \<Rightarrow> xen" where
  "put_dom s d D = s\<lparr>doms := (doms s)(d := Some D)\<rparr>"

definition put_vcpu :: "xdomain \<Rightarrow> int \<Rightarrow> vcpu \<Rightarrow> xdomain" where
  "put_vcpu D v V = D\<lparr>d_vcpu := (d_vcpu D)(v := Some V)\<rparr>"

definition emit :: "xen \<Rightarrow> effect \<Rightarrow> xen" where
  "emit s e = s\<lparr>effects := effects s @ [e]\<rparr>"

abbreviation get_vcpu :: "xen \<Rightarrow> domid \<Rightarrow> int \<Rightarrow> vcpu option" where
  "get_vcpu s d v \<equiv> doms s d \<bind> (\<lambda>D. d_vcpu D v)"

definition upd_vcpu :: "xen \<Rightarrow> domid \<Rightarrow> int \<Rightarrow> (vcpu \<Rightarrow> vcpu) \<Rightarrow> xen option" where
  "upd_vcpu s d v f = do {
     D \<leftarrow> doms s d;
     V \<leftarrow> d_vcpu D v;
     Some (put_dom s d (put_vcpu D v (f V)))
   }"

text \<open>
  The virtual CPUs \<^verbatim>\<open>for_each_vcpu\<close> visits: from \<^verbatim>\<open>vcpu[0]\<close> along \<^verbatim>\<open>next_in_list\<close>, which is in the
  order of their numbers.
\<close>

definition vcpu_list :: "xdomain \<Rightarrow> int list" where
  "vcpu_list D =
     (if d_vcpu D 0 = None then [] else filter (\<lambda>v. d_vcpu D v \<noteq> None) [0..max_vcpus D - 1])"

abbreviation DOMID_SELF :: domid where "DOMID_SELF \<equiv> 0x7FF0"
abbreviation DOMID_IDLE :: domid where "DOMID_IDLE \<equiv> 0x7FFF"
abbreviation DOMID_INVALID :: domid where "DOMID_INVALID \<equiv> 0x7FF4"
abbreviation NR_VIRQS :: int where "NR_VIRQS \<equiv> 24"
abbreviation EVTCHNS_PER_BUCKET :: int where "EVTCHNS_PER_BUCKET \<equiv> 128"
abbreviation NR_EVTCHN_BUCKETS :: int where "NR_EVTCHN_BUCKETS \<equiv> 32"
abbreviation IRQ_UNBOUND :: int where "IRQ_UNBOUND \<equiv> -1"
abbreviation IRQ_PT :: int where "IRQ_PT \<equiv> -2"

section \<open>References to domains\<close>

text \<open>
  A domain that has been destroyed is no longer in \<open>doms\<close>: \<^verbatim>\<open>domain_destroy\<close> takes it off the
  domain list and hash table and its counter has the value \<^verbatim>\<open>DOMAIN_DESTROYED\<close>.
\<close>

definition get_domain :: "xen \<Rightarrow> domid \<Rightarrow> xen option" where
  "get_domain s d = do {
     D \<leftarrow> doms s d;
     Some (put_dom s d (D\<lparr>refcnt := refcnt D + 1\<rparr>))
   }"

definition domain_destroy :: "xen \<Rightarrow> domid \<Rightarrow> xen option" where
  "domain_destroy s d = do {
     D \<leftarrow> doms s d;
     bug_on (\<not> is_dying D);
     if refcnt D \<noteq> 0 then Some s
     else Some (emit (s\<lparr>doms := (doms s)(d := None)\<rparr>) (Domain_destroy d))
   }"

definition put_domain :: "xen \<Rightarrow> domid \<Rightarrow> xen option" where
  "put_domain s d = do {
     D \<leftarrow> doms s d;
     let s1 = put_dom s d (D\<lparr>refcnt := refcnt D - 1\<rparr>);
     if refcnt D = 1 then domain_destroy s1 d else Some s1
   }"

definition rcu_lock_domain_by_id :: "xen \<Rightarrow> domid \<Rightarrow> domid option" where
  "rcu_lock_domain_by_id s dm = (case doms s dm of None \<Rightarrow> None | Some _ \<Rightarrow> Some dm)"

definition IS_PRIV_FOR :: "xdomain \<Rightarrow> domid \<Rightarrow> bool" where
  "IS_PRIV_FOR D t \<longleftrightarrow> is_privileged D \<or> d_target D = Some t"

definition rcu_lock_target_domain_by_id :: "xen \<Rightarrow> domid \<Rightarrow> domid \<Rightarrow> (int + domid) option" where
  "rcu_lock_target_domain_by_id s cur dm =
     (if dm = DOMID_SELF then Some (Inr cur)
      else case rcu_lock_domain_by_id s dm of
             None \<Rightarrow> Some (Inl (- ESRCH))
           | Some d \<Rightarrow> do {
               C \<leftarrow> doms s cur;
               if \<not> IS_PRIV_FOR C d then Some (Inl (- EPERM)) else Some (Inr d)
             })"

section \<open>Laws of the accessors\<close>

lemma doms_put_dom [simp]: "doms (put_dom s d D) = (doms s)(d := Some D)"
  by (simp add: put_dom_def)

lemma put_dom_other [simp]:
  "xen_consumers (put_dom s d D) = xen_consumers s"
  "global_virq_handlers (put_dom s d D) = global_virq_handlers s"
  "urgent_count (put_dom s d D) = urgent_count s"
  "effects (put_dom s d D) = effects s"
  by (simp_all add: put_dom_def)

lemma d_vcpu_put_vcpu [simp]: "d_vcpu (put_vcpu D v V) = (d_vcpu D)(v := Some V)"
  by (simp add: put_vcpu_def)

lemma put_vcpu_other [simp]:
  "is_hvm (put_vcpu D v V) = is_hvm D"
  "has_32bit_shinfo (put_vcpu D v V) = has_32bit_shinfo D"
  "is_dying (put_vcpu D v V) = is_dying D"
  "refcnt (put_vcpu D v V) = refcnt D"
  "max_vcpus (put_vcpu D v V) = max_vcpus D"
  "poll_mask (put_vcpu D v V) = poll_mask D"
  "d_evtchn (put_vcpu D v V) = d_evtchn D"
  "evtchn_pending (put_vcpu D v V) = evtchn_pending D"
  "evtchn_mask (put_vcpu D v V) = evtchn_mask D"
  "pirq_tree (put_vcpu D v V) = pirq_tree D"
  by (simp_all add: put_vcpu_def)

lemma emit_simps [simp]:
  "doms (emit s e) = doms s"
  "xen_consumers (emit s e) = xen_consumers s"
  "global_virq_handlers (emit s e) = global_virq_handlers s"
  "urgent_count (emit s e) = urgent_count s"
  "effects (emit s e) = effects s @ [e]"
  by (simp_all add: emit_def)

end
