(* ===== verification/Vcpu.thy ===== *)
theory Vcpu
  imports Xen_State
begin

text \<open>
  Blocking, waking, pausing and polling of virtual CPUs: \<^verbatim>\<open>vcpu_runstate_change\<close>, \<^verbatim>\<open>vcpu_wake\<close>,
  \<^verbatim>\<open>vcpu_unblock\<close>, \<^verbatim>\<open>vcpu_sleep_nosync\<close>, \<^verbatim>\<open>do_block\<close> and \<^verbatim>\<open>do_poll\<close> of \<^verbatim>\<open>xen/common/schedule.c\<close>,
  the pause functions of \<^verbatim>\<open>xen/common/domain.c\<close>, and the delivery of an upcall,
  \<^verbatim>\<open>vcpu_mark_events_pending\<close> of \<^verbatim>\<open>xen/arch/x86/domain.c\<close>. The scheduler proper is behind the
  effects \<open>Sched_wake\<close> and \<open>Sched_sleep\<close>.
\<close>

section \<open>Run states\<close>

definition all_vpf :: "vpf list" where
  "all_vpf = [VPF_blocked, VPF_down, VPF_blocked_in_xen, VPF_migrating,
     VPF_mem_paging, VPF_mem_access, VPF_mem_sharing, VPF_in_reset]"

definition vcpu_runnable :: "xdomain \<Rightarrow> vcpu \<Rightarrow> bool" where
  "vcpu_runnable D V \<longleftrightarrow>
     list_all (\<lambda>f. \<not> pause_flags V f) all_vpf \<and> v_pause_count V = 0 \<and> d_pause_count D = 0"

definition set_flag :: "vpf \<Rightarrow> bool \<Rightarrow> vcpu \<Rightarrow> vcpu" where
  "set_flag f b V = V\<lparr>pause_flags := (pause_flags V)(f := b)\<rparr>"

definition vcpu_urgent_count_update :: "xen \<Rightarrow> domid \<Rightarrow> int \<Rightarrow> xen option" where
  "vcpu_urgent_count_update s d v = do {
     D \<leftarrow> doms s d;
     V \<leftarrow> d_vcpu D v;
     if d = DOMID_IDLE then Some s
     else if is_urgent V then
       (if \<not> pause_flags V VPF_blocked \<or> \<not> poll_mask D v then
          Some ((put_dom s d (put_vcpu D v (V\<lparr>is_urgent := False\<rparr>)))
                \<lparr>urgent_count := (urgent_count s)(processor V := urgent_count s (processor V) - 1)\<rparr>)
        else Some s)
     else
       (if pause_flags V VPF_blocked \<and> poll_mask D v then
          Some ((put_dom s d (put_vcpu D v (V\<lparr>is_urgent := True\<rparr>)))
                \<lparr>urgent_count := (urgent_count s)(processor V := urgent_count s (processor V) + 1)\<rparr>)
        else Some s)
   }"

definition enter_runstate :: "runstate \<Rightarrow> int \<Rightarrow> vcpu \<Rightarrow> vcpu" where
  "enter_runstate new_state new_entry_time V =
     (let delta = new_entry_time - state_entry_time V;
          V1 = (if delta > 0
                then V\<lparr>runstate_time := (runstate_time V)
                         (runstate_state V := runstate_time V (runstate_state V) + delta),
                       state_entry_time := new_entry_time\<rparr>
                else V)
      in V1\<lparr>runstate_state := new_state\<rparr>)"

definition vcpu_runstate_change :: "xen \<Rightarrow> domid \<Rightarrow> int \<Rightarrow> runstate \<Rightarrow> int \<Rightarrow> xen option" where
  "vcpu_runstate_change s d v new_state new_entry_time = do {
     V \<leftarrow> get_vcpu s d v;
     assert_that (runstate_state V \<noteq> new_state);
     s1 \<leftarrow> vcpu_urgent_count_update s d v;
     upd_vcpu s1 d v (enter_runstate new_state new_entry_time)
   }"

definition vcpu_runstate_get :: "ext \<Rightarrow> vcpu \<Rightarrow> runstate \<times> int \<times> (runstate \<Rightarrow> int)" where
  "vcpu_runstate_get x V =
     (let delta = now x - state_entry_time V;
          t = runstate_time V
      in (runstate_state V, state_entry_time V,
          if delta > 0 then t(runstate_state V := t (runstate_state V) + delta) else t))"

section \<open>Waking and sleeping\<close>

definition vcpu_wake :: "ext \<Rightarrow> xen \<Rightarrow> domid \<Rightarrow> int \<Rightarrow> xen option" where
  "vcpu_wake x s d v = do {
     D \<leftarrow> doms s d;
     V \<leftarrow> d_vcpu D v;
     if vcpu_runnable D V then do {
       s1 \<leftarrow> (if runstate_state V = RUNSTATE_blocked \<or> runstate_state V = RUNSTATE_offline
              then vcpu_runstate_change s d v RUNSTATE_runnable (now x) else Some s);
       Some (emit s1 (Sched_wake d v))
     }
     else if \<not> pause_flags V VPF_blocked then
       (if runstate_state V = RUNSTATE_blocked
        then vcpu_runstate_change s d v RUNSTATE_offline (now x) else Some s)
     else Some s
   }"

definition vcpu_sleep_nosync :: "ext \<Rightarrow> xen \<Rightarrow> domid \<Rightarrow> int \<Rightarrow> xen option" where
  "vcpu_sleep_nosync x s d v = do {
     D \<leftarrow> doms s d;
     V \<leftarrow> d_vcpu D v;
     if \<not> vcpu_runnable D V then do {
       s1 \<leftarrow> (if runstate_state V = RUNSTATE_runnable
              then vcpu_runstate_change s d v RUNSTATE_offline (now x) else Some s);
       Some (emit s1 (Sched_sleep d v))
     }
     else Some s
   }"

definition vcpu_unblock :: "ext \<Rightarrow> xen \<Rightarrow> domid \<Rightarrow> int \<Rightarrow> xen option" where
  "vcpu_unblock x s d v = do {
     D \<leftarrow> doms s d;
     V \<leftarrow> d_vcpu D v;
     if \<not> pause_flags V VPF_blocked then Some s
     else do {
       let V1 = set_flag VPF_blocked False V;
       let D1 = (if poll_evtchn V1 \<noteq> 0 then
                   (let V2 = V1\<lparr>poll_evtchn := 0\<rparr> in
                    if poll_mask D v
                    then (put_vcpu D v (set_flag VPF_blocked False V2))\<lparr>poll_mask := (poll_mask D)(v := False)\<rparr>
                    else put_vcpu D v V2)
                 else put_vcpu D v V1);
       vcpu_wake x (put_dom s d D1) d v
     }
   }"

section \<open>Pausing\<close>

definition vcpu_pause_nosync :: "ext \<Rightarrow> xen \<Rightarrow> domid \<Rightarrow> int \<Rightarrow> xen option" where
  "vcpu_pause_nosync x s d v = do {
     s1 \<leftarrow> upd_vcpu s d v (\<lambda>V. V\<lparr>v_pause_count := v_pause_count V + 1\<rparr>);
     vcpu_sleep_nosync x s1 d v
   }"

definition vcpu_unpause :: "ext \<Rightarrow> xen \<Rightarrow> domid \<Rightarrow> int \<Rightarrow> xen option" where
  "vcpu_unpause x s d v = do {
     V \<leftarrow> get_vcpu s d v;
     s1 \<leftarrow> upd_vcpu s d v (\<lambda>V. V\<lparr>v_pause_count := v_pause_count V - 1\<rparr>);
     if v_pause_count V - 1 = 0 then vcpu_wake x s1 d v else Some s1
   }"

text \<open>
  \<^verbatim>\<open>domain_pause\<close> puts every virtual CPU to sleep; the wait of \<^verbatim>\<open>vcpu_sleep_sync\<close> for another
  physical CPU to let go of it changes nothing in this state.
\<close>

definition domain_pause :: "ext \<Rightarrow> xen \<Rightarrow> domid \<Rightarrow> domid \<Rightarrow> xen option" where
  "domain_pause x s cur d = do {
     assert_that (d \<noteq> cur);
     D \<leftarrow> doms s d;
     foldM (\<lambda>v s. vcpu_sleep_nosync x s d v) (vcpu_list D)
       (put_dom s d (D\<lparr>d_pause_count := d_pause_count D + 1\<rparr>))
   }"

definition domain_unpause :: "ext \<Rightarrow> xen \<Rightarrow> domid \<Rightarrow> xen option" where
  "domain_unpause x s d = do {
     D \<leftarrow> doms s d;
     let s1 = put_dom s d (D\<lparr>d_pause_count := d_pause_count D - 1\<rparr>);
     if d_pause_count D - 1 = 0 then foldM (\<lambda>v s. vcpu_wake x s d v) (vcpu_list D) s1
     else Some s1
   }"

definition domain_pause_by_systemcontroller :: "ext \<Rightarrow> xen \<Rightarrow> domid \<Rightarrow> domid \<Rightarrow> xen option" where
  "domain_pause_by_systemcontroller x s cur d = do {
     s1 \<leftarrow> domain_pause x s cur d;
     D \<leftarrow> doms s1 d;
     let s2 = put_dom s1 d (D\<lparr>is_paused_by_controller := True\<rparr>);
     if is_paused_by_controller D then domain_unpause x s2 d else Some s2
   }"

definition domain_unpause_by_systemcontroller :: "ext \<Rightarrow> xen \<Rightarrow> domid \<Rightarrow> xen option" where
  "domain_unpause_by_systemcontroller x s d = do {
     D \<leftarrow> doms s d;
     let s1 = put_dom s d (D\<lparr>is_paused_by_controller := False\<rparr>);
     if is_paused_by_controller D then domain_unpause x s1 d else Some s1
   }"

section \<open>Delivery of an upcall\<close>

definition vcpu_mark_events_pending :: "xen \<Rightarrow> domid \<Rightarrow> int \<Rightarrow> xen option" where
  "vcpu_mark_events_pending s d v = do {
     D \<leftarrow> doms s d;
     V \<leftarrow> d_vcpu D v;
     let s1 = put_dom s d (put_vcpu D v (V\<lparr>evtchn_upcall_pending := True\<rparr>));
     if evtchn_upcall_pending V then Some s1
     else Some (emit s1 (if is_hvm D then Hvm_assert_evtchn_irq d v else Vcpu_kick d v))
   }"

definition local_events_need_delivery :: "ext \<Rightarrow> xdomain \<Rightarrow> domid \<Rightarrow> int \<Rightarrow> vcpu \<Rightarrow> bool" where
  "local_events_need_delivery x D d v V =
     (if is_hvm D then hvm_local_events_need_delivery x d v
      else evtchn_upcall_pending V \<and> \<not> evtchn_upcall_mask V)"

section \<open>Blocking and polling hypercalls\<close>

definition do_block :: "ext \<Rightarrow> xen \<Rightarrow> domid \<Rightarrow> int \<Rightarrow> (int \<times> xen) option" where
  "do_block x s d v = do {
     D \<leftarrow> doms s d;
     V \<leftarrow> d_vcpu D v;
     let V1 = set_flag VPF_blocked True (V\<lparr>evtchn_upcall_mask := False\<rparr>);
     if local_events_need_delivery x D d v V1
     then Some (0, put_dom s d (put_vcpu D v (set_flag VPF_blocked False V1)))
     else Some (0, emit (put_dom s d (put_vcpu D v V1)) Raise_schedule_softirq)
   }"

definition BITS_PER_EVTCHN_WORD :: "xdomain \<Rightarrow> int" where
  "BITS_PER_EVTCHN_WORD D = (if has_32bit_shinfo D then 32 else 64)"

definition MAX_EVTCHNS :: "xdomain \<Rightarrow> int" where
  "MAX_EVTCHNS D = BITS_PER_EVTCHN_WORD D * BITS_PER_EVTCHN_WORD D"

text \<open>
  The ports the guest names, in order; \<open>None\<close> is an entry that cannot be copied. The result
  \<open>Some rc\<close> is the early exit with \<open>rc\<close>, \<open>None\<close> the end of the loop.
\<close>

fun poll_ports :: "xdomain \<Rightarrow> port option list \<Rightarrow> int option" where
  "poll_ports D [] = None"
| "poll_ports D (None # ps) = Some (- EFAULT)"
| "poll_ports D (Some p # ps) =
     (if p \<ge> MAX_EVTCHNS D then Some (- EINVAL)
      else if evtchn_pending D p then Some 0
      else poll_ports D ps)"

definition do_poll ::
    "ext \<Rightarrow> xen \<Rightarrow> domid \<Rightarrow> int \<Rightarrow> bool \<Rightarrow> port option list \<Rightarrow> int \<Rightarrow> (int \<times> xen) option" where
  "do_poll x s d v handle_okay ports timeout =
     (if length ports > 128 then Some (- EINVAL, s)
      else if \<not> handle_okay then Some (- EFAULT, s)
      else do {
        D \<leftarrow> doms s d;
        V \<leftarrow> d_vcpu D v;
        let V1 = (set_flag VPF_blocked True V)\<lparr>poll_evtchn := -1\<rparr>;
        let D1 = (put_vcpu D v V1)\<lparr>poll_mask := (poll_mask D)(v := True)\<rparr>;
        let s_out = put_dom s d ((put_vcpu D1 v
                      (set_flag VPF_blocked False (V1\<lparr>poll_evtchn := 0\<rparr>)))
                      \<lparr>poll_mask := (poll_mask D1)(v := False)\<rparr>);
        if local_events_need_delivery x D1 d v V1 then Some (0, s_out)
        else case poll_ports D1 ports of
               Some rc \<Rightarrow> Some (rc, s_out)
             | None \<Rightarrow>
                 let V2 = (case ports of [Some p] \<Rightarrow> V1\<lparr>poll_evtchn := p\<rparr> | _ \<Rightarrow> V1);
                     s1 = put_dom s d (put_vcpu D1 v V2);
                     s2 = (if timeout \<noteq> 0 then emit s1 (Set_poll_timer d v timeout) else s1)
                 in Some (0, emit s2 Raise_schedule_softirq)
      })"

definition poll_timer_fn :: "ext \<Rightarrow> xen \<Rightarrow> domid \<Rightarrow> int \<Rightarrow> xen option" where
  "poll_timer_fn x s d v = do {
     D \<leftarrow> doms s d;
     if poll_mask D v
     then vcpu_unblock x (put_dom s d (D\<lparr>poll_mask := (poll_mask D)(v := False)\<rparr>)) d v
     else Some s
   }"

end
