(* ===== verification/Evtchn.thy ===== *)
theory Evtchn
  imports Vcpu
begin

text \<open>
  Event channels, \<^verbatim>\<open>xen/common/event_channel.c\<close>, with the macros of \<^verbatim>\<open>xen/include/xen/event.h\<close> and
  the bookkeeping of physical interrupts they use (\<^verbatim>\<open>pirq_get_info\<close> of \<^verbatim>\<open>xen/common/domain.c\<close>,
  \<^verbatim>\<open>pirq_cleanup_check\<close>, \<^verbatim>\<open>map_domain_emuirq_pirq\<close> and \<^verbatim>\<open>unmap_domain_pirq_emuirq\<close> of
  \<^verbatim>\<open>xen/arch/x86/irq.c\<close>).

  Every operation runs under the event locks of the domains it touches and is one step, except
  for \<^verbatim>\<open>__evtchn_close\<close>, which may drop its lock once and start again: its two passes are separate
  definitions.
\<close>

section \<open>Ports\<close>

definition bucket_from_port :: "xdomain \<Rightarrow> port \<Rightarrow> (int \<Rightarrow> evtchn) option" where
  "bucket_from_port D p = d_evtchn D (p div EVTCHNS_PER_BUCKET)"

definition port_is_valid :: "xdomain \<Rightarrow> port \<Rightarrow> bool" where
  "port_is_valid D p \<longleftrightarrow> p \<ge> 0 \<and> p < MAX_EVTCHNS D \<and> bucket_from_port D p \<noteq> None"

definition evtchn_from_port :: "xdomain \<Rightarrow> port \<Rightarrow> evtchn option" where
  "evtchn_from_port D p =
     (case bucket_from_port D p of None \<Rightarrow> None | Some b \<Rightarrow> Some (b (p mod EVTCHNS_PER_BUCKET)))"

text \<open>Writing the channel behind a port: \<^verbatim>\<open>*evtchn_from_port(d, p) = c\<close>.\<close>

definition set_chn :: "xdomain \<Rightarrow> port \<Rightarrow> evtchn \<Rightarrow> xdomain" where
  "set_chn D p c = D\<lparr>d_evtchn := (d_evtchn D)(p div EVTCHNS_PER_BUCKET :=
     (case bucket_from_port D p of None \<Rightarrow> None
      | Some b \<Rightarrow> Some (b(p mod EVTCHNS_PER_BUCKET := c))))\<rparr>"

definition upd_chn :: "xdomain \<Rightarrow> port \<Rightarrow> (evtchn \<Rightarrow> evtchn) \<Rightarrow> xdomain option" where
  "upd_chn D p f = do { c \<leftarrow> evtchn_from_port D p; Some (set_chn D p (f c)) }"

abbreviation consumer_is_xen :: "evtchn \<Rightarrow> bool" where
  "consumer_is_xen c \<equiv> xen_consumer c \<noteq> 0"

lemma port_is_valid_max: "port_is_valid D p \<Longrightarrow> 0 \<le> p \<and> p < 4096"
  by (auto simp: port_is_valid_def MAX_EVTCHNS_def BITS_PER_EVTCHN_WORD_def split: if_splits)

text \<open>The search of \<^verbatim>\<open>get_free_port\<close>: the first port that is free or has no bucket yet.\<close>

function free_port_from :: "xdomain \<Rightarrow> port \<Rightarrow> port" where
  "free_port_from D p =
     (if port_is_valid D p \<and> (case evtchn_from_port D p of None \<Rightarrow> True | Some c \<Rightarrow> ec_state c \<noteq> ECS_FREE)
      then free_port_from D (p + 1) else p)"
  by pat_completeness auto
termination
  by (relation "measure (\<lambda>(D, p). nat (4096 - p))") (auto dest: port_is_valid_max)

declare free_port_from.simps [simp del]

definition get_free_port :: "ext \<Rightarrow> xdomain \<Rightarrow> int \<times> xdomain" where
  "get_free_port x D =
     (if is_dying D then (- EINVAL, D)
      else let p = free_port_from D 0 in
        if port_is_valid D p then (p, D)
        else if p = MAX_EVTCHNS D then (- ENOSPC, D)
        else if \<not> xzalloc_ok x then (- ENOMEM, D)
        else if list_ex (\<lambda>i. xsm_alloc_security_evtchn x i \<noteq> 0) [0..EVTCHNS_PER_BUCKET - 1]
             then (- ENOMEM, D)
        else (p, D\<lparr>d_evtchn := (d_evtchn D)(p div EVTCHNS_PER_BUCKET := Some (\<lambda>_. zero_evtchn))\<rparr>))"

section \<open>Consumers in Xen and virtual interrupts\<close>

fun find_consumer ::
    "xen_notification option list \<Rightarrow> xen_notification \<Rightarrow> (nat \<times> xen_notification option list) option" where
  "find_consumer [] fn = None"
| "find_consumer (c # cs) fn =
     (if c = None \<or> c = Some fn then Some (0, Some fn # cs)
      else do { (i, cs') \<leftarrow> find_consumer cs fn; Some (Suc i, c # cs') })"

definition get_xen_consumer :: "xen \<Rightarrow> xen_notification option \<Rightarrow> (nat \<times> xen) option" where
  "get_xen_consumer s fn = do {
     (i, cs) \<leftarrow> find_consumer (xen_consumers s) (case fn of None \<Rightarrow> Default_fn | Some f \<Rightarrow> f);
     Some (i + 1, s\<lparr>xen_consumers := cs\<rparr>)
   }"

definition default_xen_notification_fn :: "ext \<Rightarrow> xen \<Rightarrow> domid \<Rightarrow> int \<Rightarrow> xen option" where
  "default_xen_notification_fn x s d v = do {
     V \<leftarrow> get_vcpu s d v;
     if pause_flags V VPF_blocked_in_xen then do {
       s1 \<leftarrow> upd_vcpu s d v (set_flag VPF_blocked_in_xen False);
       vcpu_wake x s1 d v
     } else Some s
   }"

definition xen_notification_fn :: "ext \<Rightarrow> xen \<Rightarrow> evtchn \<Rightarrow> domid \<Rightarrow> int \<Rightarrow> port \<Rightarrow> xen option" where
  "xen_notification_fn x s c d v p =
     (if xen_consumer c - 1 < length (xen_consumers s) then
        (case xen_consumers s ! (xen_consumer c - 1) of
           None \<Rightarrow> None
         | Some Default_fn \<Rightarrow> default_xen_notification_fn x s d v
         | Some (Other_fn k) \<Rightarrow> Some (emit s (Xen_notify k d v p)))
      else None)"

definition arch_virq_is_global :: "int \<Rightarrow> bool" where
  "arch_virq_is_global virq = True"

definition virq_is_global :: "int \<Rightarrow> bool option" where
  "virq_is_global virq = do {
     assert_that (virq < NR_VIRQS);
     if virq = 0 \<or> virq = 1 \<or> virq = 7 then Some False
     else if 16 \<le> virq \<and> virq \<le> 23 then Some (arch_virq_is_global virq)
     else Some True
   }"

section \<open>Setting an event pending\<close>

definition wake_poller :: "ext \<Rightarrow> domid \<Rightarrow> port \<Rightarrow> int \<Rightarrow> xen \<Rightarrow> xen option" where
  "wake_poller x d p v s = do {
     D \<leftarrow> doms s d;
     if \<not> poll_mask D v then Some s
     else do {
       V \<leftarrow> d_vcpu D v;
       if poll_evtchn V \<le> 0 \<or> poll_evtchn V = p
       then vcpu_unblock x (put_dom s d ((put_vcpu D v (V\<lparr>poll_evtchn := 0\<rparr>))
                              \<lparr>poll_mask := (poll_mask D)(v := False)\<rparr>)) d v
       else Some s
     }
   }"

definition evtchn_set_pending :: "ext \<Rightarrow> xen \<Rightarrow> domid \<Rightarrow> int \<Rightarrow> port \<Rightarrow> xen option" where
  "evtchn_set_pending x s d v p = do {
     D \<leftarrow> doms s d;
     V \<leftarrow> d_vcpu D v;
     if evtchn_pending D p then Some s
     else do {
       let D1 = D\<lparr>evtchn_pending := (evtchn_pending D)(p := True)\<rparr>;
       let w = p div BITS_PER_EVTCHN_WORD D;
       s1 \<leftarrow> (if \<not> evtchn_mask D1 p \<and> \<not> evtchn_pending_sel V w
              then vcpu_mark_events_pending
                     (put_dom s d (put_vcpu D1 v
                        (V\<lparr>evtchn_pending_sel := (evtchn_pending_sel V)(w := True)\<rparr>))) d v
              else Some (put_dom s d D1));
       if list_all (\<lambda>i. \<not> poll_mask D i) [0..max_vcpus D - 1] then Some s1
       else foldM (wake_poller x d p) [0..max_vcpus D - 1] s1
     }
   }"

section \<open>Physical interrupts of a domain\<close>

definition pirq_to_evtchn :: "xdomain \<Rightarrow> int \<Rightarrow> port" where
  "pirq_to_evtchn D q = (case pirq_tree D q of None \<Rightarrow> 0 | Some i \<Rightarrow> pirq_evtchn i)"

definition domain_pirq_to_irq :: "xdomain \<Rightarrow> int \<Rightarrow> int" where
  "domain_pirq_to_irq D q = (case pirq_tree D q of None \<Rightarrow> 0 | Some i \<Rightarrow> arch_irq i)"

definition domain_pirq_to_emuirq :: "xdomain \<Rightarrow> int \<Rightarrow> int" where
  "domain_pirq_to_emuirq D q = (case pirq_tree D q of None \<Rightarrow> IRQ_UNBOUND | Some i \<Rightarrow> hvm_emuirq i)"

definition domain_emuirq_to_pirq :: "xdomain \<Rightarrow> int \<Rightarrow> int" where
  "domain_emuirq_to_pirq D e = (case emuirq_pirq D e of None \<Rightarrow> IRQ_UNBOUND | Some q \<Rightarrow> q)"

definition alloc_pirq_struct :: "ext \<Rightarrow> xdomain \<Rightarrow> pirq option" where
  "alloc_pirq_struct x D =
     (if xzalloc_ok x
      then Some \<lparr>pirq_evtchn = 0, arch_irq = 0,
                 hvm_emuirq = (if is_hvm D then IRQ_UNBOUND else 0), dpci_flags = 0\<rparr>
      else None)"

text \<open>The result says whether there is a structure; it is then in the tree.\<close>

definition pirq_get_info :: "ext \<Rightarrow> xdomain \<Rightarrow> int \<Rightarrow> pirq option \<times> xdomain" where
  "pirq_get_info x D q =
     (case pirq_tree D q of
        Some i \<Rightarrow> (Some i, D)
      | None \<Rightarrow>
          (case alloc_pirq_struct x D of
             None \<Rightarrow> (None, D)
           | Some i \<Rightarrow>
               if radix_insert_rc x \<noteq> 0 then (None, D)
               else (Some i, D\<lparr>pirq_tree := (pirq_tree D)(q := Some i)\<rparr>)))"

definition pirq_cleanup_check_fn :: "xdomain \<Rightarrow> int \<Rightarrow> xdomain option" where
  "pirq_cleanup_check_fn D q = do {
     i \<leftarrow> pirq_tree D q;
     if arch_irq i \<noteq> 0 then Some D
     else if is_hvm D \<and> hvm_emuirq i \<noteq> IRQ_UNBOUND then Some D
     else if is_hvm D \<and> dpci_flags i \<noteq> 0 then Some D
     else Some (D\<lparr>pirq_tree := (pirq_tree D)(q := None)\<rparr>)
   }"

text \<open>The macro of \<^verbatim>\<open>irq.h\<close> around the function, with its condition on \<^verbatim>\<open>evtchn\<close>.\<close>

definition pirq_cleanup_check :: "xdomain \<Rightarrow> int \<Rightarrow> xdomain option" where
  "pirq_cleanup_check D q = do {
     i \<leftarrow> pirq_tree D q;
     if pirq_evtchn i \<noteq> 0 then pirq_cleanup_check_fn D q else Some D
   }"

definition set_pirq :: "xdomain \<Rightarrow> int \<Rightarrow> (pirq \<Rightarrow> pirq) \<Rightarrow> xdomain" where
  "set_pirq D q f = D\<lparr>pirq_tree := (pirq_tree D)(q := map_option f (pirq_tree D q))\<rparr>"

definition map_domain_emuirq_pirq :: "ext \<Rightarrow> xdomain \<Rightarrow> int \<Rightarrow> int \<Rightarrow> (int \<times> xdomain) option" where
  "map_domain_emuirq_pirq x D q emuirq =
     (if \<not> is_hvm D then Some (- EINVAL, D)
      else if q < 0 \<or> q \<ge> nr_pirqs D \<or> emuirq = IRQ_UNBOUND \<or> emuirq \<ge> nr_irqs x then Some (- EINVAL, D)
      else
        let old_emuirq = domain_pirq_to_emuirq D q;
            old_pirq = (if emuirq \<noteq> IRQ_PT then domain_emuirq_to_pirq D emuirq else IRQ_UNBOUND)
        in if old_emuirq \<noteq> IRQ_UNBOUND \<and> old_emuirq \<noteq> emuirq \<or> old_pirq \<noteq> IRQ_UNBOUND \<and> old_pirq \<noteq> q
           then Some (0, D)
           else
             (case pirq_get_info x D q of
                (None, D1) \<Rightarrow> Some (- ENOMEM, D1)
              | (Some i, D1) \<Rightarrow>
                  if emuirq = IRQ_PT then Some (0, set_pirq D1 q (\<lambda>i. i\<lparr>hvm_emuirq := emuirq\<rparr>))
                  else if emuirq_pirq D1 emuirq \<noteq> None \<or> radix_insert_rc x = 0 then
                    Some (0, (set_pirq D1 q (\<lambda>i. i\<lparr>hvm_emuirq := emuirq\<rparr>))
                               \<lparr>emuirq_pirq := (emuirq_pirq D1)(emuirq := Some q)\<rparr>)
                  else do { D2 \<leftarrow> pirq_cleanup_check D1 q; Some (radix_insert_rc x, D2) }))"

definition unmap_domain_pirq_emuirq :: "xdomain \<Rightarrow> int \<Rightarrow> (int \<times> xdomain) option" where
  "unmap_domain_pirq_emuirq D q =
     (if \<not> is_hvm D then Some (- EINVAL, D)
      else if q < 0 \<or> q \<ge> nr_pirqs D then Some (- EINVAL, D)
      else
        let emuirq = domain_pirq_to_emuirq D q in
        if emuirq = IRQ_UNBOUND then Some (- EINVAL, D)
        else do {
          D1 \<leftarrow> (case pirq_tree D q of
                  None \<Rightarrow> Some D
                | Some i \<Rightarrow> pirq_cleanup_check (set_pirq D q (\<lambda>i. i\<lparr>hvm_emuirq := IRQ_UNBOUND\<rparr>)) q);
          Some (0, if emuirq \<noteq> IRQ_PT then D1\<lparr>emuirq_pirq := (emuirq_pirq D1)(emuirq := None)\<rparr> else D1)
        })"

section \<open>The list of physical-interrupt ports of a virtual CPU\<close>

definition link_pirq_port :: "xdomain \<Rightarrow> port \<Rightarrow> int \<Rightarrow> xdomain option" where
  "link_pirq_port D p v = do {
     V \<leftarrow> d_vcpu D v;
     let h = pirq_evtchn_head V;
     D1 \<leftarrow> upd_chn D p (\<lambda>c. c\<lparr>u_prev := 0, u_next := h\<rparr>);
     D2 \<leftarrow> (if h \<noteq> 0 then upd_chn D1 h (\<lambda>c. c\<lparr>u_prev := p\<rparr>) else Some D1);
     Some (put_vcpu D2 v (V\<lparr>pirq_evtchn_head := p\<rparr>))
   }"

definition unlink_pirq_port :: "xdomain \<Rightarrow> evtchn \<Rightarrow> int \<Rightarrow> xdomain option" where
  "unlink_pirq_port D c v = do {
     V \<leftarrow> d_vcpu D v;
     D1 \<leftarrow> (if u_prev c \<noteq> 0 then upd_chn D (u_prev c) (\<lambda>b. b\<lparr>u_next := u_next c\<rparr>)
            else Some (put_vcpu D v (V\<lparr>pirq_evtchn_head := u_next c\<rparr>)));
     (if u_next c \<noteq> 0 then upd_chn D1 (u_next c) (\<lambda>b. b\<lparr>u_prev := u_prev c\<rparr>) else Some D1)
   }"

section \<open>Allocating and binding ports\<close>

text \<open>
  Result of a hypercall: the return code, the port written back to the guest's structure when one
  is, and the new state.
\<close>

type_synonym ec_result = "int \<times> port option \<times> xen"

definition evtchn_alloc_unbound :: "ext \<Rightarrow> xen \<Rightarrow> domid \<Rightarrow> domid \<Rightarrow> domid \<Rightarrow> ec_result option" where
  "evtchn_alloc_unbound x s cur dm remote_dom = do {
     t \<leftarrow> rcu_lock_target_domain_by_id s cur dm;
     case t of
       Inl rc \<Rightarrow> Some (rc, None, s)
     | Inr d \<Rightarrow> do {
         D \<leftarrow> doms s d;
         let (p, D1) = get_free_port x D;
         let s1 = put_dom s d D1;
         if p < 0 then Some (p, None, s1)
         else do {
           let rc = xsm_evtchn_unbound x d p remote_dom;
           if rc \<noteq> 0 then Some (rc, None, s1)
           else do {
             D2 \<leftarrow> upd_chn D1 p (\<lambda>c. c\<lparr>ec_state := ECS_UNBOUND,
                     u_lo := (if remote_dom = DOMID_SELF then cur else remote_dom)\<rparr>);
             Some (0, Some p, put_dom s d D2)
           }
         }
       }
   }"

text \<open>The part of \<^verbatim>\<open>evtchn_bind_interdomain\<close> after the local port \<open>lport\<close> has been allocated.\<close>

definition bind_remote_port :: "ext \<Rightarrow> xen \<Rightarrow> domid \<Rightarrow> port \<Rightarrow> domid \<Rightarrow> port \<Rightarrow> ec_result option" where
  "bind_remote_port x s ld lport rd rport = do {
     R \<leftarrow> doms s rd;
     if \<not> port_is_valid R rport then Some (- EINVAL, None, s)
     else do {
       rchn \<leftarrow> evtchn_from_port R rport;
       if ec_state rchn \<noteq> ECS_UNBOUND \<or> u_lo rchn \<noteq> ld then Some (- EINVAL, None, s)
       else do {
         let rc = xsm_evtchn_interdomain x ld lport rd rport;
         if rc \<noteq> 0 then Some (rc, None, s)
         else do {
           L \<leftarrow> doms s ld;
           lchn \<leftarrow> evtchn_from_port L lport;
           let L1 = set_chn L lport (lchn\<lparr>u_dom := rd, u_lo := rport, ec_state := ECS_INTERDOMAIN\<rparr>);
           let s1 = put_dom s ld L1;
           R1 \<leftarrow> doms s1 rd;
           R2 \<leftarrow> upd_chn R1 rport (\<lambda>c. c\<lparr>u_dom := ld, u_lo := lport, ec_state := ECS_INTERDOMAIN\<rparr>);
           s2 \<leftarrow> evtchn_set_pending x (put_dom s1 rd R2) ld (notify_vcpu_id lchn) lport;
           Some (0, Some lport, s2)
         }
       }
     }
   }"

definition evtchn_bind_interdomain :: "ext \<Rightarrow> xen \<Rightarrow> domid \<Rightarrow> domid \<Rightarrow> port \<Rightarrow> ec_result option" where
  "evtchn_bind_interdomain x s ld remote_dom rport =
     (let rdom = (if remote_dom = DOMID_SELF then ld else remote_dom) in
      case rcu_lock_domain_by_id s rdom of
        None \<Rightarrow> Some (- ESRCH, None, s)
      | Some rd \<Rightarrow> do {
          L \<leftarrow> doms s ld;
          let (lport, L1) = get_free_port x L;
          if lport < 0 then Some (lport, None, put_dom s ld L1)
          else bind_remote_port x (put_dom s ld L1) ld lport rd rport
        })"

definition evtchn_bind_virq :: "ext \<Rightarrow> xen \<Rightarrow> domid \<Rightarrow> int \<Rightarrow> int \<Rightarrow> ec_result option" where
  "evtchn_bind_virq x s d virq v =
     (if virq < 0 \<or> virq \<ge> NR_VIRQS then Some (- EINVAL, None, s)
      else do {
        global \<leftarrow> virq_is_global virq;
        if global \<and> v \<noteq> 0 then Some (- EINVAL, None, s)
        else do {
          D \<leftarrow> doms s d;
          if v < 0 \<or> v \<ge> max_vcpus D then Some (- ENOENT, None, s)
          else case d_vcpu D v of
                 None \<Rightarrow> Some (- ENOENT, None, s)
               | Some V \<Rightarrow>
                   if virq_to_evtchn V virq \<noteq> 0 then Some (- EEXIST, None, s)
                   else do {
                     let (p, D1) = get_free_port x D;
                     if p < 0 then Some (p, None, put_dom s d D1)
                     else do {
                       D2 \<leftarrow> upd_chn D1 p (\<lambda>c. c\<lparr>ec_state := ECS_VIRQ, notify_vcpu_id := v, u_lo := virq\<rparr>);
                       let D3 = put_vcpu D2 v (V\<lparr>virq_to_evtchn := (virq_to_evtchn V)(virq := p)\<rparr>);
                       Some (0, Some p, put_dom s d D3)
                     }
                   }
        }
      })"

definition evtchn_bind_ipi :: "ext \<Rightarrow> xen \<Rightarrow> domid \<Rightarrow> int \<Rightarrow> ec_result option" where
  "evtchn_bind_ipi x s d v = do {
     D \<leftarrow> doms s d;
     if v < 0 \<or> v \<ge> max_vcpus D \<or> d_vcpu D v = None then Some (- ENOENT, None, s)
     else do {
       let (p, D1) = get_free_port x D;
       if p < 0 then Some (p, None, put_dom s d D1)
       else do {
         D2 \<leftarrow> upd_chn D1 p (\<lambda>c. c\<lparr>ec_state := ECS_IPI, notify_vcpu_id := v\<rparr>);
         Some (0, Some p, put_dom s d D2)
       }
     }
   }"

text \<open>
  The part of \<^verbatim>\<open>evtchn_bind_pirq\<close> after a free port has been found: the structure of the interrupt
  takes the port, the guest is bound to the interrupt line, and the channel is linked to virtual CPU 0.
\<close>

definition bind_pirq_port ::
    "ext \<Rightarrow> xen \<Rightarrow> domid \<Rightarrow> xdomain \<Rightarrow> int \<Rightarrow> bool \<Rightarrow> port \<Rightarrow> ec_result option" where
  "bind_pirq_port x s d D1 q will_share p =
     (case pirq_get_info x D1 q of
        (None, D2) \<Rightarrow> Some (- ENOMEM, None, put_dom s d D2)
      | (Some i, D2) \<Rightarrow> do {
          let D3 = set_pirq D2 q (\<lambda>i. i\<lparr>pirq_evtchn := p\<rparr>);
          let rc = (if \<not> is_hvm D1 then pirq_guest_bind x d q will_share else 0);
          let s1 = (if \<not> is_hvm D1 then emit s (Pirq_guest_bind d q will_share) else s);
          if rc \<noteq> 0 then do {
            D4 \<leftarrow> pirq_cleanup_check (set_pirq D3 q (\<lambda>i. i\<lparr>pirq_evtchn := 0\<rparr>)) q;
            Some (rc, None, put_dom s1 d D4)
          }
          else do {
            D4 \<leftarrow> upd_chn D3 p (\<lambda>c. c\<lparr>ec_state := ECS_PIRQ, u_lo := q\<rparr>);
            D5 \<leftarrow> link_pirq_port D4 p 0;
            (_, D6) \<leftarrow> (if is_hvm D5 \<and> domain_pirq_to_irq D5 q > 0
                       then map_domain_emuirq_pirq x D5 q IRQ_PT else Some (0, D5));
            Some (0, Some p, put_dom s1 d D6)
          }
        })"

definition evtchn_bind_pirq :: "ext \<Rightarrow> xen \<Rightarrow> domid \<Rightarrow> int \<Rightarrow> bool \<Rightarrow> ec_result option" where
  "evtchn_bind_pirq x s d q will_share = do {
     D \<leftarrow> doms s d;
     if q < 0 \<or> q \<ge> nr_pirqs D then Some (- EINVAL, None, s)
     else do {
       permitted \<leftarrow> (if is_hvm D then Some True
         else pirq_access_permitted (\<lambda>n. domain_pirq_to_irq D (int n)) (d_caps D) (nat q));
       if \<not> permitted then Some (- EPERM, None, s)
       else if pirq_to_evtchn D q \<noteq> 0 then Some (- EEXIST, None, s)
       else
         (case get_free_port x D of
            (p, D1) \<Rightarrow>
              if p < 0 then Some (p, None, put_dom s d D1)
              else bind_pirq_port x s d D1 q will_share p)
     }
   }"

section \<open>Closing a port\<close>

definition close_pirq :: "xen \<Rightarrow> domid \<Rightarrow> evtchn \<Rightarrow> xen option" where
  "close_pirq s d c = do {
     D \<leftarrow> doms s d;
     case pirq_tree D (u_lo c) of
       None \<Rightarrow> Some s
     | Some i \<Rightarrow> do {
         let s1 = (if \<not> is_hvm D then emit s (Pirq_guest_unbind d (u_lo c)) else s);
         D1 \<leftarrow> pirq_cleanup_check (set_pirq D (u_lo c) (\<lambda>i. i\<lparr>pirq_evtchn := 0\<rparr>)) (u_lo c);
         D2 \<leftarrow> unlink_pirq_port D1 c (notify_vcpu_id c);
         (_, D3) \<leftarrow> (if is_hvm D2 \<and> domain_pirq_to_irq D2 (u_lo c) > 0
                    then unmap_domain_pirq_emuirq D2 (u_lo c) else Some (0, D2));
         Some (put_dom s1 d D3)
       }
   }"

definition clear_virq :: "int \<Rightarrow> port \<Rightarrow> int \<Rightarrow> xdomain \<Rightarrow> xdomain option" where
  "clear_virq virq p v D = do {
     V \<leftarrow> d_vcpu D v;
     Some (if virq_to_evtchn V virq \<noteq> p then D
           else put_vcpu D v (V\<lparr>virq_to_evtchn := (virq_to_evtchn V)(virq := 0)\<rparr>))
   }"

definition close_peer :: "xen \<Rightarrow> domid \<Rightarrow> domid \<Rightarrow> port \<Rightarrow> xen option" where
  "close_peer s d1 d2 port2 = do {
     D2 \<leftarrow> doms s d2;
     bug_on (\<not> port_is_valid D2 port2);
     c2 \<leftarrow> evtchn_from_port D2 port2;
     bug_on (ec_state c2 \<noteq> ECS_INTERDOMAIN);
     bug_on (u_dom c2 \<noteq> d1);
     Some (put_dom s d2 (set_chn D2 port2 (c2\<lparr>ec_state := ECS_UNBOUND, u_lo := d1\<rparr>)))
   }"

definition close_free :: "xen \<Rightarrow> domid \<Rightarrow> port \<Rightarrow> xen option" where
  "close_free s d p = do {
     D \<leftarrow> doms s d;
     D1 \<leftarrow> upd_chn (D\<lparr>evtchn_pending := (evtchn_pending D)(p := False)\<rparr>) p
             (\<lambda>c. c\<lparr>ec_state := ECS_FREE, notify_vcpu_id := 0\<rparr>);
     Some (emit (put_dom s d D1) (Xsm_evtchn_close_post d p))
   }"

text \<open>
  One pass from the label \<^verbatim>\<open>again\<close>: \<open>d2\<close> is the local variable, and a result \<open>None\<close> for the return
  code is the jump back to \<^verbatim>\<open>again\<close> with the lock of the first domain dropped.
\<close>

definition evtchn_close_pass ::
    "ext \<Rightarrow> xen \<Rightarrow> domid \<Rightarrow> port \<Rightarrow> domid option \<Rightarrow> (int option \<times> domid option \<times> xen) option" where
  "evtchn_close_pass x s d1 p1 d2 = do {
     D1 \<leftarrow> doms s d1;
     if \<not> port_is_valid D1 p1 then Some (Some (- EINVAL), d2, s)
     else do {
       c1 \<leftarrow> evtchn_from_port D1 p1;
       if consumer_is_xen c1 then Some (Some (- EINVAL), d2, s)
       else case ec_state c1 of
         ECS_FREE \<Rightarrow> Some (Some (- EINVAL), d2, s)
       | ECS_RESERVED \<Rightarrow> Some (Some (- EINVAL), d2, s)
       | ECS_UNBOUND \<Rightarrow> do { s1 \<leftarrow> close_free s d1 p1; Some (Some 0, d2, s1) }
       | ECS_IPI \<Rightarrow> do { s1 \<leftarrow> close_free s d1 p1; Some (Some 0, d2, s1) }
       | ECS_PIRQ \<Rightarrow> do { s1 \<leftarrow> close_pirq s d1 c1; s2 \<leftarrow> close_free s1 d1 p1; Some (Some 0, d2, s2) }
       | ECS_VIRQ \<Rightarrow> do {
           D2 \<leftarrow> foldM (clear_virq (u_lo c1) p1) (vcpu_list D1) D1;
           s2 \<leftarrow> close_free (put_dom s d1 D2) d1 p1;
           Some (Some 0, d2, s2)
         }
       | ECS_INTERDOMAIN \<Rightarrow>
           (case d2 of
              None \<Rightarrow> do {
                let r = u_dom c1;
                s1 \<leftarrow> get_domain s r;
                if \<not> dom_before x d1 r \<and> d1 \<noteq> r then Some (None, Some r, s1)
                else do {
                  s2 \<leftarrow> close_peer s1 d1 r (u_lo c1);
                  s3 \<leftarrow> close_free s2 d1 p1;
                  Some (Some 0, Some r, s3)
                }
              }
            | Some r \<Rightarrow>
                if r \<noteq> u_dom c1 then Some (Some (- EINVAL), d2, s)
                else do {
                  s2 \<leftarrow> close_peer s d1 r (u_lo c1);
                  s3 \<leftarrow> close_free s2 d1 p1;
                  Some (Some 0, d2, s3)
                })
     }
   }"

text \<open>The label \<^verbatim>\<open>out\<close>: the reference to the second domain is dropped.\<close>

definition evtchn_close_out :: "xen \<Rightarrow> domid option \<Rightarrow> xen option" where
  "evtchn_close_out s d2 = (case d2 of None \<Rightarrow> Some s | Some r \<Rightarrow> put_domain s r)"

definition evtchn_close_with :: "ext \<Rightarrow> xen \<Rightarrow> domid \<Rightarrow> port \<Rightarrow> domid option \<Rightarrow> (int \<times> xen) option" where
  "evtchn_close_with x s d1 p1 d2 = do {
     (r, d2', s1) \<leftarrow> evtchn_close_pass x s d1 p1 d2;
     rc \<leftarrow> r;
     s2 \<leftarrow> evtchn_close_out s1 d2';
     Some (rc, s2)
   }"

text \<open>The whole function when nothing else runs between the two passes.\<close>

definition evtchn_close' :: "ext \<Rightarrow> xen \<Rightarrow> domid \<Rightarrow> port \<Rightarrow> (int \<times> xen) option" where
  "evtchn_close' x s d1 p1 = do {
     (r, d2, s1) \<leftarrow> evtchn_close_pass x s d1 p1 None;
     case r of
       Some rc \<Rightarrow> do { s2 \<leftarrow> evtchn_close_out s1 d2; Some (rc, s2) }
     | None \<Rightarrow> evtchn_close_with x s1 d1 p1 d2
   }"

definition evtchn_close :: "ext \<Rightarrow> xen \<Rightarrow> domid \<Rightarrow> port \<Rightarrow> (int \<times> xen) option" where
  "evtchn_close x s cur p = evtchn_close' x s cur p"

section \<open>Sending\<close>

definition evtchn_send :: "ext \<Rightarrow> xen \<Rightarrow> domid \<Rightarrow> port \<Rightarrow> (int \<times> xen) option" where
  "evtchn_send x s ld lport = do {
     L \<leftarrow> doms s ld;
     if \<not> port_is_valid L lport then Some (- EINVAL, s)
     else do {
       lchn \<leftarrow> evtchn_from_port L lport;
       if consumer_is_xen lchn then Some (- EINVAL, s)
       else do {
         let ret = xsm_evtchn_send x ld lport;
         if ret \<noteq> 0 then Some (ret, s)
         else case ec_state lchn of
           ECS_INTERDOMAIN \<Rightarrow> do {
             R \<leftarrow> doms s (u_dom lchn);
             rchn \<leftarrow> evtchn_from_port R (u_lo lchn);
             s1 \<leftarrow> (if consumer_is_xen rchn
                    then xen_notification_fn x s rchn (u_dom lchn) (notify_vcpu_id rchn) (u_lo lchn)
                    else evtchn_set_pending x s (u_dom lchn) (notify_vcpu_id rchn) (u_lo lchn));
             Some (0, s1)
           }
         | ECS_IPI \<Rightarrow> do {
             s1 \<leftarrow> evtchn_set_pending x s ld (notify_vcpu_id lchn) lport;
             Some (0, s1)
           }
         | ECS_UNBOUND \<Rightarrow> Some (0, s)
         | _ \<Rightarrow> Some (- EINVAL, s)
       }
     }
   }"

definition guest_enabled_event :: "vcpu option \<Rightarrow> int \<Rightarrow> bool" where
  "guest_enabled_event v virq = (case v of None \<Rightarrow> False | Some V \<Rightarrow> virq_to_evtchn V virq \<noteq> 0)"

definition send_guest_vcpu_virq :: "ext \<Rightarrow> xen \<Rightarrow> domid \<Rightarrow> int \<Rightarrow> int \<Rightarrow> xen option" where
  "send_guest_vcpu_virq x s d v virq = do {
     global \<leftarrow> virq_is_global virq;
     assert_that (\<not> global);
     V \<leftarrow> get_vcpu s d v;
     let p = virq_to_evtchn V virq;
     if p = 0 then Some s else evtchn_set_pending x s d v p
   }"

definition send_guest_global_virq :: "ext \<Rightarrow> xen \<Rightarrow> domid option \<Rightarrow> int \<Rightarrow> xen option" where
  "send_guest_global_virq x s d virq = do {
     global \<leftarrow> virq_is_global virq;
     assert_that global;
     case d of
       None \<Rightarrow> Some s
     | Some d \<Rightarrow> do {
         D \<leftarrow> doms s d;
         case d_vcpu D 0 of
           None \<Rightarrow> Some s
         | Some V \<Rightarrow>
             let p = virq_to_evtchn V virq in
             if p = 0 then Some s
             else do {
               c \<leftarrow> evtchn_from_port D p;
               evtchn_set_pending x s d (notify_vcpu_id c) p
             }
       }
   }"

definition send_guest_pirq :: "ext \<Rightarrow> xen \<Rightarrow> domid \<Rightarrow> pirq option \<Rightarrow> xen option" where
  "send_guest_pirq x s d i = do {
     D \<leftarrow> doms s d;
     let p = (case i of None \<Rightarrow> 0 | Some i \<Rightarrow> pirq_evtchn i);
     if p = 0 then do { bug_on (\<not> is_hvm D); Some s }
     else do {
       c \<leftarrow> evtchn_from_port D p;
       evtchn_set_pending x s d (notify_vcpu_id c) p
     }
   }"

section \<open>Handlers of global virtual interrupts\<close>

definition dom0 :: "xen \<Rightarrow> domid option" where
  "dom0 s = (case doms s 0 of None \<Rightarrow> None | Some _ \<Rightarrow> Some 0)"

definition send_global_virq :: "ext \<Rightarrow> xen \<Rightarrow> int \<Rightarrow> xen option" where
  "send_global_virq x s virq = do {
     assert_that (virq < NR_VIRQS);
     global \<leftarrow> virq_is_global virq;
     assert_that global;
     send_guest_global_virq x s
       (case global_virq_handlers s virq of None \<Rightarrow> dom0 s | Some d \<Rightarrow> Some d) virq
   }"

definition set_global_virq_handler :: "xen \<Rightarrow> domid \<Rightarrow> int \<Rightarrow> (int \<times> xen) option" where
  "set_global_virq_handler s d virq =
     (if virq \<ge> NR_VIRQS then Some (- EINVAL, s)
      else do {
        global \<leftarrow> virq_is_global virq;
        if \<not> global then Some (- EINVAL, s)
        else if global_virq_handlers s virq = Some d then Some (0, s)
        else case get_domain s d of
               None \<Rightarrow> Some (- EINVAL, s)
             | Some s1 \<Rightarrow> do {
                 let s2 = s1\<lparr>global_virq_handlers := (global_virq_handlers s1)(virq := Some d)\<rparr>;
                 s3 \<leftarrow> (case global_virq_handlers s1 virq of None \<Rightarrow> Some s2 | Some old \<Rightarrow> put_domain s2 old);
                 Some (0, s3)
               }
      })"

definition clear_global_virq_handlers :: "xen \<Rightarrow> domid \<Rightarrow> xen option" where
  "clear_global_virq_handlers s d =
     (let virqs = filter (\<lambda>q. global_virq_handlers s q = Some d) [0..NR_VIRQS - 1];
          s1 = s\<lparr>global_virq_handlers := (\<lambda>q. if q \<in> set virqs then None else global_virq_handlers s q)\<rparr>
      in foldM (\<lambda>_ s. put_domain s d) virqs s1)"

section \<open>Status, delivery target and mask\<close>

datatype evtchn_stat =
    EVTCHNSTAT_closed
  | EVTCHNSTAT_unbound domid
  | EVTCHNSTAT_interdomain domid port
  | EVTCHNSTAT_pirq int
  | EVTCHNSTAT_virq int
  | EVTCHNSTAT_ipi

definition chn_status :: "evtchn \<Rightarrow> evtchn_stat" where
  "chn_status c =
     (case ec_state c of
        ECS_FREE \<Rightarrow> EVTCHNSTAT_closed
      | ECS_RESERVED \<Rightarrow> EVTCHNSTAT_closed
      | ECS_UNBOUND \<Rightarrow> EVTCHNSTAT_unbound (u_lo c)
      | ECS_INTERDOMAIN \<Rightarrow> EVTCHNSTAT_interdomain (u_dom c) (u_lo c)
      | ECS_PIRQ \<Rightarrow> EVTCHNSTAT_pirq (u_lo c)
      | ECS_VIRQ \<Rightarrow> EVTCHNSTAT_virq (u_lo c)
      | ECS_IPI \<Rightarrow> EVTCHNSTAT_ipi)"

definition evtchn_status ::
    "ext \<Rightarrow> xen \<Rightarrow> domid \<Rightarrow> domid \<Rightarrow> port \<Rightarrow> (int \<times> (evtchn_stat \<times> int) option) option" where
  "evtchn_status x s cur dm p = do {
     t \<leftarrow> rcu_lock_target_domain_by_id s cur dm;
     case t of
       Inl rc \<Rightarrow> Some (rc, None)
     | Inr d \<Rightarrow> do {
         D \<leftarrow> doms s d;
         if \<not> port_is_valid D p then Some (- EINVAL, None)
         else do {
           c \<leftarrow> evtchn_from_port D p;
           let rc = xsm_evtchn_status x d p;
           if rc \<noteq> 0 then Some (rc, None)
           else Some (0, Some (chn_status c, notify_vcpu_id c))
         }
       }
   }"

definition evtchn_bind_vcpu :: "xen \<Rightarrow> domid \<Rightarrow> port \<Rightarrow> int \<Rightarrow> (int \<times> xen) option" where
  "evtchn_bind_vcpu s d p v = do {
     D \<leftarrow> doms s d;
     case (if v \<ge> max_vcpus D then None else d_vcpu D v) of
       None \<Rightarrow> Some (- ENOENT, s)
     | Some V \<Rightarrow>
         if \<not> port_is_valid D p then Some (- EINVAL, s)
         else do {
           c \<leftarrow> evtchn_from_port D p;
           let retarget = put_dom s d (set_chn D p (c\<lparr>notify_vcpu_id := v\<rparr>));
           if consumer_is_xen c then Some (- EINVAL, s)
           else case ec_state c of
             ECS_VIRQ \<Rightarrow> do {
               global \<leftarrow> virq_is_global (u_lo c);
               Some (if global then (0, retarget) else (- EINVAL, s))
             }
           | ECS_UNBOUND \<Rightarrow> Some (0, retarget)
           | ECS_INTERDOMAIN \<Rightarrow> Some (0, retarget)
           | ECS_PIRQ \<Rightarrow>
               if notify_vcpu_id c = v then Some (0, s)
               else do {
                 D1 \<leftarrow> unlink_pirq_port D c (notify_vcpu_id c);
                 D2 \<leftarrow> upd_chn D1 p (\<lambda>c. c\<lparr>notify_vcpu_id := v\<rparr>);
                 D3 \<leftarrow> link_pirq_port D2 p v;
                 Some (0, put_dom (emit s (Pirq_set_affinity d (u_lo c) (processor V))) d D3)
               }
           | _ \<Rightarrow> Some (- EINVAL, s)
         }
   }"

definition evtchn_unmask :: "xen \<Rightarrow> domid \<Rightarrow> port \<Rightarrow> (int \<times> xen) option" where
  "evtchn_unmask s d p = do {
     D \<leftarrow> doms s d;
     if \<not> port_is_valid D p then Some (- EINVAL, s)
     else do {
       c \<leftarrow> evtchn_from_port D p;
       let v = notify_vcpu_id c;
       let w = p div BITS_PER_EVTCHN_WORD D;
       let D1 = D\<lparr>evtchn_mask := (evtchn_mask D)(p := False)\<rparr>;
       if evtchn_mask D p \<and> evtchn_pending D p then do {
         V \<leftarrow> d_vcpu D v;
         if evtchn_pending_sel V w then Some (0, put_dom s d D1)
         else do {
           s1 \<leftarrow> vcpu_mark_events_pending (put_dom s d (put_vcpu D1 v
                  (V\<lparr>evtchn_pending_sel := (evtchn_pending_sel V)(w := True)\<rparr>))) d v;
           Some (0, s1)
         }
       }
       else Some (0, put_dom s d D1)
     }
   }"

section \<open>Reset\<close>

function close_ports_from :: "ext \<Rightarrow> xen \<Rightarrow> domid \<Rightarrow> port \<Rightarrow> xen option" where
  "close_ports_from x s d i =
     (case doms s d of
        None \<Rightarrow> None
      | Some D \<Rightarrow>
          if port_is_valid D i then
            (case evtchn_close' x s d i of
               None \<Rightarrow> None
             | Some (_, s1) \<Rightarrow> close_ports_from x s1 d (i + 1))
          else Some s)"
  by pat_completeness auto
termination
  by (relation "measure (\<lambda>(x, s, d, i). nat (4096 - i))") (auto dest: port_is_valid_max)

declare close_ports_from.simps [simp del]

definition evtchn_reset :: "ext \<Rightarrow> xen \<Rightarrow> domid \<Rightarrow> domid \<Rightarrow> (int \<times> xen) option" where
  "evtchn_reset x s cur dm = do {
     t \<leftarrow> rcu_lock_target_domain_by_id s cur dm;
     case t of
       Inl rc \<Rightarrow> Some (rc, s)
     | Inr d \<Rightarrow> do {
         let rc = xsm_evtchn_reset x cur d;
         if rc \<noteq> 0 then Some (rc, s)
         else do { s1 \<leftarrow> close_ports_from x s d 0; Some (0, s1) }
       }
   }"

section \<open>The hypercall\<close>

datatype evtchn_op =
    EVTCHNOP_bind_interdomain domid port
  | EVTCHNOP_bind_virq int int
  | EVTCHNOP_bind_pirq int bool
  | EVTCHNOP_close port
  | EVTCHNOP_send port
  | EVTCHNOP_status domid port
  | EVTCHNOP_alloc_unbound domid domid
  | EVTCHNOP_bind_ipi int
  | EVTCHNOP_bind_vcpu port int
  | EVTCHNOP_unmask port
  | EVTCHNOP_reset domid
  | EVTCHNOP_unknown

text \<open>
  What the guest sees: the return code and, when the structure is copied back, the port or the
  status in it. \<open>from_ok\<close> and \<open>to_ok\<close> say whether the copies from and to the guest succeed.
\<close>

datatype op_out = No_out | Out_port port | Out_status evtchn_stat int

definition copy_back :: "bool \<Rightarrow> ec_result \<Rightarrow> int \<times> op_out \<times> xen" where
  "copy_back to_ok r =
     (case r of
        (rc, Some p, s) \<Rightarrow> if rc = 0 \<and> \<not> to_ok then (- EFAULT, No_out, s)
                          else if rc = 0 then (rc, Out_port p, s) else (rc, No_out, s)
      | (rc, None, s) \<Rightarrow> (if rc = 0 \<and> \<not> to_ok then - EFAULT else rc, No_out, s))"

definition do_event_channel_op ::
    "ext \<Rightarrow> xen \<Rightarrow> domid \<Rightarrow> bool \<Rightarrow> bool \<Rightarrow> evtchn_op \<Rightarrow> (int \<times> op_out \<times> xen) option" where
  "do_event_channel_op x s cur from_ok to_ok op =
     (if op = EVTCHNOP_unknown then Some (- ENOSYS, No_out, s)
      else if \<not> from_ok then Some (- EFAULT, No_out, s)
      else case op of
        EVTCHNOP_alloc_unbound dm remote \<Rightarrow> map_option (copy_back to_ok) (evtchn_alloc_unbound x s cur dm remote)
      | EVTCHNOP_bind_interdomain remote p \<Rightarrow> map_option (copy_back to_ok) (evtchn_bind_interdomain x s cur remote p)
      | EVTCHNOP_bind_virq q v \<Rightarrow> map_option (copy_back to_ok) (evtchn_bind_virq x s cur q v)
      | EVTCHNOP_bind_ipi v \<Rightarrow> map_option (copy_back to_ok) (evtchn_bind_ipi x s cur v)
      | EVTCHNOP_bind_pirq q share \<Rightarrow> map_option (copy_back to_ok) (evtchn_bind_pirq x s cur q share)
      | EVTCHNOP_close p \<Rightarrow> map_option (\<lambda>(rc, s). (rc, No_out, s)) (evtchn_close x s cur p)
      | EVTCHNOP_send p \<Rightarrow> map_option (\<lambda>(rc, s). (rc, No_out, s)) (evtchn_send x s cur p)
      | EVTCHNOP_status dm p \<Rightarrow>
          map_option (\<lambda>(rc, st). (if rc = 0 \<and> \<not> to_ok then - EFAULT else rc,
            (case st of Some (t, v) \<Rightarrow> if to_ok then Out_status t v else No_out | None \<Rightarrow> No_out), s))
            (evtchn_status x s cur dm p)
      | EVTCHNOP_bind_vcpu p v \<Rightarrow> map_option (\<lambda>(rc, s). (rc, No_out, s)) (evtchn_bind_vcpu s cur p v)
      | EVTCHNOP_unmask p \<Rightarrow> map_option (\<lambda>(rc, s). (rc, No_out, s)) (evtchn_unmask s cur p)
      | EVTCHNOP_reset dm \<Rightarrow> map_option (\<lambda>(rc, s). (rc, No_out, s)) (evtchn_reset x s cur dm)
      | EVTCHNOP_unknown \<Rightarrow> None)"

section \<open>Channels attached to Xen\<close>

definition alloc_unbound_xen_event_channel ::
    "ext \<Rightarrow> xen \<Rightarrow> domid \<Rightarrow> int \<Rightarrow> domid \<Rightarrow> xen_notification option \<Rightarrow> (int \<times> xen) option" where
  "alloc_unbound_xen_event_channel x s d v remote_domid fn = do {
     D \<leftarrow> doms s d;
     let (p, D1) = get_free_port x D;
     if p < 0 then Some (p, put_dom s d D1)
     else do {
       let rc = xsm_evtchn_unbound x d p remote_domid;
       (k, s1) \<leftarrow> get_xen_consumer s fn;
       D2 \<leftarrow> upd_chn D1 p (\<lambda>c. c\<lparr>ec_state := ECS_UNBOUND, xen_consumer := k, notify_vcpu_id := v,
               u_lo := (if rc = 0 then remote_domid else DOMID_INVALID)\<rparr>);
       Some (p, put_dom s1 d D2)
     }
   }"

definition free_xen_event_channel :: "ext \<Rightarrow> xen \<Rightarrow> domid \<Rightarrow> port \<Rightarrow> xen option" where
  "free_xen_event_channel x s d p = do {
     D \<leftarrow> doms s d;
     if is_dying D then Some s
     else do {
       bug_on (\<not> port_is_valid D p);
       c \<leftarrow> evtchn_from_port D p;
       bug_on (\<not> consumer_is_xen c);
       (_, s1) \<leftarrow> evtchn_close' x (put_dom s d (set_chn D p (c\<lparr>xen_consumer := 0\<rparr>))) d p;
       Some s1
     }
   }"

definition notify_via_xen_event_channel :: "ext \<Rightarrow> xen \<Rightarrow> domid \<Rightarrow> port \<Rightarrow> xen option" where
  "notify_via_xen_event_channel x s ld lport = do {
     L \<leftarrow> doms s ld;
     if is_dying L then Some s
     else do {
       assert_that (port_is_valid L lport);
       lchn \<leftarrow> evtchn_from_port L lport;
       assert_that (consumer_is_xen lchn);
       if ec_state lchn = ECS_INTERDOMAIN then do {
         R \<leftarrow> doms s (u_dom lchn);
         rchn \<leftarrow> evtchn_from_port R (u_lo lchn);
         evtchn_set_pending x s (u_dom lchn) (notify_vcpu_id rchn) (u_lo lchn)
       }
       else Some s
     }
   }"

section \<open>Life cycle and migration\<close>

definition evtchn_init :: "ext \<Rightarrow> bool \<Rightarrow> xdomain \<Rightarrow> (int \<times> xdomain) option" where
  "evtchn_init x poll_mask_ok D =
     (case get_free_port x D of
        (p, D1) \<Rightarrow>
          if p \<noteq> 0 then Some (- EINVAL, D1)
          else do {
            D2 \<leftarrow> upd_chn D1 0 (\<lambda>c. c\<lparr>ec_state := ECS_RESERVED\<rparr>);
            if \<not> poll_mask_ok then Some (- ENOMEM, D2)
            else Some (0, D2\<lparr>poll_mask := (\<lambda>_. False)\<rparr>)
          })"

function destroy_ports_from :: "ext \<Rightarrow> xen \<Rightarrow> domid \<Rightarrow> port \<Rightarrow> xen option" where
  "destroy_ports_from x s d i =
     (case doms s d of
        None \<Rightarrow> None
      | Some D \<Rightarrow>
          if port_is_valid D i then
            (case upd_chn D i (\<lambda>c. c\<lparr>xen_consumer := 0\<rparr>) of
               None \<Rightarrow> None
             | Some D1 \<Rightarrow>
                 (case evtchn_close' x (put_dom s d D1) d i of
                    None \<Rightarrow> None
                  | Some (_, s1) \<Rightarrow> destroy_ports_from x s1 d (i + 1)))
          else Some s)"
  by pat_completeness auto
termination
  by (relation "measure (\<lambda>(x, s, d, i). nat (4096 - i))") (auto dest: port_is_valid_max)

declare destroy_ports_from.simps [simp del]

definition evtchn_destroy :: "ext \<Rightarrow> xen \<Rightarrow> domid \<Rightarrow> xen option" where
  "evtchn_destroy x s d = do {
     D \<leftarrow> doms s d;
     bug_on (\<not> is_dying D);
     s1 \<leftarrow> destroy_ports_from x s d 0;
     D1 \<leftarrow> doms s1 d;
     let D2 = D1\<lparr>d_evtchn := (\<lambda>i. if 0 \<le> i \<and> i < NR_EVTCHN_BUCKETS then None else d_evtchn D1 i)\<rparr>;
     clear_global_virq_handlers (put_dom s1 d D2) d
   }"

partial_function (option) move_pirqs_from :: "xen \<Rightarrow> domid \<Rightarrow> int \<Rightarrow> port \<Rightarrow> xen option" where
  "move_pirqs_from s d cpu p =
     (if p = 0 then Some s
      else Option.bind (Option.bind (doms s d) (\<lambda>D. evtchn_from_port D p))
        (\<lambda>c. move_pirqs_from (emit s (Pirq_set_affinity d (u_lo c) cpu)) d cpu (u_next c)))"

definition evtchn_move_pirqs :: "xen \<Rightarrow> domid \<Rightarrow> int \<Rightarrow> xen option" where
  "evtchn_move_pirqs s d v = do {
     V \<leftarrow> get_vcpu s d v;
     move_pirqs_from s d (processor V) (pirq_evtchn_head V)
   }"

end
