(* ===== verification/Vcpu_Facts.thy ===== *)
theory Vcpu_Facts
  imports Evtchn
begin

text \<open>
  What waking and unblocking a virtual CPU leave alone. \<open>strip\<close> forgets the run-state accounting
  of a virtual CPU; \<open>same_ec\<close> relates two states that agree on everything event channels are
  recorded in.
\<close>

section \<open>Run-state accounting\<close>

definition strip :: "vcpu \<Rightarrow> vcpu" where
  "strip V = V\<lparr>runstate_state := RUNSTATE_running, state_entry_time := 0,
     runstate_time := (\<lambda>_. 0), is_urgent := False\<rparr>"

lemma strip_eqD:
  assumes "strip V = strip W"
  shows "processor V = processor W" "pause_flags V = pause_flags W"
    "v_pause_count V = v_pause_count W" "poll_evtchn V = poll_evtchn W"
    "virq_to_evtchn V = virq_to_evtchn W" "pirq_evtchn_head V = pirq_evtchn_head W"
    "evtchn_upcall_pending V = evtchn_upcall_pending W"
    "evtchn_upcall_mask V = evtchn_upcall_mask W"
    "evtchn_pending_sel V = evtchn_pending_sel W"
  using assms by (cases V; cases W; simp add: strip_def)+

lemma strip_enter_runstate [simp]: "strip (enter_runstate r t V) = strip V"
  by (simp add: strip_def enter_runstate_def Let_def)

lemma strip_urgent [simp]: "strip (V\<lparr>is_urgent := b\<rparr>) = strip V"
  by (simp add: strip_def)

text \<open>Replacing a virtual CPU by itself, and replacing it twice.\<close>

lemma put_vcpu_same [simp]: "d_vcpu D v = Some V \<Longrightarrow> put_vcpu D v V = D"
  by (simp add: put_vcpu_def fun_upd_idem)

lemma put_vcpu_twice [simp]: "put_vcpu (put_vcpu D v V) v W = put_vcpu D v W"
  by (simp add: put_vcpu_def)

lemma put_dom_same [simp]: "doms s d = Some D \<Longrightarrow> put_dom s d D = s"
  by (simp add: put_dom_def fun_upd_idem)

lemma put_dom_twice [simp]: "put_dom (put_dom s d D) d E = put_dom s d E"
  by (simp add: put_dom_def)

text \<open>
  The state with one virtual CPU replaced: what waking does, up to run-state accounting, the
  urgent counters and the log.
\<close>

definition woken :: "xen \<Rightarrow> domid \<Rightarrow> xdomain \<Rightarrow> int \<Rightarrow> vcpu \<Rightarrow> xen \<Rightarrow> bool" where
  "woken s d D v V s' \<longleftrightarrow>
     (\<exists>W. doms s' = (doms s)(d := Some (put_vcpu D v W)) \<and> strip W = strip V) \<and>
     xen_consumers s' = xen_consumers s \<and> global_virq_handlers s' = global_virq_handlers s"

lemma vcpu_urgent_count_update_woken:
  assumes "doms s d = Some D" "d_vcpu D v = Some V"
  shows "\<exists>s' W. vcpu_urgent_count_update s d v = Some s' \<and>
    doms s' = (doms s)(d := Some (put_vcpu D v W)) \<and> strip W = strip V \<and>
    runstate_state W = runstate_state V \<and>
    xen_consumers s' = xen_consumers s \<and> global_virq_handlers s' = global_virq_handlers s \<and>
    effects s' = effects s"
  using assms
  by (auto simp: vcpu_urgent_count_update_def fun_upd_idem intro: exI [of _ V]
      exI [of _ "V\<lparr>is_urgent := False\<rparr>"] exI [of _ "V\<lparr>is_urgent := True\<rparr>"])

lemma vcpu_runstate_change_woken:
  assumes "doms s d = Some D" "d_vcpu D v = Some V" "runstate_state V \<noteq> r"
  shows "\<exists>s'. vcpu_runstate_change s d v r t = Some s' \<and> woken s d D v V s' \<and> effects s' = effects s"
proof -
  obtain s1 W where u: "vcpu_urgent_count_update s d v = Some s1"
      "doms s1 = (doms s)(d := Some (put_vcpu D v W))" "strip W = strip V"
      "xen_consumers s1 = xen_consumers s" "global_virq_handlers s1 = global_virq_handlers s"
      "effects s1 = effects s"
    using vcpu_urgent_count_update_woken [OF assms(1,2)] by blast
  show ?thesis using assms u
    by (auto simp: vcpu_runstate_change_def upd_vcpu_def woken_def
        intro!: exI [of _ "enter_runstate r t W"])
qed

lemma woken_refl: "doms s d = Some D \<Longrightarrow> d_vcpu D v = Some V \<Longrightarrow> woken s d D v V s"
  by (auto simp: woken_def fun_upd_idem intro!: exI [of _ V])

lemma woken_emit [simp]: "woken s d D v V (emit s' e) = woken s d D v V s'"
  by (simp add: woken_def)

lemma vcpu_wake_woken:
  assumes "doms s d = Some D" "d_vcpu D v = Some V"
  shows "\<exists>s'. vcpu_wake x s d v = Some s' \<and> woken s d D v V s' \<and>
    (vcpu_runnable D V \<longrightarrow> Sched_wake d v \<in> set (effects s')) \<and> set (effects s) \<subseteq> set (effects s')"
proof (cases "vcpu_runnable D V \<and> (runstate_state V = RUNSTATE_blocked \<or> runstate_state V = RUNSTATE_offline)")
  case True
  then have "runstate_state V \<noteq> RUNSTATE_runnable" by auto
  with vcpu_runstate_change_woken [OF assms, of RUNSTATE_runnable "now x"] True assms
  show ?thesis by (auto simp: vcpu_wake_def)
next
  case False
  have off: "runstate_state V = RUNSTATE_blocked \<Longrightarrow> runstate_state V \<noteq> RUNSTATE_offline" by simp
  with vcpu_runstate_change_woken [OF assms, of RUNSTATE_offline "now x"] False assms woken_refl [OF assms]
  show ?thesis by (auto simp: vcpu_wake_def)
qed

section \<open>Unblocking\<close>

lemma put_vcpu_poll_mask [simp]:
  "(put_vcpu D v V)\<lparr>poll_mask := m\<rparr> = put_vcpu (D\<lparr>poll_mask := m\<rparr>) v V"
  by (simp add: put_vcpu_def)

lemma set_flag_simps [simp]:
  "poll_evtchn (set_flag f b V) = poll_evtchn V"
  "virq_to_evtchn (set_flag f b V) = virq_to_evtchn V"
  "pirq_evtchn_head (set_flag f b V) = pirq_evtchn_head V"
  "pause_flags (set_flag f b V) = (pause_flags V)(f := b)"
  by (simp_all add: set_flag_def)

definition unblocked :: "vcpu \<Rightarrow> vcpu" where
  "unblocked V = (set_flag VPF_blocked False V)\<lparr>poll_evtchn := 0\<rparr>"

text \<open>
  After \<^verbatim>\<open>vcpu_unblock\<close> the virtual CPU is not blocked, its polling has ended when it was blocked,
  and nothing else of it has changed but the accounting.
\<close>

lemma vcpu_unblock_spec:
  assumes s: "doms s d = Some D" "d_vcpu D v = Some V"
  shows "\<exists>s' W b. vcpu_unblock x s d v = Some s' \<and>
    doms s' = (doms s)(d := Some (put_vcpu (D\<lparr>poll_mask := (poll_mask D)(v := b)\<rparr>) v W)) \<and>
    (b \<longrightarrow> poll_mask D v) \<and> strip (W\<lparr>poll_evtchn := 0\<rparr>) = strip (unblocked V) \<and>
    (poll_evtchn V = 0 \<longrightarrow> poll_evtchn W = 0) \<and>
    xen_consumers s' = xen_consumers s \<and> global_virq_handlers s' = global_virq_handlers s"
proof (cases "pause_flags V VPF_blocked")
  case False
  then have "unblocked V = V\<lparr>poll_evtchn := 0\<rparr>"
    by (simp add: unblocked_def set_flag_def fun_upd_idem)
  then show ?thesis using s False
    by (auto simp: vcpu_unblock_def fun_upd_idem intro!: exI [of _ V] exI [of _ "poll_mask D v"])
next
  case True
  define b where "b \<longleftrightarrow> poll_mask D v \<and> poll_evtchn V = 0"
  define D1 where "D1 = put_vcpu (D\<lparr>poll_mask := (poll_mask D)(v := b)\<rparr>) v (unblocked V)"
  have eq: "vcpu_unblock x s d v = vcpu_wake x (put_dom s d D1) d v"
  proof (cases "poll_evtchn V = 0")
    case idle: True
    then have "unblocked V = set_flag VPF_blocked False V"
      by (cases V) (simp add: unblocked_def set_flag_def)
    moreover have "D\<lparr>poll_mask := (poll_mask D)(v := b)\<rparr> = D"
      using idle by (simp add: b_def fun_upd_idem)
    ultimately show ?thesis using s True idle
      by (simp add: vcpu_unblock_def D1_def Let_def)
  next
    case polling: False
    have "set_flag VPF_blocked False ((set_flag VPF_blocked False V)\<lparr>poll_evtchn := 0\<rparr>) = unblocked V"
      by (simp add: unblocked_def set_flag_def)
    moreover have "D\<lparr>poll_mask := (poll_mask D)(v := False)\<rparr> = D" if "\<not> poll_mask D v"
      using that by (simp add: fun_upd_idem)
    ultimately show ?thesis using s True polling
      by (cases "poll_mask D v") (simp_all add: vcpu_unblock_def D1_def b_def Let_def unblocked_def [symmetric])
  qed
  have "doms (put_dom s d D1) d = Some D1" "d_vcpu D1 v = Some (unblocked V)" by (simp_all add: D1_def)
  from vcpu_wake_woken [OF this, of x] obtain s' W where w:
    "vcpu_wake x (put_dom s d D1) d v = Some s'" "doms s' = (doms s)(d := Some (put_vcpu D1 v W))"
    "strip W = strip (unblocked V)" "xen_consumers s' = xen_consumers s"
    "global_virq_handlers s' = global_virq_handlers s"
    by (auto simp: woken_def)
  have idle: "poll_evtchn W = 0" using strip_eqD(4) [OF w(3)] by (simp add: unblocked_def)
  then have same: "W\<lparr>poll_evtchn := 0\<rparr> = W" by (cases W) simp
  have "strip (W\<lparr>poll_evtchn := 0\<rparr>) = strip (unblocked V)" unfolding same by (rule w(3))
  with w idle eq show ?thesis
    by (intro exI [of _ s'] exI [of _ W] exI [of _ b]) (simp add: D1_def b_def)
qed

section \<open>The part of the state event channels are recorded in\<close>

definition vmap :: "xdomain \<Rightarrow> int \<Rightarrow> int \<Rightarrow> port option" where
  "vmap D v q = map_option (\<lambda>V. virq_to_evtchn V q) (d_vcpu D v)"

definition vhead :: "xdomain \<Rightarrow> int \<Rightarrow> port option" where
  "vhead D v = map_option pirq_evtchn_head (d_vcpu D v)"

lemma vmap_upd [simp]:
  "vmap (D\<lparr>poll_mask := m_poll_mask\<rparr>) = vmap D"
  "vmap (D\<lparr>evtchn_pending := m_evtchn_pending\<rparr>) = vmap D"
  "vmap (D\<lparr>evtchn_mask := m_evtchn_mask\<rparr>) = vmap D"
  "vmap (D\<lparr>d_evtchn := m_d_evtchn\<rparr>) = vmap D"
  "vmap (D\<lparr>pirq_tree := m_pirq_tree\<rparr>) = vmap D"
  "vmap (D\<lparr>emuirq_pirq := m_emuirq_pirq\<rparr>) = vmap D"
  "vmap (D\<lparr>refcnt := m_refcnt\<rparr>) = vmap D"
  "vmap (D\<lparr>is_dying := m_is_dying\<rparr>) = vmap D"
  "vmap (D\<lparr>d_pause_count := m_d_pause_count\<rparr>) = vmap D"
  "vmap (D\<lparr>is_paused_by_controller := m_is_paused_by_controller\<rparr>) = vmap D"
  by (simp_all add: vmap_def fun_eq_iff)

lemma vhead_upd [simp]:
  "vhead (D\<lparr>poll_mask := m_poll_mask\<rparr>) = vhead D"
  "vhead (D\<lparr>evtchn_pending := m_evtchn_pending\<rparr>) = vhead D"
  "vhead (D\<lparr>evtchn_mask := m_evtchn_mask\<rparr>) = vhead D"
  "vhead (D\<lparr>d_evtchn := m_d_evtchn\<rparr>) = vhead D"
  "vhead (D\<lparr>pirq_tree := m_pirq_tree\<rparr>) = vhead D"
  "vhead (D\<lparr>emuirq_pirq := m_emuirq_pirq\<rparr>) = vhead D"
  "vhead (D\<lparr>refcnt := m_refcnt\<rparr>) = vhead D"
  "vhead (D\<lparr>is_dying := m_is_dying\<rparr>) = vhead D"
  "vhead (D\<lparr>d_pause_count := m_d_pause_count\<rparr>) = vhead D"
  "vhead (D\<lparr>is_paused_by_controller := m_is_paused_by_controller\<rparr>) = vhead D"
  by (simp_all add: vhead_def fun_eq_iff)

lemma vmap_put_vcpu [simp]: "vmap (put_vcpu D v V) = (vmap D)(v := (\<lambda>q. Some (virq_to_evtchn V q)))"
  by (auto simp: vmap_def fun_eq_iff)

lemma vhead_put_vcpu [simp]: "vhead (put_vcpu D v V) = (vhead D)(v := Some (pirq_evtchn_head V))"
  by (auto simp: vhead_def fun_eq_iff)

definition same_dom :: "xdomain \<Rightarrow> xdomain \<Rightarrow> bool" where
  "same_dom D E \<longleftrightarrow>
     d_evtchn E = d_evtchn D \<and> has_32bit_shinfo E = has_32bit_shinfo D \<and> is_hvm E = is_hvm D \<and>
     is_dying E = is_dying D \<and> max_vcpus E = max_vcpus D \<and> refcnt E = refcnt D \<and>
     pirq_tree E = pirq_tree D \<and> vmap E = vmap D \<and> vhead E = vhead D \<and>
     (\<forall>v. poll_mask E v \<longrightarrow> poll_mask D v \<or> vhead D v \<noteq> None)"

definition same_ec :: "xen \<Rightarrow> xen \<Rightarrow> bool" where
  "same_ec s s' \<longleftrightarrow>
     (\<forall>d. rel_option same_dom (doms s d) (doms s' d)) \<and>
     xen_consumers s' = xen_consumers s \<and> global_virq_handlers s' = global_virq_handlers s"

lemma same_dom_refl [simp]: "same_dom D D" by (simp add: same_dom_def)

lemma same_dom_trans: "same_dom D E \<Longrightarrow> same_dom E F \<Longrightarrow> same_dom D F"
  by (auto simp: same_dom_def)

lemma same_ec_refl [simp]: "same_ec s s"
  by (simp add: same_ec_def option.rel_refl)

lemma rel_option_same_trans:
  "rel_option same_dom a b \<Longrightarrow> rel_option same_dom b c \<Longrightarrow> rel_option same_dom a c"
  by (cases a; cases b; cases c) (auto intro: same_dom_trans)

lemma same_ec_trans: "same_ec s t \<Longrightarrow> same_ec t u \<Longrightarrow> same_ec s u"
  unfolding same_ec_def by (metis rel_option_same_trans)

lemma same_ec_emit [simp]: "same_ec s (emit t e) = same_ec s t"
  by (simp add: same_ec_def)

lemma same_ec_dom:
  assumes "same_ec s s'" "doms s d = Some D"
  shows "\<exists>E. doms s' d = Some E \<and> same_dom D E"
  using assms unfolding same_ec_def by (metis option_rel_Some1)

lemma same_ec_put:
  assumes "doms s d = Some D" "doms s' = (doms s)(d := Some E)" "same_dom D E"
    "xen_consumers s' = xen_consumers s" "global_virq_handlers s' = global_virq_handlers s"
  shows "same_ec s s'"
  using assms by (auto simp: same_ec_def option.rel_refl)

lemma same_ec_put_dom: "doms s d = Some D \<Longrightarrow> same_dom D E \<Longrightarrow> same_ec s (put_dom s d E)"
  by (rule same_ec_put [of s d D _ E]) simp_all

text \<open>Changing a virtual CPU outside its event-channel members.\<close>

lemma same_dom_put_vcpu:
  assumes "d_vcpu D v = Some V" "virq_to_evtchn W = virq_to_evtchn V"
    "pirq_evtchn_head W = pirq_evtchn_head V"
  shows "same_dom D (put_vcpu D v W)"
  using assms by (auto simp: same_dom_def vmap_def vhead_def fun_eq_iff)

lemma same_dom_poll_mask:
  assumes "\<And>v. m v \<Longrightarrow> poll_mask D v \<or> vhead D v \<noteq> None"
  shows "same_dom D (D\<lparr>poll_mask := m\<rparr>)"
  using assms by (auto simp: same_dom_def)

lemma same_dom_bits [simp]:
  "same_dom D (E\<lparr>evtchn_pending := m\<rparr>) = same_dom D E"
  "same_dom D (E\<lparr>evtchn_mask := m\<rparr>) = same_dom D E"
  by (simp_all add: same_dom_def)

lemma vcpu_unblock_same:
  assumes "doms s d = Some D" "d_vcpu D v = Some V"
  shows "\<exists>s'. vcpu_unblock x s d v = Some s' \<and> same_ec s s'"
proof -
  obtain s' W b where u: "vcpu_unblock x s d v = Some s'"
    "doms s' = (doms s)(d := Some (put_vcpu (D\<lparr>poll_mask := (poll_mask D)(v := b)\<rparr>) v W))"
    "b \<longrightarrow> poll_mask D v" "strip (W\<lparr>poll_evtchn := 0\<rparr>) = strip (unblocked V)"
    "xen_consumers s' = xen_consumers s" "global_virq_handlers s' = global_virq_handlers s"
    using vcpu_unblock_spec [OF assms] by blast
  have "virq_to_evtchn W = virq_to_evtchn V" "pirq_evtchn_head W = pirq_evtchn_head V"
    using strip_eqD(5,6) [OF u(4)] by (simp_all add: unblocked_def set_flag_def)
  then have "same_dom (D\<lparr>poll_mask := (poll_mask D)(v := b)\<rparr>)
      (put_vcpu (D\<lparr>poll_mask := (poll_mask D)(v := b)\<rparr>) v W)"
    using assms(2) by (intro same_dom_put_vcpu) simp_all
  moreover have "same_dom D (D\<lparr>poll_mask := (poll_mask D)(v := b)\<rparr>)"
    using u(3) by (intro same_dom_poll_mask) (auto split: if_splits)
  ultimately show ?thesis using same_ec_put [OF assms(1) u(2)] u(1,5,6) same_dom_trans by blast
qed

section \<open>Setting an event pending\<close>

definition interested :: "xdomain \<Rightarrow> port \<Rightarrow> int \<Rightarrow> bool" where
  "interested D p v \<longleftrightarrow> poll_mask D v \<and>
     (case d_vcpu D v of None \<Rightarrow> False | Some V \<Rightarrow> poll_evtchn V \<le> 0 \<or> poll_evtchn V = p)"

text \<open>
  The domain after the pollers of a list have been looked at: exactly the interested ones among
  them have left the poll mask and are unblocked.
\<close>

definition pollers_woken :: "xdomain \<Rightarrow> port \<Rightarrow> int set \<Rightarrow> xdomain \<Rightarrow> bool" where
  "pollers_woken D p vs E \<longleftrightarrow>
     E = D\<lparr>poll_mask := poll_mask E, d_vcpu := d_vcpu E\<rparr> \<and>
     (\<forall>v. if v \<in> vs \<and> interested D p v
          then \<not> poll_mask E v \<and>
            (\<exists>W. d_vcpu E v = Some W \<and> strip W = strip (unblocked (the (d_vcpu D v))))
          else poll_mask E v = poll_mask D v \<and> d_vcpu E v = d_vcpu D v)"

lemma pollers_wokenD:
  assumes "pollers_woken D p vs E"
  shows "if v \<in> vs \<and> interested D p v
         then \<not> poll_mask E v \<and>
           (\<exists>W. d_vcpu E v = Some W \<and> strip W = strip (unblocked (the (d_vcpu D v))))
         else poll_mask E v = poll_mask D v \<and> d_vcpu E v = d_vcpu D v"
  using assms unfolding pollers_woken_def by blast

lemma wake_poller_spec:
  assumes s: "doms s d = Some D" and v: "poll_mask D v \<longrightarrow> d_vcpu D v \<noteq> None"
  shows "\<exists>s' E. wake_poller x d p v s = Some s' \<and> doms s' = (doms s)(d := Some E) \<and>
    pollers_woken D p {v} E \<and>
    xen_consumers s' = xen_consumers s \<and> global_virq_handlers s' = global_virq_handlers s"
proof (cases "interested D p v")
  case False
  then have "pollers_woken D p {v} D" unfolding pollers_woken_def by simp
  moreover have "wake_poller x d p v s = Some s"
    using False s v by (auto simp: wake_poller_def interested_def split: option.splits)
  ultimately show ?thesis using s by (intro exI [of _ s] exI [of _ D]) (simp add: fun_upd_idem)
next
  case True
  then obtain V where V: "d_vcpu D v = Some V" "poll_mask D v" "poll_evtchn V \<le> 0 \<or> poll_evtchn V = p"
    by (auto simp: interested_def split: option.splits)
  define V1 where "V1 = V\<lparr>poll_evtchn := 0\<rparr>"
  define D1 where "D1 = put_vcpu (D\<lparr>poll_mask := (poll_mask D)(v := False)\<rparr>) v V1"
  have d1: "doms (put_dom s d D1) d = Some D1" "d_vcpu D1 v = Some V1" by (simp_all add: D1_def)
  have eq: "wake_poller x d p v s = vcpu_unblock x (put_dom s d D1) d v"
    using s V by (simp add: wake_poller_def D1_def V1_def)
  have m: "\<not> poll_mask D1 v" by (simp add: D1_def)
  obtain s' W b where w: "vcpu_unblock x (put_dom s d D1) d v = Some s'"
    "doms s' = (doms (put_dom s d D1))(d := Some (put_vcpu (D1\<lparr>poll_mask := (poll_mask D1)(v := b)\<rparr>) v W))"
    "b \<longrightarrow> poll_mask D1 v" "strip (W\<lparr>poll_evtchn := 0\<rparr>) = strip (unblocked V1)"
    "poll_evtchn V1 = 0 \<longrightarrow> poll_evtchn W = 0"
    "xen_consumers s' = xen_consumers (put_dom s d D1)"
    "global_virq_handlers s' = global_virq_handlers (put_dom s d D1)"
    using vcpu_unblock_spec [OF d1, of x] by blast
  have "W\<lparr>poll_evtchn := 0\<rparr> = W" using w(5) by (cases W) (simp add: V1_def)
  then have W: "strip W = strip (unblocked V)" using w(4) by (simp add: V1_def unblocked_def set_flag_def)
  have "put_vcpu (D1\<lparr>poll_mask := (poll_mask D1)(v := b)\<rparr>) v W =
      D\<lparr>poll_mask := (poll_mask D)(v := False), d_vcpu := (d_vcpu D)(v := Some W)\<rparr>"
    using w(3) m by (simp add: D1_def put_vcpu_def)
  with w(2) have "doms s' = (doms s)(d := Some
      (D\<lparr>poll_mask := (poll_mask D)(v := False), d_vcpu := (d_vcpu D)(v := Some W)\<rparr>))" by simp
  moreover have "pollers_woken D p {v}
      (D\<lparr>poll_mask := (poll_mask D)(v := False), d_vcpu := (d_vcpu D)(v := Some W)\<rparr>)"
    unfolding pollers_woken_def using True V W by simp
  ultimately show ?thesis using eq w(1,6,7) by auto
qed

lemma interested_upd:
  assumes "pollers_woken D p vs E" "v \<notin> vs"
  shows "interested E p v = interested D p v" "poll_mask E v = poll_mask D v" "d_vcpu E v = d_vcpu D v"
  using assms by (auto simp: pollers_woken_def interested_def split: if_splits)

lemma pollers_woken_Un:
  assumes a: "pollers_woken D p vs E" and b: "pollers_woken E p ws F" and disj: "vs \<inter> ws = {}"
  shows "pollers_woken D p (vs \<union> ws) F"
  unfolding pollers_woken_def
proof (intro conjI allI)
  have e: "E = D\<lparr>poll_mask := poll_mask E, d_vcpu := d_vcpu E\<rparr>"
    and f: "F = E\<lparr>poll_mask := poll_mask F, d_vcpu := d_vcpu F\<rparr>"
    using a b unfolding pollers_woken_def by blast+
  show "F = D\<lparr>poll_mask := poll_mask F, d_vcpu := d_vcpu F\<rparr>" by (subst f, subst e) simp
  fix v
  show "if v \<in> vs \<union> ws \<and> interested D p v
        then \<not> poll_mask F v \<and>
          (\<exists>W. d_vcpu F v = Some W \<and> strip W = strip (unblocked (the (d_vcpu D v))))
        else poll_mask F v = poll_mask D v \<and> d_vcpu F v = d_vcpu D v"
  proof (cases "v \<in> vs")
    case True
    then have "v \<notin> ws" using disj by blast
    from interested_upd(2,3) [OF b this] pollers_wokenD [OF a, of v] True show ?thesis by simp
  next
    case False
    from interested_upd [OF a False] pollers_wokenD [OF b, of v] False show ?thesis
      by (auto split: if_splits)
  qed
qed

lemma wake_pollers_spec:
  assumes "doms s d = Some D" "distinct vs" "\<And>v. v \<in> set vs \<Longrightarrow> poll_mask D v \<longrightarrow> d_vcpu D v \<noteq> None"
  shows "\<exists>s' E. foldM (wake_poller x d p) vs s = Some s' \<and> doms s' = (doms s)(d := Some E) \<and>
    pollers_woken D p (set vs) E \<and>
    xen_consumers s' = xen_consumers s \<and> global_virq_handlers s' = global_virq_handlers s"
  using assms
proof (induction vs arbitrary: s D)
  case Nil
  then show ?case by (intro exI [of _ s] exI [of _ D]) (simp add: pollers_woken_def fun_upd_idem)
next
  case (Cons v vs)
  obtain s1 E where w: "wake_poller x d p v s = Some s1" "doms s1 = (doms s)(d := Some E)"
    "pollers_woken D p {v} E" "xen_consumers s1 = xen_consumers s"
    "global_virq_handlers s1 = global_virq_handlers s"
    using wake_poller_spec [OF Cons.prems(1), of v x p] Cons.prems(3) [of v] by auto
  have pm: "poll_mask E u \<longrightarrow> d_vcpu E u \<noteq> None" if u: "u \<in> set vs" for u
  proof -
    have "u \<notin> {v}" "u \<in> set (v # vs)" using u Cons.prems(2) by auto
    then show ?thesis using interested_upd(2,3) [OF w(3)] Cons.prems(3) by simp
  qed
  have "doms s1 d = Some E" "distinct vs" using w(2) Cons.prems(2) by simp_all
  from Cons.IH [OF this pm] obtain s' F where r:
    "foldM (wake_poller x d p) vs s1 = Some s'" "doms s' = (doms s1)(d := Some F)"
    "pollers_woken E p (set vs) F" "xen_consumers s' = xen_consumers s1"
    "global_virq_handlers s' = global_virq_handlers s1"
    by blast
  have "{v} \<inter> set vs = {}" using Cons.prems(2) by simp
  from pollers_woken_Un [OF w(3) r(3) this] have "pollers_woken D p (set (v # vs)) F" by simp
  with w r show ?case by (intro exI [of _ s'] exI [of _ F]) simp
qed

lemma same_dom_pollers:
  assumes "pollers_woken D p vs E"
  shows "same_dom D E"
proof -
  have e: "E = D\<lparr>poll_mask := poll_mask E, d_vcpu := d_vcpu E\<rparr>" using assms unfolding pollers_woken_def by blast
  have "d_evtchn E = d_evtchn D \<and> has_32bit_shinfo E = has_32bit_shinfo D \<and> is_hvm E = is_hvm D \<and>
     is_dying E = is_dying D \<and> max_vcpus E = max_vcpus D \<and> refcnt E = refcnt D \<and> pirq_tree E = pirq_tree D"
    by (subst e, simp)+
  moreover have "vmap E v q = vmap D v q \<and> vhead E v = vhead D v \<and> (poll_mask E v \<longrightarrow> poll_mask D v)" for v q
  proof (cases "v \<in> vs \<and> interested D p v")
    case True
    then obtain V W where "d_vcpu D v = Some V" "d_vcpu E v = Some W" "strip W = strip (unblocked V)" "\<not> poll_mask E v"
      using pollers_wokenD [OF assms, of v] by (auto simp: interested_def split: option.splits)
    then show ?thesis using strip_eqD(5,6) [of W "unblocked V"]
      by (simp add: vmap_def vhead_def unblocked_def)
  next
    case False
    then show ?thesis using pollers_wokenD [OF assms, of v] by (simp add: vmap_def vhead_def)
  qed
  ultimately show ?thesis unfolding same_dom_def by (auto simp: fun_eq_iff)
qed

definition poll_ok :: "xdomain \<Rightarrow> bool" where
  "poll_ok D \<longleftrightarrow> (\<forall>v. 0 \<le> v \<and> v < max_vcpus D \<and> poll_mask D v \<longrightarrow> d_vcpu D v \<noteq> None)"

text \<open>The domain after the pending bit, the selector bit and the upcall flag have been set.\<close>

definition marked_vcpu :: "xdomain \<Rightarrow> vcpu \<Rightarrow> port \<Rightarrow> vcpu" where
  "marked_vcpu D V p =
     (let w = p div BITS_PER_EVTCHN_WORD D in
      if \<not> evtchn_mask D p \<and> \<not> evtchn_pending_sel V w
      then V\<lparr>evtchn_pending_sel := (evtchn_pending_sel V)(w := True), evtchn_upcall_pending := True\<rparr>
      else V)"

definition marked :: "xdomain \<Rightarrow> int \<Rightarrow> vcpu \<Rightarrow> port \<Rightarrow> xdomain" where
  "marked D v V p = put_vcpu (D\<lparr>evtchn_pending := (evtchn_pending D)(p := True)\<rparr>) v (marked_vcpu D V p)"

lemma marked_vcpu_simps [simp]:
  "virq_to_evtchn (marked_vcpu D V p) = virq_to_evtchn V"
  "pirq_evtchn_head (marked_vcpu D V p) = pirq_evtchn_head V"
  "poll_evtchn (marked_vcpu D V p) = poll_evtchn V"
  "pause_flags (marked_vcpu D V p) = pause_flags V"
  by (simp_all add: marked_vcpu_def Let_def)

lemma evtchn_set_pending_spec:
  assumes s: "doms s d = Some D" "d_vcpu D v = Some V" and new: "\<not> evtchn_pending D p" and po: "poll_ok D"
  shows "\<exists>s' E. evtchn_set_pending x s d v p = Some s' \<and> doms s' = (doms s)(d := Some E) \<and>
    pollers_woken (marked D v V p) p {0..<max_vcpus D} E \<and>
    xen_consumers s' = xen_consumers s \<and> global_virq_handlers s' = global_virq_handlers s"
proof -
  define M where "M = marked D v V p"
  define w where "w = p div BITS_PER_EVTCHN_WORD D"
  define s1 where "s1 = (if \<not> evtchn_mask D p \<and> \<not> evtchn_pending_sel V w \<and> \<not> evtchn_upcall_pending V
     then emit (put_dom s d M) (if is_hvm D then Hvm_assert_evtchn_irq d v else Vcpu_kick d v)
     else put_dom s d M)"
  have s1: "doms s1 = (doms s)(d := Some M)" "xen_consumers s1 = xen_consumers s"
    "global_virq_handlers s1 = global_virq_handlers s" by (simp_all add: s1_def)
  have M: "max_vcpus M = max_vcpus D" "poll_mask M = poll_mask D" by (simp_all add: M_def marked_def)
  have mk: "(if \<not> evtchn_mask D p \<and> \<not> evtchn_pending_sel V w
      then vcpu_mark_events_pending
             (put_dom s d (put_vcpu (D\<lparr>evtchn_pending := (evtchn_pending D)(p := True)\<rparr>) v
                (V\<lparr>evtchn_pending_sel := (evtchn_pending_sel V)(w := True)\<rparr>))) d v
      else Some (put_dom s d (D\<lparr>evtchn_pending := (evtchn_pending D)(p := True)\<rparr>))) = Some s1"
    using s(2)
    by (simp add: vcpu_mark_events_pending_def s1_def M_def marked_def marked_vcpu_def w_def Let_def)
  have eq: "evtchn_set_pending x s d v p =
      (if list_all (\<lambda>i. \<not> poll_mask D i) [0..max_vcpus D - 1] then Some s1
       else foldM (wake_poller x d p) [0..max_vcpus D - 1] s1)"
    using s new mk by (simp add: evtchn_set_pending_def w_def [symmetric] Let_def split del: if_split)
  have vs: "set [0..max_vcpus D - 1] = {0..<max_vcpus D}" by auto
  show ?thesis
  proof (cases "list_all (\<lambda>i. \<not> poll_mask D i) [0..max_vcpus D - 1]")
    case True
    then have "\<not> (u \<in> {0..<max_vcpus D} \<and> interested M p u)" for u
      using M(2) vs by (auto simp: list_all_iff interested_def)
    then have "pollers_woken M p {0..<max_vcpus D} M" unfolding pollers_woken_def by auto
    with True eq s1 show ?thesis by (intro exI [of _ s1] exI [of _ M]) (simp add: M_def)
  next
    case False
    have "d_vcpu M u \<noteq> None" if "u \<in> set [0..max_vcpus D - 1]" "poll_mask M u" for u
      using that po M(2) vs unfolding poll_ok_def by (simp add: M_def marked_def)
    then obtain s' E where "foldM (wake_poller x d p) [0..max_vcpus D - 1] s1 = Some s'"
        "doms s' = (doms s1)(d := Some E)" "pollers_woken M p (set [0..max_vcpus D - 1]) E"
        "xen_consumers s' = xen_consumers s1" "global_virq_handlers s' = global_virq_handlers s1"
      using wake_pollers_spec [of s1 d M "[0..max_vcpus D - 1]" x p] s1(1) by auto
    with False eq s1 vs show ?thesis by (intro exI [of _ s'] exI [of _ E]) (simp add: M_def)
  qed
qed

lemma same_dom_marked: "d_vcpu D v = Some V \<Longrightarrow> same_dom D (marked D v V p)"
  unfolding marked_def by (rule same_dom_trans [OF _ same_dom_put_vcpu [where V = V]]) simp_all

lemma evtchn_set_pending_same:
  assumes "doms s d = Some D" "d_vcpu D v \<noteq> None" "poll_ok D"
  shows "\<exists>s'. evtchn_set_pending x s d v p = Some s' \<and> same_ec s s'"
proof (cases "evtchn_pending D p")
  case True
  with assms show ?thesis by (auto simp: evtchn_set_pending_def)
next
  case False
  obtain V where V: "d_vcpu D v = Some V" using assms(2) by auto
  obtain s' E where e: "evtchn_set_pending x s d v p = Some s'" "doms s' = (doms s)(d := Some E)"
    "pollers_woken (marked D v V p) p {0..<max_vcpus D} E"
    "xen_consumers s' = xen_consumers s" "global_virq_handlers s' = global_virq_handlers s"
    using evtchn_set_pending_spec [OF assms(1) V False assms(3)] by blast
  from same_dom_trans [OF same_dom_marked [OF V] same_dom_pollers [OF e(3)]]
  show ?thesis using same_ec_put [OF assms(1) e(2)] e by blast
qed

lemma vcpu_wake_same:
  assumes "doms s d = Some D" "d_vcpu D v = Some V"
  shows "\<exists>s'. vcpu_wake x s d v = Some s' \<and> same_ec s s'"
proof -
  obtain s' W where w: "vcpu_wake x s d v = Some s'" "doms s' = (doms s)(d := Some (put_vcpu D v W))"
    "strip W = strip V" "xen_consumers s' = xen_consumers s" "global_virq_handlers s' = global_virq_handlers s"
    using vcpu_wake_woken [OF assms, of x] by (auto simp: woken_def)
  have "same_dom D (put_vcpu D v W)"
    using assms(2) strip_eqD(5,6) [OF w(3)] by (rule same_dom_put_vcpu)
  then show ?thesis using same_ec_put [OF assms(1) w(2)] w by blast
qed

end
