(* ===== verification/Evtchn_Inv.thy ===== *)
theory Evtchn_Inv
  imports Vcpu_Facts
begin

text \<open>
  The invariant of the event-channel state. It is stated over four views of a domain: its channels
  by port, the ports its virtual CPUs have for virtual interrupts (\<open>vmap\<close>), the heads of their
  lists of physical-interrupt ports (\<open>vhead\<close>), and the port of each physical interrupt
  (\<^verbatim>\<open>pirq_to_evtchn\<close>).
\<close>

section \<open>Access to channels\<close>

lemma evtchn_from_port_cong: "d_evtchn E = d_evtchn D \<Longrightarrow> evtchn_from_port E = evtchn_from_port D"
  by (simp add: evtchn_from_port_def bucket_from_port_def fun_eq_iff)

lemma port_split: "(q :: int) = p \<longleftrightarrow> q div 128 = p div 128 \<and> q mod 128 = p mod 128"
  by (metis div_mult_mod_eq)

lemma evtchn_from_port_set_chn [simp]:
  assumes "evtchn_from_port D p \<noteq> None"
  shows "evtchn_from_port (set_chn D p c) = (evtchn_from_port D)(p := Some c)"
proof
  fix q
  show "evtchn_from_port (set_chn D p c) q = ((evtchn_from_port D)(p := Some c)) q"
    using assms port_split [of q p]
    by (auto simp: evtchn_from_port_def bucket_from_port_def set_chn_def split: option.splits)
qed

lemma upd_chn_Some: "evtchn_from_port D p = Some c \<Longrightarrow> upd_chn D p f = Some (set_chn D p (f c))"
  by (simp add: upd_chn_def)

lemma d_evtchn_set_chn_None [simp]: "d_evtchn (set_chn D p c) i = None \<longleftrightarrow> d_evtchn D i = None"
  by (simp add: set_chn_def bucket_from_port_def split: option.splits)

lemma set_chn_other [simp]:
  "is_hvm (set_chn D p c) = is_hvm D" "has_32bit_shinfo (set_chn D p c) = has_32bit_shinfo D"
  "is_dying (set_chn D p c) = is_dying D" "refcnt (set_chn D p c) = refcnt D"
  "max_vcpus (set_chn D p c) = max_vcpus D" "d_vcpu (set_chn D p c) = d_vcpu D"
  "poll_mask (set_chn D p c) = poll_mask D" "evtchn_pending (set_chn D p c) = evtchn_pending D"
  "evtchn_mask (set_chn D p c) = evtchn_mask D" "pirq_tree (set_chn D p c) = pirq_tree D"
  "vmap (set_chn D p c) = vmap D" "vhead (set_chn D p c) = vhead D"
  by (simp_all add: set_chn_def)

lemma MAX_EVTCHNS_set_chn [simp]: "MAX_EVTCHNS (set_chn D p c) = MAX_EVTCHNS D"
  by (simp add: MAX_EVTCHNS_def BITS_PER_EVTCHN_WORD_def)

lemma port_is_valid_set_chn [simp]: "port_is_valid (set_chn D p c) q = port_is_valid D q"
  by (simp add: port_is_valid_def bucket_from_port_def)

lemma MAX_EVTCHNS_cases: "MAX_EVTCHNS D = 8 * 128 \<or> MAX_EVTCHNS D = 32 * 128"
  by (simp add: MAX_EVTCHNS_def BITS_PER_EVTCHN_WORD_def)

text \<open>Record updates that leave the channels alone.\<close>

lemma evtchn_from_port_upd [simp]:
  "evtchn_from_port (put_vcpu D v V) = evtchn_from_port D"
  "evtchn_from_port (D\<lparr>poll_mask := m1\<rparr>) = evtchn_from_port D"
  "evtchn_from_port (D\<lparr>evtchn_pending := m2\<rparr>) = evtchn_from_port D"
  "evtchn_from_port (D\<lparr>evtchn_mask := m3\<rparr>) = evtchn_from_port D"
  "evtchn_from_port (D\<lparr>pirq_tree := m4\<rparr>) = evtchn_from_port D"
  "evtchn_from_port (D\<lparr>emuirq_pirq := m5\<rparr>) = evtchn_from_port D"
  "evtchn_from_port (D\<lparr>refcnt := m6\<rparr>) = evtchn_from_port D"
  "evtchn_from_port (D\<lparr>is_dying := m7\<rparr>) = evtchn_from_port D"
  by (simp_all add: evtchn_from_port_def bucket_from_port_def fun_eq_iff)

section \<open>The channels in one state\<close>

definition view :: "ecs \<Rightarrow> (port \<Rightarrow> evtchn option) \<Rightarrow> port \<Rightarrow> evtchn option" where
  "view S ch p = (case ch p of None \<Rightarrow> None | Some c \<Rightarrow> if ec_state c = S then Some c else None)"

lemma view_eq_Some [simp]: "view S ch p = Some c \<longleftrightarrow> ch p = Some c \<and> ec_state c = S"
  by (auto simp: view_def split: option.splits)

lemma view_upd: "view S (ch(p := Some c)) = (view S ch)(p := (if ec_state c = S then Some c else None))"
  by (auto simp: view_def)

lemma view_upd_other:
  assumes "ch p = Some c" "ec_state c \<noteq> S" "ec_state c' \<noteq> S"
  shows "view S (ch(p := Some c')) = view S ch"
  using assms by (auto simp: view_def fun_eq_iff)

lemma view_None: "ch p = Some c \<Longrightarrow> ec_state c \<noteq> S \<Longrightarrow> view S ch p = None"
  by (simp add: view_def)

section \<open>Buckets and single channels\<close>

definition buckets_ok :: "xdomain \<Rightarrow> bool" where
  "buckets_ok D \<longleftrightarrow>
     (\<forall>i. d_evtchn D i \<noteq> None \<longrightarrow>
        0 \<le> i \<and> i * EVTCHNS_PER_BUCKET < MAX_EVTCHNS D \<and> (\<forall>j. 0 \<le> j \<and> j \<le> i \<longrightarrow> d_evtchn D j \<noteq> None))"

definition chan_ok :: "(int \<Rightarrow> port option) \<Rightarrow> port \<Rightarrow> evtchn \<Rightarrow> bool" where
  "chan_ok vh p c \<longleftrightarrow>
     (p = 0 \<longleftrightarrow> ec_state c = ECS_RESERVED) \<and>
     (ec_state c = ECS_FREE \<longrightarrow> notify_vcpu_id c = 0) \<and>
     (consumer_is_xen c \<longrightarrow> ec_state c = ECS_UNBOUND \<or> ec_state c = ECS_INTERDOMAIN) \<and>
     vh (notify_vcpu_id c) \<noteq> None"

definition chans_ok :: "(port \<Rightarrow> evtchn option) \<Rightarrow> (int \<Rightarrow> port option) \<Rightarrow> bool" where
  "chans_ok ch vh \<longleftrightarrow> (\<forall>p c. ch p = Some c \<longrightarrow> chan_ok vh p c)"

lemma port_is_valid_iff:
  assumes "buckets_ok D"
  shows "port_is_valid D p \<longleftrightarrow> evtchn_from_port D p \<noteq> None"
proof
  assume "evtchn_from_port D p \<noteq> None"
  then have b: "d_evtchn D (p div 128) \<noteq> None"
    by (auto simp: evtchn_from_port_def bucket_from_port_def split: option.splits)
  then have r: "0 \<le> p div 128" "p div 128 * 128 < MAX_EVTCHNS D"
    using assms unfolding buckets_ok_def by blast+
  have "p < MAX_EVTCHNS D" using r(2) MAX_EVTCHNS_cases [of D] by presburger
  moreover have "0 \<le> p" using r(1) by presburger
  ultimately show "port_is_valid D p" using b by (simp add: port_is_valid_def bucket_from_port_def)
qed (auto simp: port_is_valid_def evtchn_from_port_def split: option.splits)

lemma chans_ok_upd: "chans_ok ch vh \<Longrightarrow> chan_ok vh p c \<Longrightarrow> chans_ok (ch(p := Some c)) vh"
  by (simp add: chans_ok_def)

section \<open>Virtual interrupts\<close>

definition per_vcpu :: "int \<Rightarrow> bool" where
  "per_vcpu q \<longleftrightarrow> q = 0 \<or> q = 1 \<or> q = 7"

lemma virq_is_global_eq: "virq_is_global q = (if q < NR_VIRQS then Some (\<not> per_vcpu q) else None)"
  by (auto simp: virq_is_global_def per_vcpu_def arch_virq_is_global_def)

text \<open>The virtual CPU that has the port of a virtual-interrupt channel in its table.\<close>

definition virq_owner :: "evtchn \<Rightarrow> int \<Rightarrow> bool" where
  "virq_owner c v \<longleftrightarrow> (if per_vcpu (u_lo c) then v = notify_vcpu_id c else v = 0)"

definition virqs_ok :: "(port \<Rightarrow> evtchn option) \<Rightarrow> (int \<Rightarrow> int \<Rightarrow> port option) \<Rightarrow> bool" where
  "virqs_ok W vm \<longleftrightarrow>
     (\<forall>v q p. 0 \<le> q \<and> q < NR_VIRQS \<and> vm v q = Some p \<and> p \<noteq> 0 \<longrightarrow>
        (\<exists>c. W p = Some c \<and> u_lo c = q \<and> virq_owner c v)) \<and>
     (\<forall>p c. W p = Some c \<longrightarrow>
        0 \<le> u_lo c \<and> u_lo c < NR_VIRQS \<and> p \<noteq> 0 \<and> (\<exists>v. vm v (u_lo c) = Some p \<and> virq_owner c v))"

lemma virqs_okD1:
  assumes "virqs_ok W vm" "vm v q = Some p" "p \<noteq> 0" "0 \<le> q" "q < NR_VIRQS"
  obtains c where "W p = Some c" "u_lo c = q" "virq_owner c v"
  using assms unfolding virqs_ok_def by blast

lemma virqs_okD2:
  assumes "virqs_ok W vm" "W p = Some c"
  obtains v where "vm v (u_lo c) = Some p" "virq_owner c v" "0 \<le> u_lo c" "u_lo c < NR_VIRQS" "p \<noteq> 0"
  using assms unfolding virqs_ok_def by blast

lemma virqs_okI:
  assumes "\<And>v q p. 0 \<le> q \<Longrightarrow> q < NR_VIRQS \<Longrightarrow> vm v q = Some p \<Longrightarrow> p \<noteq> 0 \<Longrightarrow>
      \<exists>c. W p = Some c \<and> u_lo c = q \<and> virq_owner c v"
    and "\<And>p c. W p = Some c \<Longrightarrow>
      0 \<le> u_lo c \<and> u_lo c < NR_VIRQS \<and> p \<noteq> 0 \<and> (\<exists>v. vm v (u_lo c) = Some p \<and> virq_owner c v)"
  shows "virqs_ok W vm"
  using assms unfolding virqs_ok_def by blast

lemma virqs_ok_bind:
  assumes ok: "virqs_ok W vm" and new: "vm v (u_lo c) = Some 0" "W p = None" "p \<noteq> 0"
    and c: "0 \<le> u_lo c" "u_lo c < NR_VIRQS" "virq_owner c v"
  shows "virqs_ok (W(p := Some c)) (vm(v := (vm v)(u_lo c := Some p)))"
proof (rule virqs_okI)
  fix v' q p'
  assume q: "0 \<le> q" "q < NR_VIRQS" "p' \<noteq> 0" and vm: "(vm(v := (vm v)(u_lo c := Some p))) v' q = Some p'"
  show "\<exists>c'. (W(p := Some c)) p' = Some c' \<and> u_lo c' = q \<and> virq_owner c' v'"
  proof (cases "v' = v \<and> q = u_lo c")
    case True
    with vm c show ?thesis by auto
  next
    case False
    with vm have "vm v' q = Some p'" by (auto split: if_splits)
    from virqs_okD1 [OF ok this q(3,1,2)] obtain c' where "W p' = Some c'" "u_lo c' = q" "virq_owner c' v'" .
    with new(2) show ?thesis by auto
  qed
next
  fix p' c'
  assume a: "(W(p := Some c)) p' = Some c'"
  show "0 \<le> u_lo c' \<and> u_lo c' < NR_VIRQS \<and> p' \<noteq> 0 \<and>
    (\<exists>v'. (vm(v := (vm v)(u_lo c := Some p))) v' (u_lo c') = Some p' \<and> virq_owner c' v')"
  proof (cases "p' = p")
    case True
    with a c new show ?thesis by auto
  next
    case False
    with a have "W p' = Some c'" by simp
    from virqs_okD2 [OF ok this] obtain v' where v': "vm v' (u_lo c') = Some p'" "virq_owner c' v'"
      "0 \<le> u_lo c'" "u_lo c' < NR_VIRQS" "p' \<noteq> 0" .
    then have "\<not> (v' = v \<and> u_lo c' = u_lo c)" using new(1) by auto
    with v' show ?thesis by (intro conjI exI [of _ v']) auto
  qed
qed

lemma virqs_ok_close:
  assumes ok: "virqs_ok W vm" and c: "W p = Some c"
  shows "virqs_ok (W(p := None)) (\<lambda>v q. if q = u_lo c \<and> vm v q = Some p then Some 0 else vm v q)"
proof (rule virqs_okI)
  fix v q p'
  assume q: "0 \<le> q" "q < NR_VIRQS" "p' \<noteq> 0"
    and "(if q = u_lo c \<and> vm v q = Some p then Some 0 else vm v q) = Some p'"
  then have a: "vm v q = Some p'" "\<not> (q = u_lo c \<and> p' = p)" by (auto split: if_splits)
  from virqs_okD1 [OF ok a(1) q(3,1,2)] obtain c' where "W p' = Some c'" "u_lo c' = q" "virq_owner c' v" .
  then show "\<exists>c'. (W(p := None)) p' = Some c' \<and> u_lo c' = q \<and> virq_owner c' v" using a c by auto
next
  fix p' c'
  assume "(W(p := None)) p' = Some c'"
  then have a: "p' \<noteq> p" "W p' = Some c'" by (auto split: if_splits)
  from virqs_okD2 [OF ok a(2)] obtain v where v: "vm v (u_lo c') = Some p'" "virq_owner c' v"
      "0 \<le> u_lo c'" "u_lo c' < NR_VIRQS" "p' \<noteq> 0" .
  with a show "0 \<le> u_lo c' \<and> u_lo c' < NR_VIRQS \<and> p' \<noteq> 0 \<and>
    (\<exists>v. (if u_lo c' = u_lo c \<and> vm v (u_lo c') = Some p then Some 0 else vm v (u_lo c')) = Some p' \<and>
      virq_owner c' v)"
    by (intro conjI exI [of _ v]) simp_all
qed

lemma virqs_ok_retarget:
  assumes ok: "virqs_ok W vm" and c: "W p = Some c" "\<not> per_vcpu (u_lo c)"
  shows "virqs_ok (W(p := Some (c\<lparr>notify_vcpu_id := v\<rparr>))) vm"
proof (rule virqs_okI)
  have own: "virq_owner (c\<lparr>notify_vcpu_id := v\<rparr>) u = virq_owner c u" for u using c(2) by (simp add: virq_owner_def)
  fix u q p'
  assume q: "0 \<le> q" "q < NR_VIRQS" "vm u q = Some p'" "p' \<noteq> 0"
  from virqs_okD1 [OF ok q(3,4,1,2)] obtain c' where "W p' = Some c'" "u_lo c' = q" "virq_owner c' u" .
  then show "\<exists>c'. (W(p := Some (c\<lparr>notify_vcpu_id := v\<rparr>))) p' = Some c' \<and> u_lo c' = q \<and> virq_owner c' u"
    using c(1) own by (cases "p' = p") auto
next
  have own: "virq_owner (c\<lparr>notify_vcpu_id := v\<rparr>) u = virq_owner c u" for u using c(2) by (simp add: virq_owner_def)
  fix p' c'
  assume a: "(W(p := Some (c\<lparr>notify_vcpu_id := v\<rparr>))) p' = Some c'"
  have "\<exists>c0. W p' = Some c0 \<and> u_lo c' = u_lo c0 \<and> (\<forall>u. virq_owner c' u = virq_owner c0 u)"
    using a c(1) own by (cases "p' = p") auto
  then show "0 \<le> u_lo c' \<and> u_lo c' < NR_VIRQS \<and> p' \<noteq> 0 \<and> (\<exists>v. vm v (u_lo c') = Some p' \<and> virq_owner c' v)"
    using virqs_okD2 [OF ok] by metis
qed

section \<open>Physical interrupts\<close>

definition pirqs_ok :: "(port \<Rightarrow> evtchn option) \<Rightarrow> (int \<Rightarrow> port) \<Rightarrow> bool" where
  "pirqs_ok W pe \<longleftrightarrow>
     (\<forall>q. pe q \<noteq> 0 \<longrightarrow> (\<exists>c. W (pe q) = Some c \<and> u_lo c = q)) \<and>
     (\<forall>p c. W p = Some c \<longrightarrow> pe (u_lo c) = p \<and> p \<noteq> 0)"

lemma pirqs_ok_bind:
  assumes ok: "pirqs_ok W pe" and "pe (u_lo c) = 0" "W p = None" "p \<noteq> 0"
  shows "pirqs_ok (W(p := Some c)) (pe(u_lo c := p))"
  unfolding pirqs_ok_def
proof (intro conjI allI impI)
  fix q assume "(pe(u_lo c := p)) q \<noteq> 0"
  then show "\<exists>c'. (W(p := Some c)) ((pe(u_lo c := p)) q) = Some c' \<and> u_lo c' = q"
    using assms unfolding pirqs_ok_def by (cases "q = u_lo c") force+
next
  fix p' c' assume a: "(W(p := Some c)) p' = Some c'"
  have "pe (u_lo c') = p' \<and> p' \<noteq> 0" if "p' \<noteq> p"
    using a that ok unfolding pirqs_ok_def by simp
  with a assms(2-4) show "(pe(u_lo c := p)) (u_lo c') = p'" "p' \<noteq> 0"
    by (cases "p' = p"; force)+
qed

lemma pirqs_ok_close:
  assumes ok: "pirqs_ok W pe" and c: "W p = Some c"
  shows "pirqs_ok (W(p := None)) (pe(u_lo c := 0))"
  unfolding pirqs_ok_def
proof (intro conjI allI impI)
  fix q assume "(pe(u_lo c := 0)) q \<noteq> 0"
  then have q: "q \<noteq> u_lo c" "pe q \<noteq> 0" by (auto split: if_splits)
  then obtain c' where "W (pe q) = Some c'" "u_lo c' = q" using ok unfolding pirqs_ok_def by blast
  with q c show "\<exists>c'. (W(p := None)) ((pe(u_lo c := 0)) q) = Some c' \<and> u_lo c' = q" by auto
next
  fix p' c' assume "(W(p := None)) p' = Some c'"
  then have a: "p' \<noteq> p" "W p' = Some c'" by (auto split: if_splits)
  then have "pe (u_lo c') = p'" "p' \<noteq> 0" "pe (u_lo c) = p" using ok c unfolding pirqs_ok_def by auto
  with a show "(pe(u_lo c := 0)) (u_lo c') = p'" "p' \<noteq> 0" by auto
qed

lemma pirqs_ok_upd:
  assumes "pirqs_ok W pe" "\<And>p. map_option u_lo (W' p) = map_option u_lo (W p)"
  shows "pirqs_ok W' pe"
proof -
  have eq: "(\<exists>c. W' p = Some c \<and> u_lo c = q) = (\<exists>c. W p = Some c \<and> u_lo c = q)" for p q
    using assms(2) [of p] by (cases "W p"; cases "W' p") auto
  have "pe (u_lo c) = p \<and> p \<noteq> 0" if "W' p = Some c" for p c
  proof -
    from that have "\<exists>b. W' p = Some b \<and> u_lo b = u_lo c" by blast
    then obtain b where "W p = Some b" "u_lo b = u_lo c" unfolding eq by blast
    then show ?thesis using assms(1) unfolding pirqs_ok_def by metis
  qed
  then show ?thesis using assms(1) eq unfolding pirqs_ok_def by simp
qed

section \<open>Lists of physical-interrupt ports\<close>

definition last0 :: "port list \<Rightarrow> port" where
  "last0 xs = (if xs = [] then 0 else last xs)"

definition hd0 :: "port list \<Rightarrow> port" where
  "hd0 xs = (if xs = [] then 0 else hd xs)"

lemma last0_simps [simp]: "last0 [] = 0" "last0 (xs @ [x]) = x" "ys \<noteq> [] \<Longrightarrow> last0 (xs @ ys) = last0 ys"
  by (simp_all add: last0_def)

lemma hd0_simps [simp]: "hd0 [] = 0" "hd0 (x # xs) = x" "xs \<noteq> [] \<Longrightarrow> hd0 (xs @ ys) = hd0 xs"
  by (simp_all add: hd0_def)

definition links :: "(port \<Rightarrow> evtchn option) \<Rightarrow> port list \<Rightarrow> bool" where
  "links W xs \<longleftrightarrow>
     (\<forall>ys p zs. xs = ys @ p # zs \<longrightarrow> (\<exists>c. W p = Some c \<and> u_prev c = last0 ys \<and> u_next c = hd0 zs))"

definition notify_of :: "(port \<Rightarrow> evtchn option) \<Rightarrow> port \<Rightarrow> int option" where
  "notify_of W p = map_option notify_vcpu_id (W p)"

lemma notify_of_upd [simp]:
  "notify_of (W(p := Some c)) q = (if q = p then Some (notify_vcpu_id c) else notify_of W q)"
  "notify_of (W(p := None)) q = (if q = p then None else notify_of W q)"
  by (simp_all add: notify_of_def)

lemma notify_of_Some: "W p = Some c \<Longrightarrow> notify_of W p = Some (notify_vcpu_id c)"
  by (simp add: notify_of_def)

lemma notify_of_None: "notify_of W p = None \<longleftrightarrow> W p = None"
  by (simp add: notify_of_def)

definition plist :: "(port \<Rightarrow> evtchn option) \<Rightarrow> int \<Rightarrow> port list \<Rightarrow> bool" where
  "plist W v xs \<longleftrightarrow>
     distinct xs \<and> 0 \<notin> set xs \<and> (\<forall>p. p \<in> set xs \<longleftrightarrow> notify_of W p = Some v) \<and> links W xs"

definition lists_ok :: "(port \<Rightarrow> evtchn option) \<Rightarrow> (int \<Rightarrow> port option) \<Rightarrow> bool" where
  "lists_ok W vh \<longleftrightarrow> (\<forall>v h. vh v = Some h \<longrightarrow> (\<exists>xs. h = hd0 xs \<and> plist W v xs))"

text \<open>The two writes into a neighbour: \<^verbatim>\<open>if ( k ) evtchn_from_port(d, k)->u.pirq.next_port = n\<close>.\<close>

definition fix_next :: "(port \<Rightarrow> evtchn option) \<Rightarrow> port \<Rightarrow> port \<Rightarrow> port \<Rightarrow> evtchn option" where
  "fix_next W k n = (if k = 0 then W else W(k := map_option (\<lambda>c. c\<lparr>u_next := n\<rparr>) (W k)))"

definition fix_prev :: "(port \<Rightarrow> evtchn option) \<Rightarrow> port \<Rightarrow> port \<Rightarrow> port \<Rightarrow> evtchn option" where
  "fix_prev W k n = (if k = 0 then W else W(k := map_option (\<lambda>c. c\<lparr>u_prev := n\<rparr>) (W k)))"

lemma fix_same: "q \<noteq> k \<Longrightarrow> fix_next W k n q = W q" "q \<noteq> k \<Longrightarrow> fix_prev W k n q = W q"
  by (simp_all add: fix_next_def fix_prev_def)

lemma view_fix [simp]:
  "view S (fix_next ch k n) = fix_next (view S ch) k n"
  "view S (fix_prev ch k n) = fix_prev (view S ch) k n"
  by (auto simp: fix_next_def fix_prev_def view_def fun_eq_iff split: option.splits)

lemma fix_proj:
  "map_option u_lo (fix_next W k n q) = map_option u_lo (W q)"
  "map_option u_lo (fix_prev W k n q) = map_option u_lo (W q)"
  "notify_of (fix_next W k n) q = notify_of W q"
  "notify_of (fix_prev W k n) q = notify_of W q"
  by (auto simp: fix_next_def fix_prev_def notify_of_def option.map_comp comp_def)

lemma linksD:
  assumes "links W (ys @ p # zs)"
  obtains c where "W p = Some c" "u_prev c = last0 ys" "u_next c = hd0 zs"
  using assms unfolding links_def by blast

lemma links_cong: "(\<And>p. p \<in> set xs \<Longrightarrow> W' p = W p) \<Longrightarrow> links W' xs = links W xs"
  unfolding links_def by (metis in_set_conv_decomp)

text \<open>Taking a port out of its list.\<close>

lemma links_unlink:
  assumes l: "links W (ys @ p # zs)" and d: "distinct (ys @ p # zs)" "0 \<notin> set (ys @ p # zs)"
  shows "links (fix_prev (fix_next W (last0 ys) (hd0 zs)) (hd0 zs) (last0 ys)) (ys @ zs)"
    (is "links ?W _")
  unfolding links_def
proof (intro allI impI)
  fix as q bs
  assume "ys @ zs = as @ q # bs"
  then consider us where "ys = as @ q # us" "bs = us @ zs" | us where "as = ys @ us" "zs = us @ q # bs"
    by (auto simp: append_eq_append_conv2 append_eq_Cons_conv)
  then show "\<exists>c. ?W q = Some c \<and> u_prev c = last0 as \<and> u_next c = hd0 bs"
  proof cases
    case 1
    with l have "links W (as @ q # (us @ p # zs))" by simp
    then obtain c where c: "W q = Some c" "u_prev c = last0 as" "u_next c = hd0 (us @ p # zs)" by (rule linksD)
    have "q \<noteq> hd0 zs" using 1 d by (cases zs) auto
    show ?thesis
    proof (cases "us = []")
      case True
      then have "last0 ys = q" "q \<noteq> 0" using 1 d by auto
      with c True 1 \<open>q \<noteq> hd0 zs\<close> show ?thesis by (simp add: fix_same(2) fix_next_def)
    next
      case False
      then have "q \<noteq> last0 ys" using 1 d by (auto simp: last0_def)
      with c False 1 \<open>q \<noteq> hd0 zs\<close> show ?thesis by (simp add: fix_same)
    qed
  next
    case 2
    with l have "links W ((ys @ p # us) @ q # bs)" by simp
    then obtain c where c: "W q = Some c" "u_prev c = last0 (ys @ p # us)" "u_next c = hd0 bs" by (rule linksD)
    have "q \<noteq> last0 ys" using 2 d by (auto simp: last0_def)
    show ?thesis
    proof (cases "us = []")
      case True
      then have "hd0 zs = q" "q \<noteq> 0" using 2 d by auto
      with c True 2 \<open>q \<noteq> last0 ys\<close> show ?thesis by (simp add: fix_same(1) fix_prev_def)
    next
      case False
      then have "q \<noteq> hd0 zs" using 2 d by (cases us) auto
      with c False 2 \<open>q \<noteq> last0 ys\<close> show ?thesis by (simp add: fix_same last0_def)
    qed
  qed
qed

lemma links_link:
  assumes l: "links W xs" and d: "distinct (p # xs)" "0 \<notin> set xs"
    and c: "u_prev c = 0" "u_next c = hd0 xs"
  shows "links (fix_prev (W(p := Some c)) (hd0 xs) p) (p # xs)" (is "links ?W _")
  unfolding links_def
proof (intro allI impI)
  fix ys q zs
  assume e: "p # xs = ys @ q # zs"
  show "\<exists>b. ?W q = Some b \<and> u_prev b = last0 ys \<and> u_next b = hd0 zs"
  proof (cases ys)
    case Nil
    then have "q = p" "zs = xs" using e by simp_all
    moreover have "p \<noteq> hd0 xs \<or> xs = []" using d by (cases xs) auto
    ultimately show ?thesis using c Nil by (auto simp: fix_prev_def)
  next
    case (Cons y us)
    then have x: "xs = us @ q # zs" "y = p" using e by simp_all
    then obtain b where b: "W q = Some b" "u_prev b = last0 us" "u_next b = hd0 zs" using l by (auto elim: linksD)
    have "q \<noteq> p" using d x by auto
    show ?thesis
    proof (cases us)
      case Nil
      then show ?thesis using b x d \<open>q \<noteq> p\<close> Cons by (auto simp: fix_prev_def last0_def)
    next
      case (Cons u ws)
      then have "q \<noteq> hd0 xs" using d x by auto
      then show ?thesis using b \<open>q \<noteq> p\<close> \<open>ys = y # us\<close> Cons by (auto simp: fix_prev_def last0_def)
    qed
  qed
qed

lemma lists_okE:
  assumes "lists_ok W vh" "vh v = Some h"
  obtains xs where "h = hd0 xs" "plist W v xs"
  using assms unfolding lists_ok_def by blast

lemma plist_mem: "plist W v xs \<Longrightarrow> p \<in> set xs \<longleftrightarrow> notify_of W p = Some v"
  by (simp add: plist_def)

lemma hd0_in: "xs \<noteq> [] \<Longrightarrow> hd0 xs \<in> set xs"
  by (cases xs) auto

lemma last0_in: "xs \<noteq> [] \<Longrightarrow> last0 xs \<in> set xs"
  by (simp add: last0_def)

lemma lists_ok_link:
  assumes ok: "lists_ok W vh" and new: "W p = None" "p \<noteq> 0" "vh v = Some h"
    and c: "notify_vcpu_id c = v" "u_prev c = 0" "u_next c = h"
  shows "lists_ok (fix_prev (W(p := Some c)) h p) (vh(v := Some p))"
  unfolding lists_ok_def
proof (intro allI impI)
  fix u g
  assume g: "(vh(v := Some p)) u = Some g"
  obtain xs where xs: "h = hd0 xs" "plist W v xs" using lists_okE [OF ok new(3)] .
  have p: "p \<notin> set xs" using xs(2) new(1) by (simp add: plist_mem notify_of_def)
  show "\<exists>xs. g = hd0 xs \<and> plist (fix_prev (W(p := Some c)) h p) u xs"
  proof (cases "u = v")
    case True
    have "links (fix_prev (W(p := Some c)) h p) (p # xs)"
      unfolding xs(1) using xs p c by (intro links_link) (auto simp: plist_def)
    then have "plist (fix_prev (W(p := Some c)) h p) v (p # xs)"
      using xs(2) p new(2) c(1) by (auto simp: plist_def fix_proj)
    then show ?thesis using True g by (intro exI [of _ "p # xs"]) auto
  next
    case False
    then obtain ys where ys: "g = hd0 ys" "plist W u ys" using lists_okE [OF ok, of u g] g by auto
    have "fix_prev (W(p := Some c)) h p q = W q" if "q \<in> set ys" for q
    proof -
      have "q \<noteq> p" using that ys(2) new(1) by (auto simp: plist_mem notify_of_def)
      moreover have "h = 0 \<or> q \<noteq> h"
        using that ys(2) xs False by (cases "xs = []") (auto simp: plist_mem dest: hd0_in)
      ultimately show ?thesis by (auto simp: fix_prev_def)
    qed
    then have "links (fix_prev (W(p := Some c)) h p) ys = links W ys" by (rule links_cong)
    then have "links (fix_prev (W(p := Some c)) h p) ys" using ys(2) by (simp add: plist_def)
    moreover have "notify_of (fix_prev (W(p := Some c)) h p) q = Some u \<longleftrightarrow> notify_of W q = Some u" for q
      using False c(1) new(1) by (simp add: fix_proj notify_of_None [THEN iffD2])
    ultimately have "plist (fix_prev (W(p := Some c)) h p) u ys" using ys(2) unfolding plist_def by blast
    then show ?thesis using ys(1) by blast
  qed
qed

lemma lists_ok_neighbours:
  assumes ok: "lists_ok W vh" and c: "W p = Some c" "vh (notify_vcpu_id c) = Some h"
  obtains ys zs where "plist W (notify_vcpu_id c) (ys @ p # zs)" "h = hd0 (ys @ p # zs)"
    "u_prev c = last0 ys" "u_next c = hd0 zs"
proof -
  obtain xs where xs: "h = hd0 xs" "plist W (notify_vcpu_id c) xs" using lists_okE [OF ok c(2)] .
  then have "p \<in> set xs" using c(1) by (simp add: plist_mem notify_of_def)
  then obtain ys zs where s: "xs = ys @ p # zs" by (meson split_list)
  have "links W (ys @ p # zs)" using xs(2) s by (simp add: plist_def)
  then have "u_prev c = last0 ys" "u_next c = hd0 zs" using c(1) by (auto elim: linksD)
  then show thesis using that xs s by blast
qed

lemma neighbours_facts:
  assumes "plist W v (ys @ p # zs)"
  shows "last0 ys \<noteq> p" "hd0 zs \<noteq> p" "last0 ys \<noteq> 0 \<Longrightarrow> W (last0 ys) \<noteq> None"
    "hd0 zs \<noteq> 0 \<Longrightarrow> W (hd0 zs) \<noteq> None" "last0 ys = 0 \<longleftrightarrow> ys = []"
    "last0 ys \<noteq> 0 \<Longrightarrow> last0 ys \<noteq> hd0 zs"
proof -
  have d: "distinct (ys @ p # zs)" "0 \<notin> set (ys @ p # zs)" using assms unfolding plist_def by blast+
  have l: "ys \<noteq> [] \<Longrightarrow> last0 ys \<in> set ys" and h: "zs \<noteq> [] \<Longrightarrow> hd0 zs \<in> set zs"
    by (rule last0_in, assumption) (rule hd0_in, assumption)
  have m: "W q \<noteq> None" if "q \<in> set (ys @ p # zs)" for q using that plist_mem [OF assms] by (auto simp: notify_of_def)
  show "last0 ys \<noteq> p" using l d by (cases "ys = []") auto
  show "hd0 zs \<noteq> p" using h d by (cases "zs = []") auto
  show "W (last0 ys) \<noteq> None" if "last0 ys \<noteq> 0" using that l m by (cases "ys = []") auto
  show "W (hd0 zs) \<noteq> None" if "hd0 zs \<noteq> 0" using that h m by (cases "zs = []") auto
  show "last0 ys = 0 \<longleftrightarrow> ys = []" using l d by (cases "ys = []") auto
  show "last0 ys \<noteq> hd0 zs" if "last0 ys \<noteq> 0"
    using that l h d by (cases "ys = []"; cases "zs = []") auto
qed

lemma lists_ok_unlink:
  assumes ok: "lists_ok W vh" and c: "W p = Some c" "vh (notify_vcpu_id c) = Some h"
  shows "lists_ok ((fix_prev (fix_next W (u_prev c) (u_next c)) (u_next c) (u_prev c))(p := None))
    (if u_prev c = 0 then vh(notify_vcpu_id c := Some (u_next c)) else vh)"
  unfolding lists_ok_def
proof (intro allI impI)
  fix u g
  let ?v = "notify_vcpu_id c"
  let ?W = "fix_prev (fix_next W (u_prev c) (u_next c)) (u_next c) (u_prev c)"
  assume g: "(if u_prev c = 0 then vh(?v := Some (u_next c)) else vh) u = Some g"
  obtain ys zs where s: "plist W ?v (ys @ p # zs)" "h = hd0 (ys @ p # zs)"
    "u_prev c = last0 ys" "u_next c = hd0 zs" using lists_ok_neighbours [OF ok c] .
  note f = neighbours_facts [OF s(1)]
  have proj: "notify_of ?W q = notify_of W q" for q by (simp add: fix_proj)
  have d: "distinct (ys @ p # zs)" "0 \<notin> set (ys @ p # zs)" and l: "links W (ys @ p # zs)"
    using s(1) unfolding plist_def by blast+
  show "\<exists>xs. g = hd0 xs \<and> plist (?W(p := None)) u xs"
  proof (cases "u = ?v")
    case True
    have "links ?W (ys @ zs)" unfolding s(3,4) by (rule links_unlink [OF l d])
    moreover have "links (?W(p := None)) (ys @ zs) = links ?W (ys @ zs)"
      using d by (intro links_cong) auto
    ultimately have "links (?W(p := None)) (ys @ zs)" by simp
    moreover have "q \<in> set (ys @ zs) \<longleftrightarrow> notify_of (?W(p := None)) q = Some ?v" for q
      using plist_mem [OF s(1), of q] d proj by auto
    ultimately have "plist (?W(p := None)) ?v (ys @ zs)" using d by (auto simp: plist_def)
    moreover have "g = hd0 (ys @ zs)" using g True s c(2) f(5) by (cases "ys = []") auto
    ultimately show ?thesis using True by blast
  next
    case False
    then obtain xs where xs: "g = hd0 xs" "plist W u xs" using lists_okE [OF ok, of u g] g by (auto split: if_splits)
    have "(?W(p := None)) q = W q" if "q \<in> set xs" for q
    proof -
      have q: "q \<notin> set (ys @ p # zs)" using that plist_mem [OF s(1)] plist_mem [OF xs(2)] False by simp
      then have "q \<noteq> p" by simp
      moreover have "ys = [] \<or> q \<noteq> last0 ys" using q last0_in [of ys] by auto
      moreover have "zs = [] \<or> q \<noteq> hd0 zs" using q hd0_in [of zs] by auto
      ultimately show ?thesis unfolding s(3,4) by (auto simp: fix_prev_def fix_next_def)
    qed
    then have "links (?W(p := None)) xs = links W xs" by (rule links_cong)
    then have "links (?W(p := None)) xs" using xs(2) by (simp add: plist_def)
    moreover have "notify_of (?W(p := None)) q = Some u \<longleftrightarrow> notify_of W q = Some u" for q
      using proj [of q] notify_of_Some [of W p c] c(1) False by auto
    ultimately have "plist (?W(p := None)) u xs" using xs(2) unfolding plist_def by blast
    then show ?thesis using xs(1) by blast
  qed
qed

end
