(* ===== verification/Evtchn_Dom.thy ===== *)
theory Evtchn_Dom
  imports Evtchn_Inv
begin

text \<open>
  The invariant of one domain, \<open>dom_ok\<close>, and that the steps of the event-channel operations inside
  a domain keep it: allocation of a port, binding, linking and closing.
\<close>

section \<open>The invariant\<close>

definition vcpus_ok :: "xdomain \<Rightarrow> bool" where
  "vcpus_ok D \<longleftrightarrow> d_vcpu D 0 \<noteq> None \<and> (\<forall>v. d_vcpu D v \<noteq> None \<longrightarrow> 0 \<le> v \<and> v < max_vcpus D)"

text \<open>What does not depend on the contents of channels and virtual CPUs.\<close>

definition frame_ok :: "xdomain \<Rightarrow> bool" where
  "frame_ok D \<longleftrightarrow>
     buckets_ok D \<and> (\<not> is_dying D \<longrightarrow> d_evtchn D 0 \<noteq> None) \<and> vcpus_ok D \<and> poll_ok D"

definition dom_ok :: "xdomain \<Rightarrow> bool" where
  "dom_ok D \<longleftrightarrow>
     frame_ok D \<and>
     chans_ok (evtchn_from_port D) (vhead D) \<and>
     virqs_ok (view ECS_VIRQ (evtchn_from_port D)) (vmap D) \<and>
     pirqs_ok (view ECS_PIRQ (evtchn_from_port D)) (pirq_to_evtchn D) \<and>
     lists_ok (view ECS_PIRQ (evtchn_from_port D)) (vhead D)"

definition rest :: "xdomain \<Rightarrow> xdomain \<Rightarrow> bool" where
  "rest D E \<longleftrightarrow>
     has_32bit_shinfo E = has_32bit_shinfo D \<and> is_dying E = is_dying D \<and> is_hvm E = is_hvm D \<and>
     max_vcpus E = max_vcpus D \<and> refcnt E = refcnt D \<and> poll_mask E = poll_mask D \<and>
     dom (d_evtchn E) = dom (d_evtchn D) \<and> dom (d_vcpu E) = dom (d_vcpu D)"

lemma rest_refl [simp]: "rest D D" by (simp add: rest_def)

lemma rest_trans: "rest D E \<Longrightarrow> rest E F \<Longrightarrow> rest D F"
  by (simp add: rest_def)

lemma rest_None:
  assumes "rest D E"
  shows "d_evtchn E i = None \<longleftrightarrow> d_evtchn D i = None" "d_vcpu E v = None \<longleftrightarrow> d_vcpu D v = None"
  using assms unfolding rest_def by (metis domIff)+

lemma dom_set_chn [simp]: "dom (d_evtchn (set_chn D p c)) = dom (d_evtchn D)"
  by (simp add: dom_def)

lemma rest_simps [simp]:
  "rest D (set_chn E p c) = rest D E"
  "rest D (E\<lparr>pirq_tree := t\<rparr>) = rest D E"
  "rest D (E\<lparr>emuirq_pirq := u\<rparr>) = rest D E"
  "rest D (E\<lparr>evtchn_pending := b\<rparr>) = rest D E"
  by (simp_all add: rest_def)

lemma rest_put_vcpu [simp]: "d_vcpu E v \<noteq> None \<Longrightarrow> rest D (put_vcpu E v V) = rest D E"
  by (simp add: rest_def insert_absorb domIff)

lemma MAX_EVTCHNS_cong: "has_32bit_shinfo E = has_32bit_shinfo D \<Longrightarrow> MAX_EVTCHNS E = MAX_EVTCHNS D"
  by (simp add: MAX_EVTCHNS_def BITS_PER_EVTCHN_WORD_def)

lemma frame_ok_transfer:
  assumes ok: "frame_ok D"
    and eqs: "has_32bit_shinfo E = has_32bit_shinfo D" "is_dying E = is_dying D" "max_vcpus E = max_vcpus D"
    and ec: "\<And>i. d_evtchn E i = None \<longleftrightarrow> d_evtchn D i = None"
    and vc: "\<And>v. d_vcpu E v = None \<longleftrightarrow> d_vcpu D v = None"
    and pm: "\<And>v. poll_mask E v \<Longrightarrow> poll_mask D v \<or> d_vcpu D v \<noteq> None"
  shows "frame_ok E"
proof -
  have "poll_ok E" using ok pm unfolding frame_ok_def poll_ok_def vc eqs by blast
  with ok show ?thesis
    unfolding frame_ok_def buckets_ok_def vcpus_ok_def ec vc eqs MAX_EVTCHNS_cong [OF eqs(1)] by blast
qed

lemma frame_ok_rest:
  assumes "frame_ok D" "rest D E"
  shows "frame_ok E"
  by (rule frame_ok_transfer [OF assms(1) _ _ _ rest_None [OF assms(2)]])
    (use assms(2) in \<open>simp_all add: rest_def\<close>)

lemma dom_okI:
  assumes "dom_ok D" "rest D E"
    and "chans_ok (evtchn_from_port E) (vhead E)"
    and "virqs_ok (view ECS_VIRQ (evtchn_from_port E)) (vmap E)"
    and "pirqs_ok (view ECS_PIRQ (evtchn_from_port E)) (pirq_to_evtchn E)"
    and "lists_ok (view ECS_PIRQ (evtchn_from_port E)) (vhead E)"
  shows "dom_ok E"
  using assms frame_ok_rest unfolding dom_ok_def by blast

lemma dom_okD:
  assumes "dom_ok D"
  shows "frame_ok D" "buckets_ok D" "vcpus_ok D" "poll_ok D"
    "chans_ok (evtchn_from_port D) (vhead D)"
    "virqs_ok (view ECS_VIRQ (evtchn_from_port D)) (vmap D)"
    "pirqs_ok (view ECS_PIRQ (evtchn_from_port D)) (pirq_to_evtchn D)"
    "lists_ok (view ECS_PIRQ (evtchn_from_port D)) (vhead D)"
  using assms by (simp_all add: dom_ok_def frame_ok_def)

lemma dom_ok_valid: "dom_ok D \<Longrightarrow> port_is_valid D p \<longleftrightarrow> evtchn_from_port D p \<noteq> None"
  by (simp add: port_is_valid_iff dom_okD(2))

lemma dom_ok_chan: "dom_ok D \<Longrightarrow> evtchn_from_port D p = Some c \<Longrightarrow> chan_ok (vhead D) p c"
  using dom_okD(5) unfolding chans_ok_def by blast

lemma vhead_None [simp]: "vhead D v = None \<longleftrightarrow> d_vcpu D v = None"
  by (simp add: vhead_def)

lemma dom_ok_vcpu0: "dom_ok D \<Longrightarrow> d_vcpu D 0 \<noteq> None"
  using dom_okD(3) by (simp add: vcpus_ok_def)

lemma dom_ok_notify: "dom_ok D \<Longrightarrow> evtchn_from_port D p = Some c \<Longrightarrow> d_vcpu D (notify_vcpu_id c) \<noteq> None"
  using dom_ok_chan [of D p c] by (simp add: chan_ok_def)

lemma pirq_to_evtchn_cong: "pirq_tree E = pirq_tree D \<Longrightarrow> pirq_to_evtchn E = pirq_to_evtchn D"
  by (simp add: pirq_to_evtchn_def fun_eq_iff)

text \<open>States that agree on what event channels are recorded in agree on the invariant.\<close>

lemma dom_ok_same:
  assumes "dom_ok D" "same_dom D E"
  shows "dom_ok E"
proof -
  have vc: "d_vcpu E v = None \<longleftrightarrow> d_vcpu D v = None" for v
    using assms(2) vhead_None unfolding same_dom_def by metis
  have "frame_ok E"
    by (rule frame_ok_transfer [OF dom_okD(1) [OF assms(1)] _ _ _ _ vc])
      (use assms(2) in \<open>simp_all add: same_dom_def\<close>)
  moreover have "evtchn_from_port E = evtchn_from_port D" "pirq_to_evtchn E = pirq_to_evtchn D"
      "vmap E = vmap D" "vhead E = vhead D"
    using assms(2) evtchn_from_port_cong [of E D] pirq_to_evtchn_cong [of E D] by (simp_all add: same_dom_def)
  ultimately show ?thesis using assms(1) by (simp add: dom_ok_def)
qed

section \<open>Finding a free port\<close>

lemma free_port_from_spec:
  "p \<le> free_port_from D p \<and>
   (\<forall>q. p \<le> q \<and> q < free_port_from D p \<longrightarrow> port_is_valid D q) \<and>
   (port_is_valid D (free_port_from D p) \<longrightarrow>
      (\<exists>c. evtchn_from_port D (free_port_from D p) = Some c \<and> ec_state c = ECS_FREE))"
proof (induction D p rule: free_port_from.induct)
  case (1 D p)
  let ?go = "port_is_valid D p \<and> (case evtchn_from_port D p of None \<Rightarrow> True | Some c \<Rightarrow> ec_state c \<noteq> ECS_FREE)"
  show ?case
  proof (cases ?go)
    case True
    then have eq: "free_port_from D p = free_port_from D (p + 1)" by (subst free_port_from.simps) simp
    have ih: "p + 1 \<le> free_port_from D (p + 1)"
        "\<forall>q. p + 1 \<le> q \<and> q < free_port_from D (p + 1) \<longrightarrow> port_is_valid D q"
        "port_is_valid D (free_port_from D (p + 1)) \<longrightarrow>
          (\<exists>c. evtchn_from_port D (free_port_from D (p + 1)) = Some c \<and> ec_state c = ECS_FREE)"
      using 1 [OF True] by blast+
    have "port_is_valid D q" if "p \<le> q" "q < free_port_from D (p + 1)" for q
      using that ih(2) True by (cases "q = p") auto
    with ih show ?thesis unfolding eq by auto
  next
    case False
    then have "free_port_from D p = p" by (subst free_port_from.simps) auto
    with False show ?thesis by (auto simp: port_is_valid_def evtchn_from_port_def split: option.splits)
  qed
qed

text \<open>A domain with a fresh bucket of zeroed channels.\<close>

definition add_bucket :: "xdomain \<Rightarrow> int \<Rightarrow> xdomain" where
  "add_bucket D i = D\<lparr>d_evtchn := (d_evtchn D)(i := Some (\<lambda>_. zero_evtchn))\<rparr>"

lemma evtchn_from_port_add_bucket:
  "evtchn_from_port (add_bucket D i) p = (if p div 128 = i then Some zero_evtchn else evtchn_from_port D p)"
  by (simp add: add_bucket_def evtchn_from_port_def bucket_from_port_def)

lemma add_bucket_other [simp]:
  "is_hvm (add_bucket D i) = is_hvm D" "has_32bit_shinfo (add_bucket D i) = has_32bit_shinfo D"
  "is_dying (add_bucket D i) = is_dying D" "refcnt (add_bucket D i) = refcnt D"
  "max_vcpus (add_bucket D i) = max_vcpus D" "d_vcpu (add_bucket D i) = d_vcpu D"
  "poll_mask (add_bucket D i) = poll_mask D" "evtchn_pending (add_bucket D i) = evtchn_pending D"
  "pirq_tree (add_bucket D i) = pirq_tree D" "vmap (add_bucket D i) = vmap D"
  "vhead (add_bucket D i) = vhead D" "MAX_EVTCHNS (add_bucket D i) = MAX_EVTCHNS D"
  by (simp_all add: add_bucket_def MAX_EVTCHNS_def BITS_PER_EVTCHN_WORD_def)

lemma view_add_bucket:
  assumes "d_evtchn D i = None" "S \<noteq> ECS_FREE"
  shows "view S (evtchn_from_port (add_bucket D i)) = view S (evtchn_from_port D)"
proof
  fix p
  show "view S (evtchn_from_port (add_bucket D i)) p = view S (evtchn_from_port D) p"
  proof (cases "p div 128 = i")
    case True
    then have "evtchn_from_port D p = None" using assms(1) by (simp add: evtchn_from_port_def bucket_from_port_def)
    with True assms(2) show ?thesis by (simp add: view_def evtchn_from_port_add_bucket zero_evtchn_def)
  qed (simp add: view_def evtchn_from_port_add_bucket)
qed

lemma dom_ok_add_bucket:
  assumes ok: "dom_ok D" and i: "0 < i" "i * 128 < MAX_EVTCHNS D" "d_evtchn D i = None"
    and below: "\<And>j. 0 \<le> j \<Longrightarrow> j < i \<Longrightarrow> d_evtchn D j \<noteq> None"
  shows "dom_ok (add_bucket D i)"
proof -
  have "buckets_ok (add_bucket D i)" unfolding buckets_ok_def
  proof (intro allI impI)
    fix k
    assume k: "d_evtchn (add_bucket D i) k \<noteq> None"
    show "0 \<le> k \<and> k * EVTCHNS_PER_BUCKET < MAX_EVTCHNS (add_bucket D i) \<and>
      (\<forall>j. 0 \<le> j \<and> j \<le> k \<longrightarrow> d_evtchn (add_bucket D i) j \<noteq> None)"
    proof (cases "k = i")
      case True
      with i below show ?thesis by (auto simp: add_bucket_def MAX_EVTCHNS_def BITS_PER_EVTCHN_WORD_def)
    next
      case False
      then have "d_evtchn D k \<noteq> None" using k by (simp add: add_bucket_def)
      then have "0 \<le> k" "k * 128 < MAX_EVTCHNS D" "\<forall>j. 0 \<le> j \<and> j \<le> k \<longrightarrow> d_evtchn D j \<noteq> None"
        using dom_okD(2) [OF ok] unfolding buckets_ok_def by blast+
      then show ?thesis by (simp add: add_bucket_def MAX_EVTCHNS_def BITS_PER_EVTCHN_WORD_def)
    qed
  qed
  moreover have "vcpus_ok (add_bucket D i)" "poll_ok (add_bucket D i)"
    using dom_okD(3,4) [OF ok] unfolding vcpus_ok_def poll_ok_def add_bucket_other by blast+
  moreover have "\<not> is_dying D \<longrightarrow> d_evtchn (add_bucket D i) 0 \<noteq> None"
    using dom_okD(1) [OF ok] by (simp add: frame_ok_def add_bucket_def)
  ultimately have f: "frame_ok (add_bucket D i)" by (simp add: frame_ok_def)
  have "vhead D 0 \<noteq> None" using dom_ok_vcpu0 [OF ok] by simp
  then have "chan_ok (vhead D) p zero_evtchn" if "p div 128 = i" for p
    using that i(1) by (auto simp: chan_ok_def zero_evtchn_def)
  then have "chans_ok (evtchn_from_port (add_bucket D i)) (vhead D)"
    using dom_okD(5) [OF ok] unfolding chans_ok_def evtchn_from_port_add_bucket by auto
  with f dom_okD(6-8) [OF ok] show ?thesis
    by (simp add: dom_ok_def view_add_bucket [OF i(3)] pirq_to_evtchn_cong [of "add_bucket D i" D])
qed

text \<open>The same domain with, perhaps, more free channels.\<close>

definition grown :: "xdomain \<Rightarrow> xdomain \<Rightarrow> bool" where
  "grown D E \<longleftrightarrow>
     E = D\<lparr>d_evtchn := d_evtchn E\<rparr> \<and>
     (\<forall>S. S \<noteq> ECS_FREE \<longrightarrow> view S (evtchn_from_port E) = view S (evtchn_from_port D))"

lemma grown_refl [simp]: "grown D D" by (simp add: grown_def)

lemma grown_add_bucket: "d_evtchn D i = None \<Longrightarrow> grown D (add_bucket D i)"
  by (simp add: grown_def view_add_bucket) (simp add: add_bucket_def)

lemma grownD:
  assumes "grown D E"
  shows "is_hvm E = is_hvm D" "has_32bit_shinfo E = has_32bit_shinfo D" "is_dying E = is_dying D"
    "refcnt E = refcnt D" "max_vcpus E = max_vcpus D" "d_vcpu E = d_vcpu D" "poll_mask E = poll_mask D"
    "evtchn_pending E = evtchn_pending D" "evtchn_mask E = evtchn_mask D" "pirq_tree E = pirq_tree D"
    "nr_pirqs E = nr_pirqs D" "vmap E = vmap D" "vhead E = vhead D"
    "S \<noteq> ECS_FREE \<Longrightarrow> view S (evtchn_from_port E) = view S (evtchn_from_port D)"
proof -
  have e: "E = D\<lparr>d_evtchn := d_evtchn E\<rparr>" using assms by (simp add: grown_def)
  show "is_hvm E = is_hvm D" "has_32bit_shinfo E = has_32bit_shinfo D" "is_dying E = is_dying D"
    "refcnt E = refcnt D" "max_vcpus E = max_vcpus D" "d_vcpu E = d_vcpu D" "poll_mask E = poll_mask D"
    "evtchn_pending E = evtchn_pending D" "evtchn_mask E = evtchn_mask D" "pirq_tree E = pirq_tree D"
    "nr_pirqs E = nr_pirqs D" "vmap E = vmap D" "vhead E = vhead D"
    by (subst e, simp)+
  show "view S (evtchn_from_port E) = view S (evtchn_from_port D)" if "S \<noteq> ECS_FREE"
    using assms that by (simp add: grown_def)
qed

lemma get_free_port_cases:
  assumes ok: "dom_ok D" and g: "get_free_port x D = (p, E)"
  obtains (error) "p < 0" "E = D"
  | (found) c where "0 < p" "dom_ok E" "evtchn_from_port E p = Some c" "ec_state c = ECS_FREE"
      "grown D E" "\<not> is_dying D"
proof (cases "p < 0")
  case neg: True
  then have "E = D" using g free_port_from_spec [of 0 D] by (auto simp: get_free_port_def Let_def split: if_splits)
  with neg show thesis by (rule error)
next
  case pos: False
  let ?f = "free_port_from D 0"
  note sp = free_port_from_spec [of 0 D]
  have alive: "\<not> is_dying D" and p: "p = ?f" using g pos by (auto simp: get_free_port_def Let_def split: if_splits)
  then have b0: "d_evtchn D 0 \<noteq> None" using dom_okD(1) [OF ok] by (simp add: frame_ok_def)
  show thesis
  proof (cases "port_is_valid D ?f")
    case True
    then have "E = D" using g alive by (simp add: get_free_port_def Let_def)
    obtain c where c: "evtchn_from_port D ?f = Some c" "ec_state c = ECS_FREE" using sp True by blast
    then have "?f \<noteq> 0" using dom_ok_chan [OF ok c(1)] by (auto simp: chan_ok_def)
    with sp have "0 < p" by (simp add: p)
    from found [OF this] ok c \<open>E = D\<close> alive show thesis by (simp add: p)
  next
    case False
    then have E: "E = add_bucket D (p div 128)" "p \<noteq> MAX_EVTCHNS D"
      using g alive pos by (auto simp: get_free_port_def Let_def p add_bucket_def split: if_splits)
    have pre: "port_is_valid D q" if "0 \<le> q" "q < p" for q using sp that p by blast
    have "0 \<le> p" using pos by simp
    have "p \<le> MAX_EVTCHNS D"
    proof (rule ccontr)
      assume "\<not> p \<le> MAX_EVTCHNS D"
      then have "port_is_valid D (MAX_EVTCHNS D)"
        using MAX_EVTCHNS_cases [of D] by (intro pre) auto
      then show False by (simp add: port_is_valid_def)
    qed
    with E(2) have max: "p < MAX_EVTCHNS D" by simp
    then have none: "d_evtchn D (p div 128) = None"
      using False \<open>0 \<le> p\<close> p by (simp add: port_is_valid_def bucket_from_port_def)
    then have "p div 128 \<noteq> 0" using b0 by metis
    then have i: "0 < p div 128" using \<open>0 \<le> p\<close> by (simp add: pos_imp_zdiv_nonneg_iff order_less_le)
    have "p div 128 * 128 < MAX_EVTCHNS D" using max by presburger
    moreover have "d_evtchn D j \<noteq> None" if "0 \<le> j" "j < p div 128" for j
    proof -
      have "port_is_valid D (j * 128)" using that by (intro pre) presburger+
      then show ?thesis by (simp add: port_is_valid_def bucket_from_port_def)
    qed
    ultimately have "dom_ok E" using dom_ok_add_bucket [OF ok i _ none] E(1) by simp
    moreover have "0 < p" using i \<open>0 \<le> p\<close> by (cases "p = 0") auto
    moreover have "evtchn_from_port E p = Some zero_evtchn" by (simp add: E(1) evtchn_from_port_add_bucket)
    ultimately show thesis using found [of zero_evtchn] grown_add_bucket [OF none] E(1) alive
      by (auto simp: zero_evtchn_def)
  qed
qed

section \<open>Changing one channel\<close>

lemma pirq_to_evtchn_simps [simp]:
  "pirq_to_evtchn (set_chn D p c) = pirq_to_evtchn D"
  "pirq_to_evtchn (put_vcpu D v V) = pirq_to_evtchn D"
  "pirq_to_evtchn (D\<lparr>evtchn_pending := m\<rparr>) = pirq_to_evtchn D"
  "pirq_to_evtchn (D\<lparr>emuirq_pirq := e\<rparr>) = pirq_to_evtchn D"
  by (simp_all add: pirq_to_evtchn_def fun_eq_iff)

lemma dom_ok_set_neutral:
  assumes ok: "dom_ok D" and c: "evtchn_from_port D p = Some c" and c': "chan_ok (vhead D) p c'"
    and old: "ec_state c \<notin> {ECS_VIRQ, ECS_PIRQ}" and new: "ec_state c' \<notin> {ECS_VIRQ, ECS_PIRQ}"
  shows "dom_ok (set_chn D p c')"
proof (rule dom_okI [OF ok])
  have ch: "evtchn_from_port (set_chn D p c') = (evtchn_from_port D)(p := Some c')" using c by simp
  have v: "view ECS_VIRQ (evtchn_from_port (set_chn D p c')) = view ECS_VIRQ (evtchn_from_port D)"
    and q: "view ECS_PIRQ (evtchn_from_port (set_chn D p c')) = view ECS_PIRQ (evtchn_from_port D)"
    unfolding ch using c old new by (auto intro!: view_upd_other [where c = c])
  show "chans_ok (evtchn_from_port (set_chn D p c')) (vhead (set_chn D p c'))"
    unfolding ch using chans_ok_upd [OF dom_okD(5) [OF ok] c'] by simp
  show "virqs_ok (view ECS_VIRQ (evtchn_from_port (set_chn D p c'))) (vmap (set_chn D p c'))"
    unfolding v using dom_okD(6) [OF ok] by simp
  show "pirqs_ok (view ECS_PIRQ (evtchn_from_port (set_chn D p c'))) (pirq_to_evtchn (set_chn D p c'))"
    unfolding q using dom_okD(7) [OF ok] by simp
  show "lists_ok (view ECS_PIRQ (evtchn_from_port (set_chn D p c'))) (vhead (set_chn D p c'))"
    unfolding q using dom_okD(8) [OF ok] by simp
qed simp

lemma dom_ok_pending [simp]: "dom_ok (D\<lparr>evtchn_pending := m\<rparr>) = dom_ok D"
proof -
  have "frame_ok (D\<lparr>evtchn_pending := m\<rparr>) = frame_ok D"
    using frame_ok_rest [of D "D\<lparr>evtchn_pending := m\<rparr>"] frame_ok_rest [of "D\<lparr>evtchn_pending := m\<rparr>" D]
    by (auto simp: rest_def)
  then show ?thesis by (simp add: dom_ok_def)
qed

lemma vmap_Some: "d_vcpu D v = Some V \<Longrightarrow> vmap D v = (\<lambda>q. Some (virq_to_evtchn V q))"
  by (simp add: vmap_def fun_eq_iff)

lemma dom_ok_bind_virq:
  assumes ok: "dom_ok D" and c: "evtchn_from_port D p = Some c" "ec_state c = ECS_FREE"
    and V: "d_vcpu D v = Some V" "virq_to_evtchn V q = 0"
    and q: "0 \<le> q" "q < NR_VIRQS" "per_vcpu q \<or> v = 0"
  shows "dom_ok (put_vcpu (set_chn D p (c\<lparr>ec_state := ECS_VIRQ, notify_vcpu_id := v, u_lo := q\<rparr>)) v
    (V\<lparr>virq_to_evtchn := (virq_to_evtchn V)(q := p)\<rparr>))" (is "dom_ok ?E")
proof (rule dom_okI [OF ok])
  let ?c = "c\<lparr>ec_state := ECS_VIRQ, notify_vcpu_id := v, u_lo := q\<rparr>"
  have ch: "evtchn_from_port ?E = (evtchn_from_port D)(p := Some ?c)" using c by simp
  have p: "p \<noteq> 0" "\<not> consumer_is_xen c" using dom_ok_chan [OF ok c(1)] c(2) by (auto simp: chan_ok_def)
  have vh: "vhead ?E = vhead D" using V(1) by (auto simp: vhead_def fun_eq_iff)
  have w: "view ECS_VIRQ (evtchn_from_port ?E) = (view ECS_VIRQ (evtchn_from_port D))(p := Some ?c)"
    unfolding ch by (simp add: view_upd)
  have pv: "view ECS_PIRQ (evtchn_from_port ?E) = view ECS_PIRQ (evtchn_from_port D)"
    unfolding ch using c by (intro view_upd_other [where c = c]) simp_all
  show "rest D ?E" using V(1) by simp
  show "chans_ok (evtchn_from_port ?E) (vhead ?E)"
    unfolding ch vh using p V(1) by (intro chans_ok_upd [OF dom_okD(5) [OF ok]]) (simp add: chan_ok_def)
  have "vmap ?E = (vmap D)(v := (vmap D v)(u_lo ?c := Some p))"
    using V(1) by (auto simp: vmap_Some fun_eq_iff)
  moreover have "virqs_ok ((view ECS_VIRQ (evtchn_from_port D))(p := Some ?c))
      ((vmap D)(v := (vmap D v)(u_lo ?c := Some p)))"
    using V q p c by (intro virqs_ok_bind [OF dom_okD(6) [OF ok]])
      (auto simp: vmap_Some virq_owner_def view_None)
  ultimately show "virqs_ok (view ECS_VIRQ (evtchn_from_port ?E)) (vmap ?E)" unfolding w by simp
  show "pirqs_ok (view ECS_PIRQ (evtchn_from_port ?E)) (pirq_to_evtchn ?E)"
    unfolding pv using dom_okD(7) [OF ok] by simp
  show "lists_ok (view ECS_PIRQ (evtchn_from_port ?E)) (vhead ?E)"
    unfolding pv vh by (rule dom_okD(8) [OF ok])
qed

section \<open>Virtual-interrupt channels\<close>

definition clr_virq :: "int \<Rightarrow> port \<Rightarrow> vcpu \<Rightarrow> vcpu" where
  "clr_virq q p V = (if virq_to_evtchn V q \<noteq> p then V
     else V\<lparr>virq_to_evtchn := (virq_to_evtchn V)(q := 0)\<rparr>)"

lemma clr_virq_simps [simp]:
  "virq_to_evtchn (clr_virq q p V) u = (if u = q \<and> virq_to_evtchn V u = p then 0 else virq_to_evtchn V u)"
  "pirq_evtchn_head (clr_virq q p V) = pirq_evtchn_head V"
  by (auto simp: clr_virq_def)

lemma clear_virq_eq: "d_vcpu D v = Some V \<Longrightarrow> clear_virq q p v D = Some (put_vcpu D v (clr_virq q p V))"
  by (simp add: clear_virq_def clr_virq_def)

lemma clear_virq_fold:
  assumes "distinct vs" "\<And>v. v \<in> set vs \<Longrightarrow> d_vcpu D v \<noteq> None"
  shows "foldM (clear_virq q p) vs D =
    Some (D\<lparr>d_vcpu := (\<lambda>v. if v \<in> set vs then map_option (clr_virq q p) (d_vcpu D v) else d_vcpu D v)\<rparr>)"
  using assms
proof (induction vs arbitrary: D)
  case Nil
  then show ?case by simp
next
  case (Cons v vs)
  then obtain V where V: "d_vcpu D v = Some V" by (metis list.set_intros(1) not_None_eq)
  let ?E = "put_vcpu D v (clr_virq q p V)"
  have "d_vcpu ?E u \<noteq> None" if "u \<in> set vs" for u using Cons.prems(2) [of u] that by simp
  with Cons have "foldM (clear_virq q p) vs ?E =
      Some (?E\<lparr>d_vcpu := (\<lambda>u. if u \<in> set vs then map_option (clr_virq q p) (d_vcpu ?E u) else d_vcpu ?E u)\<rparr>)"
    by simp
  also have "?E\<lparr>d_vcpu := (\<lambda>u. if u \<in> set vs then map_option (clr_virq q p) (d_vcpu ?E u) else d_vcpu ?E u)\<rparr> =
      D\<lparr>d_vcpu := (\<lambda>u. if u \<in> set (v # vs) then map_option (clr_virq q p) (d_vcpu D u) else d_vcpu D u)\<rparr>"
    using Cons.prems(1) V by (auto simp: put_vcpu_def fun_eq_iff)
  finally show ?case by (simp add: clear_virq_eq [OF V])
qed

lemma vcpu_list_set: "vcpus_ok D \<Longrightarrow> set (vcpu_list D) = {v. d_vcpu D v \<noteq> None}"
  unfolding vcpus_ok_def vcpu_list_def by auto

lemma clear_virq_all:
  assumes "vcpus_ok D"
  shows "foldM (clear_virq q p) (vcpu_list D) D =
    Some (D\<lparr>d_vcpu := (\<lambda>v. map_option (clr_virq q p) (d_vcpu D v))\<rparr>)"
proof -
  have "distinct (vcpu_list D)" by (simp add: vcpu_list_def)
  moreover have "(\<lambda>v. if v \<in> set (vcpu_list D) then map_option (clr_virq q p) (d_vcpu D v) else d_vcpu D v) =
      (\<lambda>v. map_option (clr_virq q p) (d_vcpu D v))"
    using vcpu_list_set [OF assms] by (auto simp: fun_eq_iff)
  ultimately show ?thesis using clear_virq_fold [of "vcpu_list D" D q p] vcpu_list_set [OF assms] by simp
qed

text \<open>Freeing a channel: the end of \<^verbatim>\<open>__evtchn_close\<close>.\<close>

definition free_chn :: "evtchn \<Rightarrow> evtchn" where
  "free_chn c = c\<lparr>ec_state := ECS_FREE, notify_vcpu_id := 0\<rparr>"

lemma free_chn_simps [simp]: "ec_state (free_chn c) = ECS_FREE" "notify_vcpu_id (free_chn c) = 0"
  "xen_consumer (free_chn c) = xen_consumer c"
  by (simp_all add: free_chn_def)

lemma chan_ok_free: "vh 0 \<noteq> None \<Longrightarrow> p \<noteq> 0 \<Longrightarrow> \<not> consumer_is_xen c \<Longrightarrow> chan_ok vh p (free_chn c)"
  by (simp add: chan_ok_def)

lemma dom_ok_close_virq:
  assumes ok: "dom_ok D" and c: "evtchn_from_port D p = Some c" "ec_state c = ECS_VIRQ"
  shows "dom_ok (set_chn (D\<lparr>d_vcpu := (\<lambda>v. map_option (clr_virq (u_lo c) p) (d_vcpu D v))\<rparr>) p (free_chn c))"
    (is "dom_ok (set_chn ?D p _)")
proof (rule dom_okI [OF ok])
  let ?E = "set_chn ?D p (free_chn c)"
  have cD: "evtchn_from_port ?D = evtchn_from_port D" by (rule evtchn_from_port_cong) simp
  have ch: "evtchn_from_port ?E = (evtchn_from_port D)(p := Some (free_chn c))" using c cD by simp
  have p: "p \<noteq> 0" "\<not> consumer_is_xen c" using dom_ok_chan [OF ok c(1)] c(2) by (auto simp: chan_ok_def)
  have vh: "vhead ?E = vhead D" by (simp add: vhead_def fun_eq_iff option.map_comp comp_def)
  have vm: "vmap ?E = (\<lambda>v q. if q = u_lo c \<and> vmap D v q = Some p then Some 0 else vmap D v q)"
  proof (intro ext)
    fix v q
    show "vmap ?E v q = (if q = u_lo c \<and> vmap D v q = Some p then Some 0 else vmap D v q)"
      by (cases "d_vcpu D v") (auto simp: vmap_def)
  qed
  have w: "view ECS_VIRQ (evtchn_from_port ?E) = (view ECS_VIRQ (evtchn_from_port D))(p := None)"
    unfolding ch by (simp add: view_upd)
  have pv: "view ECS_PIRQ (evtchn_from_port ?E) = view ECS_PIRQ (evtchn_from_port D)"
    unfolding ch using c by (intro view_upd_other [where c = c]) simp_all
  have pe: "pirq_to_evtchn ?E = pirq_to_evtchn D" by (rule pirq_to_evtchn_cong) simp
  have "dom (d_vcpu ?D) = dom (d_vcpu D)" by (auto simp: dom_def)
  then show "rest D ?E" by (simp add: rest_def)
  show "chans_ok (evtchn_from_port ?E) (vhead ?E)" unfolding ch vh
    using p dom_ok_vcpu0 [OF ok] by (intro chans_ok_upd [OF dom_okD(5) [OF ok]] chan_ok_free) simp_all
  show "virqs_ok (view ECS_VIRQ (evtchn_from_port ?E)) (vmap ?E)" unfolding w vm
    using c by (intro virqs_ok_close [OF dom_okD(6) [OF ok]]) simp
  show "pirqs_ok (view ECS_PIRQ (evtchn_from_port ?E)) (pirq_to_evtchn ?E)"
    unfolding pv pe by (rule dom_okD(7) [OF ok])
  show "lists_ok (view ECS_PIRQ (evtchn_from_port ?E)) (vhead ?E)"
    unfolding pv vh by (rule dom_okD(8) [OF ok])
qed

lemma dom_ok_retarget_virq:
  assumes ok: "dom_ok D" and c: "evtchn_from_port D p = Some c" "ec_state c = ECS_VIRQ"
    and g: "\<not> per_vcpu (u_lo c)" "d_vcpu D v \<noteq> None"
  shows "dom_ok (set_chn D p (c\<lparr>notify_vcpu_id := v\<rparr>))" (is "dom_ok ?E")
proof (rule dom_okI [OF ok])
  let ?c = "c\<lparr>notify_vcpu_id := v\<rparr>"
  have ch: "evtchn_from_port ?E = (evtchn_from_port D)(p := Some ?c)" using c by simp
  have w: "view ECS_VIRQ (evtchn_from_port ?E) = (view ECS_VIRQ (evtchn_from_port D))(p := Some ?c)"
    unfolding ch using c by (simp add: view_upd)
  have pv: "view ECS_PIRQ (evtchn_from_port ?E) = view ECS_PIRQ (evtchn_from_port D)"
    unfolding ch using c by (intro view_upd_other [where c = c]) simp_all
  show "chans_ok (evtchn_from_port ?E) (vhead ?E)"
    unfolding ch using dom_ok_chan [OF ok c(1)] c(2) g(2)
    by (auto intro!: chans_ok_upd [OF dom_okD(5) [OF ok]] simp: chan_ok_def)
  show "virqs_ok (view ECS_VIRQ (evtchn_from_port ?E)) (vmap ?E)"
    unfolding w using virqs_ok_retarget [OF dom_okD(6) [OF ok], of p c v] c g(1) by simp
  show "pirqs_ok (view ECS_PIRQ (evtchn_from_port ?E)) (pirq_to_evtchn ?E)"
    unfolding pv using dom_okD(7) [OF ok] by simp
  show "lists_ok (view ECS_PIRQ (evtchn_from_port ?E)) (vhead ?E)"
    unfolding pv using dom_okD(8) [OF ok] by simp
qed simp

end
