(* ===== verification/Evtchn_Pirq.thy ===== *)
theory Evtchn_Pirq
  imports Evtchn_Dom
begin

text \<open>
  Physical-interrupt channels inside a domain: binding, closing and moving one to another virtual
  CPU keep the doubly linked lists of their ports and the invariant of the domain.
\<close>

section \<open>Writes into neighbours\<close>

lemma fix_prev_None: "W k = None \<Longrightarrow> fix_prev W k n = W"
  by (simp add: fix_prev_def fun_upd_idem)

lemma fix_next_None: "W k = None \<Longrightarrow> fix_next W k n = W"
  by (simp add: fix_next_def fun_upd_idem)

lemma chan_ok_proj:
  "chan_ok vh p (c\<lparr>u_prev := n\<rparr>) = chan_ok vh p c" "chan_ok vh p (c\<lparr>u_next := n\<rparr>) = chan_ok vh p c"
  by (simp_all add: chan_ok_def)

lemma chans_ok_fix:
  assumes "chans_ok ch vh"
  shows "chans_ok (fix_prev ch k n) vh" "chans_ok (fix_next ch k n) vh"
  using assms by (auto simp: chans_ok_def fix_prev_def fix_next_def chan_ok_proj split: if_splits)

lemma chans_ok_vhead:
  assumes "chans_ok ch vh" "\<And>v. vh' v = None \<longleftrightarrow> vh v = None"
  shows "chans_ok ch vh'"
proof -
  have "chan_ok vh' p c = chan_ok vh p c" for p c unfolding chan_ok_def using assms(2) by simp
  with assms(1) show ?thesis by (simp add: chans_ok_def)
qed

definition chn_prev :: "xdomain \<Rightarrow> port \<Rightarrow> port \<Rightarrow> xdomain" where
  "chn_prev D k n = (if k = 0 then D else set_chn D k ((the (evtchn_from_port D k))\<lparr>u_prev := n\<rparr>))"

definition chn_next :: "xdomain \<Rightarrow> port \<Rightarrow> port \<Rightarrow> xdomain" where
  "chn_next D k n = (if k = 0 then D else set_chn D k ((the (evtchn_from_port D k))\<lparr>u_next := n\<rparr>))"

lemma chn_prev_other [simp]:
  "is_hvm (chn_prev D k n) = is_hvm D" "is_dying (chn_prev D k n) = is_dying D"
  "d_vcpu (chn_prev D k n) = d_vcpu D" "pirq_tree (chn_prev D k n) = pirq_tree D"
  "vmap (chn_prev D k n) = vmap D" "vhead (chn_prev D k n) = vhead D"
  "evtchn_pending (chn_prev D k n) = evtchn_pending D"
  "rest E (chn_prev D k n) = rest E D" "pirq_to_evtchn (chn_prev D k n) = pirq_to_evtchn D"
  by (simp_all add: chn_prev_def)

lemma chn_next_other [simp]:
  "is_hvm (chn_next D k n) = is_hvm D" "is_dying (chn_next D k n) = is_dying D"
  "d_vcpu (chn_next D k n) = d_vcpu D" "pirq_tree (chn_next D k n) = pirq_tree D"
  "vmap (chn_next D k n) = vmap D" "vhead (chn_next D k n) = vhead D"
  "evtchn_pending (chn_next D k n) = evtchn_pending D"
  "rest E (chn_next D k n) = rest E D" "pirq_to_evtchn (chn_next D k n) = pirq_to_evtchn D"
  by (simp_all add: chn_next_def)

lemma chn_prev_next_chn:
  assumes "k \<noteq> 0 \<Longrightarrow> evtchn_from_port D k \<noteq> None"
  shows "evtchn_from_port (chn_prev D k n) = fix_prev (evtchn_from_port D) k n"
    "evtchn_from_port (chn_next D k n) = fix_next (evtchn_from_port D) k n"
    "(if k \<noteq> 0 then upd_chn D k (\<lambda>c. c\<lparr>u_prev := n\<rparr>) else Some D) = Some (chn_prev D k n)"
    "(if k \<noteq> 0 then upd_chn D k (\<lambda>c. c\<lparr>u_next := n\<rparr>) else Some D) = Some (chn_next D k n)"
  using assms by (auto simp: chn_prev_def chn_next_def fix_prev_def fix_next_def upd_chn_def)

lemma nr_pirqs_simps [simp]:
  "nr_pirqs (set_chn D p c) = nr_pirqs D" "nr_pirqs (put_vcpu D v V) = nr_pirqs D"
  "nr_pirqs (chn_prev D k n) = nr_pirqs D" "nr_pirqs (chn_next D k n) = nr_pirqs D"
  by (simp_all add: set_chn_def put_vcpu_def chn_prev_def chn_next_def)

section \<open>Linking and unlinking\<close>

lemma link_pirq_port_eq:
  assumes V: "d_vcpu D v = Some V" and c: "evtchn_from_port D p = Some c"
    and h: "pirq_evtchn_head V \<noteq> 0 \<Longrightarrow> evtchn_from_port D (pirq_evtchn_head V) \<noteq> None"
  shows "\<exists>E. link_pirq_port D p v = Some E \<and>
    evtchn_from_port E = fix_prev ((evtchn_from_port D)(p := Some (c\<lparr>u_prev := 0, u_next := pirq_evtchn_head V\<rparr>)))
      (pirq_evtchn_head V) p \<and>
    vhead E = (vhead D)(v := Some p) \<and> vmap E = vmap D \<and> pirq_tree E = pirq_tree D \<and>
    nr_pirqs E = nr_pirqs D \<and> evtchn_pending E = evtchn_pending D \<and> rest D E"
proof -
  let ?h = "pirq_evtchn_head V"
  define D1 where "D1 = set_chn D p (c\<lparr>u_prev := 0, u_next := ?h\<rparr>)"
  have h1: "?h \<noteq> 0 \<Longrightarrow> evtchn_from_port D1 ?h \<noteq> None" using h c by (simp add: D1_def)
  have "upd_chn D p (\<lambda>c. c\<lparr>u_prev := 0, u_next := ?h\<rparr>) = Some D1"
    by (simp add: upd_chn_Some [OF c] D1_def)
  then have "link_pirq_port D p v = Some (put_vcpu (chn_prev D1 ?h p) v (V\<lparr>pirq_evtchn_head := p\<rparr>))"
    using V chn_prev_next_chn(3) [of ?h D1 p] h1
    by (simp add: link_pirq_port_def Let_def split del: if_split)
  moreover have "evtchn_from_port (chn_prev D1 ?h p) = fix_prev (evtchn_from_port D1) ?h p"
    by (rule chn_prev_next_chn(1)) (rule h1)
  moreover have "vmap (put_vcpu (chn_prev D1 ?h p) v (V\<lparr>pirq_evtchn_head := p\<rparr>)) = vmap D"
    using V by (auto simp: D1_def vmap_def fun_eq_iff)
  ultimately show ?thesis using V c by (simp add: D1_def)
qed

lemma unlink_pirq_port_eq:
  assumes l: "lists_ok (view ECS_PIRQ (evtchn_from_port D)) (vhead D)"
    and c: "evtchn_from_port D p = Some c" "ec_state c = ECS_PIRQ"
    and V: "d_vcpu D (notify_vcpu_id c) = Some V"
  shows "\<exists>E. unlink_pirq_port D c (notify_vcpu_id c) = Some E \<and>
    evtchn_from_port E = fix_prev (fix_next (evtchn_from_port D) (u_prev c) (u_next c)) (u_next c) (u_prev c) \<and>
    vhead E = (if u_prev c = 0 then (vhead D)(notify_vcpu_id c := Some (u_next c)) else vhead D) \<and>
    vmap E = vmap D \<and> pirq_tree E = pirq_tree D \<and> nr_pirqs E = nr_pirqs D \<and>
    evtchn_pending E = evtchn_pending D \<and> rest D E \<and> u_prev c \<noteq> p \<and> u_next c \<noteq> p"
proof -
  let ?v = "notify_vcpu_id c" and ?k = "u_prev c" and ?n = "u_next c"
  have "view ECS_PIRQ (evtchn_from_port D) p = Some c" "vhead D ?v = Some (pirq_evtchn_head V)"
    using c V by (simp_all add: vhead_def)
  from lists_ok_neighbours [OF l this] obtain ys zs where
    s: "plist (view ECS_PIRQ (evtchn_from_port D)) ?v (ys @ p # zs)" "?k = last0 ys" "?n = hd0 zs" by metis
  note f = neighbours_facts [OF s(1), folded s(2,3)]
  have k: "?k \<noteq> 0 \<Longrightarrow> evtchn_from_port D ?k \<noteq> None" and n: "?n \<noteq> 0 \<Longrightarrow> evtchn_from_port D ?n \<noteq> None"
    using f(3,4) by (auto simp: view_def split: option.splits)
  define D1 where "D1 = (if ?k = 0 then put_vcpu D ?v (V\<lparr>pirq_evtchn_head := ?n\<rparr>) else chn_next D ?k ?n)"
  have ch1: "evtchn_from_port D1 = fix_next (evtchn_from_port D) ?k ?n"
    using chn_prev_next_chn(2) [of ?k D ?n] k by (auto simp: D1_def fix_next_def)
  have n1: "?n \<noteq> 0 \<Longrightarrow> evtchn_from_port D1 ?n \<noteq> None" unfolding ch1 using n by (auto simp: fix_next_def)
  have "(if ?k \<noteq> 0 then upd_chn D ?k (\<lambda>b. b\<lparr>u_next := ?n\<rparr>)
      else Some (put_vcpu D ?v (V\<lparr>pirq_evtchn_head := ?n\<rparr>))) = Some D1"
    using chn_prev_next_chn(4) [of ?k D ?n] k by (cases "?k = 0") (simp_all add: D1_def)
  with V chn_prev_next_chn(3) [of ?n D1 ?k] n1
  have "unlink_pirq_port D c ?v = Some (chn_prev D1 ?n ?k)"
    by (simp add: unlink_pirq_port_def split del: if_split)
  moreover have "evtchn_from_port (chn_prev D1 ?n ?k) = fix_prev (fix_next (evtchn_from_port D) ?k ?n) ?n ?k"
    unfolding ch1 [symmetric] by (rule chn_prev_next_chn(1)) (rule n1)
  moreover have "vmap D1 = vmap D" using V by (auto simp: D1_def vmap_def fun_eq_iff)
  ultimately show ?thesis using V f(1,2) by (simp add: D1_def)
qed

lemma view_fix_other:
  assumes "S \<noteq> ECS_PIRQ" "k \<noteq> 0 \<Longrightarrow> view ECS_PIRQ ch k \<noteq> None"
  shows "view S (fix_prev ch k n) = view S ch" "view S (fix_next ch k n) = view S ch"
proof -
  have "k = 0 \<or> view S ch k = None"
    using assms by (cases "k = 0") (auto simp: view_def split: option.splits if_splits)
  then show "view S (fix_prev ch k n) = view S ch" "view S (fix_next ch k n) = view S ch"
    by (auto simp: fix_prev_None fix_next_None) (simp_all add: fix_prev_def fix_next_def)
qed

text \<open>A changed tree of physical interrupts with the same ports in it.\<close>

lemma dom_ok_pirq_tree:
  assumes "dom_ok D" "pirq_to_evtchn (D\<lparr>pirq_tree := t\<rparr>) = pirq_to_evtchn D"
  shows "dom_ok (D\<lparr>pirq_tree := t\<rparr>)"
  by (rule dom_okI [OF assms(1)]) (use dom_okD [OF assms(1)] assms(2) in simp_all)

lemma dom_ok_emuirq:
  assumes "dom_ok D"
  shows "dom_ok (D\<lparr>emuirq_pirq := t\<rparr>)"
  by (rule dom_okI [OF assms]) (use dom_okD [OF assms] in simp_all)

lemma pirq_to_evtchn_set_pirq:
  "pirq_tree D q = Some i \<Longrightarrow>
    pirq_to_evtchn (set_pirq D q f) = (pirq_to_evtchn D)(q := pirq_evtchn (f i))"
  by (auto simp: pirq_to_evtchn_def set_pirq_def fun_eq_iff)

lemma set_pirq_same: "(\<And>i. pirq_evtchn (f i) = pirq_evtchn i) \<Longrightarrow> pirq_to_evtchn (set_pirq D q f) = pirq_to_evtchn D"
  by (auto simp: pirq_to_evtchn_def set_pirq_def fun_eq_iff split: option.splits)

lemma dom_ok_set_pirq: "dom_ok D \<Longrightarrow> (\<And>i. pirq_evtchn (f i) = pirq_evtchn i) \<Longrightarrow> dom_ok (set_pirq D q f)"
  using set_pirq_same [of f D q] dom_ok_pirq_tree [of D] by (simp add: set_pirq_def)

lemma set_pirq_other [simp]:
  "evtchn_from_port (set_pirq D q f) = evtchn_from_port D" "d_vcpu (set_pirq D q f) = d_vcpu D"
  "vmap (set_pirq D q f) = vmap D" "vhead (set_pirq D q f) = vhead D" "is_hvm (set_pirq D q f) = is_hvm D"
  "nr_pirqs (set_pirq D q f) = nr_pirqs D" "rest E (set_pirq D q f) = rest E D"
  "evtchn_pending (set_pirq D q f) = evtchn_pending D"
  by (simp_all add: set_pirq_def)

lemma lists_ok_head:
  assumes "lists_ok W vh" "vh v = Some h" "h \<noteq> 0"
  shows "W h \<noteq> None"
proof -
  obtain xs where "h = hd0 xs" "plist W v xs" using lists_okE [OF assms(1,2)] .
  then show ?thesis using assms(3) hd0_in [of xs] by (cases "xs = []") (auto simp: plist_mem notify_of_def)
qed

section \<open>Binding\<close>

lemma pirq_bind_ok:
  assumes ok: "dom_ok D" and c: "evtchn_from_port D p = Some c" "ec_state c = ECS_FREE"
    and i: "pirq_tree D q = Some i" "pirq_evtchn i = 0"
  shows "\<exists>E. link_pirq_port (set_chn (set_pirq D q (\<lambda>i. i\<lparr>pirq_evtchn := p\<rparr>)) p
        (c\<lparr>ec_state := ECS_PIRQ, u_lo := q\<rparr>)) p 0 = Some E \<and>
    dom_ok E \<and> rest D E \<and> nr_pirqs E = nr_pirqs D \<and> evtchn_pending E = evtchn_pending D \<and>
    pirq_tree E q = Some (i\<lparr>pirq_evtchn := p\<rparr>) \<and>
    (\<exists>b. evtchn_from_port E p = Some b \<and> ec_state b = ECS_PIRQ \<and> u_lo b = q) \<and>
    (\<forall>S. S \<noteq> ECS_PIRQ \<and> S \<noteq> ECS_FREE \<longrightarrow> view S (evtchn_from_port E) = view S (evtchn_from_port D))"
proof -
  let ?W = "view ECS_PIRQ (evtchn_from_port D)"
  define D3 where "D3 = set_pirq D q (\<lambda>i. i\<lparr>pirq_evtchn := p\<rparr>)"
  define D4 where "D4 = set_chn D3 p (c\<lparr>ec_state := ECS_PIRQ, u_lo := q\<rparr>)"
  have p: "p \<noteq> 0" "\<not> consumer_is_xen c" "notify_vcpu_id c = 0"
    using dom_ok_chan [OF ok c(1)] c(2) by (auto simp: chan_ok_def)
  obtain V where V: "d_vcpu D 0 = Some V" using dom_ok_vcpu0 [OF ok] by auto
  let ?h = "pirq_evtchn_head V"
  have vh0: "vhead D 0 = Some ?h" using V by (simp add: vhead_def)
  have h: "?h \<noteq> 0 \<Longrightarrow> ?W ?h \<noteq> None" using lists_ok_head [OF dom_okD(8) [OF ok] vh0] .
  have Wp: "?W p = None" using c by (simp add: view_None)
  have hp: "?h \<noteq> p" using h Wp p(1) by metis
  have ch4: "evtchn_from_port D4 = (evtchn_from_port D)(p := Some (c\<lparr>ec_state := ECS_PIRQ, u_lo := q\<rparr>))"
    using c by (simp add: D4_def D3_def)
  have h4: "?h \<noteq> 0 \<Longrightarrow> evtchn_from_port D4 ?h \<noteq> None"
    unfolding ch4 using h by (auto simp: view_def split: option.splits)
  have V4: "d_vcpu D4 0 = Some V" using V by (simp add: D4_def D3_def)
  have c4: "evtchn_from_port D4 p = Some (c\<lparr>ec_state := ECS_PIRQ, u_lo := q\<rparr>)" by (simp add: ch4)
  let ?b = "c\<lparr>ec_state := ECS_PIRQ, u_lo := q, u_prev := 0, u_next := ?h\<rparr>"
  from link_pirq_port_eq [OF V4 c4 h4] obtain E where E: "link_pirq_port D4 p 0 = Some E"
    "evtchn_from_port E = fix_prev ((evtchn_from_port D)(p := Some ?b)) ?h p"
    "vhead E = (vhead D)(0 := Some p)" "vmap E = vmap D" "pirq_tree E = pirq_tree D4"
    "nr_pirqs E = nr_pirqs D" "evtchn_pending E = evtchn_pending D" "rest D4 E"
    unfolding ch4 by (auto simp: D4_def D3_def)
  have r: "rest D E" using rest_trans [OF _ E(8), of D] by (simp add: D4_def D3_def)
  have w: "view ECS_PIRQ (evtchn_from_port E) = fix_prev (?W(p := Some ?b)) ?h p"
    unfolding E(2) by (simp add: view_upd)
  have other: "view S (evtchn_from_port E) = view S (evtchn_from_port D)" if "S \<noteq> ECS_PIRQ" "S \<noteq> ECS_FREE" for S
  proof -
    have "view S (fix_prev ((evtchn_from_port D)(p := Some ?b)) ?h p) = view S ((evtchn_from_port D)(p := Some ?b))"
      using that(1) h hp by (intro view_fix_other) (simp_all add: view_upd)
    also have "\<dots> = view S (evtchn_from_port D)" using c that by (intro view_upd_other [where c = c]) simp_all
    finally show ?thesis by (simp add: E(2))
  qed
  have pe: "pirq_to_evtchn E = (pirq_to_evtchn D)(q := p)"
    using pirq_to_evtchn_set_pirq [OF i(1), of "\<lambda>i. i\<lparr>pirq_evtchn := p\<rparr>"] pirq_to_evtchn_cong [OF E(5)]
    by (simp add: D4_def D3_def)
  have "dom_ok E"
  proof (rule dom_okI [OF ok r])
    have "chans_ok ((evtchn_from_port D)(p := Some ?b)) (vhead D)"
      using p V by (intro chans_ok_upd [OF dom_okD(5) [OF ok]]) (simp add: chan_ok_def)
    then have "chans_ok (evtchn_from_port E) (vhead D)" unfolding E(2) by (rule chans_ok_fix)
    then show "chans_ok (evtchn_from_port E) (vhead E)"
      unfolding E(3) by (rule chans_ok_vhead) (use V in simp)
    show "virqs_ok (view ECS_VIRQ (evtchn_from_port E)) (vmap E)"
      using dom_okD(6) [OF ok] other [of ECS_VIRQ] E(4) by simp
    have "pirqs_ok (?W(p := Some ?b)) ((pirq_to_evtchn D)(u_lo ?b := p))"
      using i Wp p by (intro pirqs_ok_bind [OF dom_okD(7) [OF ok]]) (simp_all add: pirq_to_evtchn_def)
    then have "pirqs_ok (?W(p := Some ?b)) ((pirq_to_evtchn D)(q := p))" by simp
    then show "pirqs_ok (view ECS_PIRQ (evtchn_from_port E)) (pirq_to_evtchn E)"
      unfolding w pe by (rule pirqs_ok_upd) (rule fix_proj(2))
    show "lists_ok (view ECS_PIRQ (evtchn_from_port E)) (vhead E)"
      unfolding w E(3) using p Wp vh0 by (intro lists_ok_link [OF dom_okD(8) [OF ok]]) simp_all
  qed
  moreover have "evtchn_from_port E p = Some ?b" using hp by (simp add: E(2) fix_same)
  ultimately show ?thesis using E r other i by (auto simp: D4_def D3_def set_pirq_def)
qed

section \<open>Closing\<close>

lemma unmap_emuirq_ok:
  assumes "pirq_tree D q = Some i" "pirq_evtchn i = 0"
  shows "\<exists>rc E. unmap_domain_pirq_emuirq D q = Some (rc, E) \<and> pirq_to_evtchn E = pirq_to_evtchn D \<and>
    evtchn_from_port E = evtchn_from_port D \<and> vmap E = vmap D \<and> vhead E = vhead D \<and> rest D E \<and>
    evtchn_pending E = evtchn_pending D"
  using assms set_pirq_same [of "\<lambda>i. i\<lparr>hvm_emuirq := IRQ_UNBOUND\<rparr>" D q]
  by (auto simp: unmap_domain_pirq_emuirq_def Let_def pirq_cleanup_check_def set_pirq_def
      domain_pirq_to_emuirq_def)

text \<open>Neighbours of a physical-interrupt channel are physical-interrupt channels, or absent.\<close>

lemma pirq_neighbours:
  assumes ok: "dom_ok D" and c: "evtchn_from_port D p = Some c" "ec_state c = ECS_PIRQ"
  shows "u_prev c \<noteq> 0 \<Longrightarrow> view ECS_PIRQ (evtchn_from_port D) (u_prev c) \<noteq> None"
    "u_next c \<noteq> 0 \<Longrightarrow> view ECS_PIRQ (evtchn_from_port D) (u_next c) \<noteq> None"
    "u_prev c \<noteq> p" "u_next c \<noteq> p"
proof -
  obtain V where "d_vcpu D (notify_vcpu_id c) = Some V" using dom_ok_notify [OF ok c(1)] by auto
  then have "view ECS_PIRQ (evtchn_from_port D) p = Some c" "vhead D (notify_vcpu_id c) = Some (pirq_evtchn_head V)"
    using c by (simp_all add: vhead_def)
  from lists_ok_neighbours [OF dom_okD(8) [OF ok] this] obtain ys zs where
    s: "plist (view ECS_PIRQ (evtchn_from_port D)) (notify_vcpu_id c) (ys @ p # zs)"
      "u_prev c = last0 ys" "u_next c = hd0 zs" by metis
  note f = neighbours_facts [OF s(1), folded s(2,3)]
  show "u_prev c \<noteq> 0 \<Longrightarrow> view ECS_PIRQ (evtchn_from_port D) (u_prev c) \<noteq> None"
    "u_next c \<noteq> 0 \<Longrightarrow> view ECS_PIRQ (evtchn_from_port D) (u_next c) \<noteq> None"
    "u_prev c \<noteq> p" "u_next c \<noteq> p" using f(1-4) by blast+
qed

lemma view_unlink_other:
  assumes ok: "dom_ok D" and c: "evtchn_from_port D p = Some c" "ec_state c = ECS_PIRQ" and S: "S \<noteq> ECS_PIRQ"
  shows "view S (fix_prev (fix_next (evtchn_from_port D) (u_prev c) (u_next c)) (u_next c) (u_prev c)) =
    view S (evtchn_from_port D)"
proof -
  note n = pirq_neighbours [OF ok c]
  have nx: "u_next c \<noteq> 0 \<Longrightarrow> view ECS_PIRQ (fix_next (evtchn_from_port D) (u_prev c) (u_next c)) (u_next c) \<noteq> None"
    using n(2) unfolding view_fix by (auto simp: fix_next_def)
  show ?thesis using view_fix_other(1) [OF S nx] view_fix_other(2) [OF S n(1)] by simp
qed

lemma pirq_unlink_ok:
  assumes ok: "dom_ok D" and c: "evtchn_from_port D p = Some c" "ec_state c = ECS_PIRQ"
    and E: "evtchn_from_port E = fix_prev (fix_next (evtchn_from_port D) (u_prev c) (u_next c)) (u_next c) (u_prev c)"
      "vhead E = (if u_prev c = 0 then (vhead D)(notify_vcpu_id c := Some (u_next c)) else vhead D)"
      "vmap E = vmap D" "pirq_to_evtchn E = (pirq_to_evtchn D)(u_lo c := 0)" "rest D E"
  shows "dom_ok (set_chn E p (free_chn c))"
proof (rule dom_okI [OF ok])
  let ?W = "view ECS_PIRQ (evtchn_from_port D)" and ?F = "set_chn E p (free_chn c)"
  let ?U = "fix_prev (fix_next ?W (u_prev c) (u_next c)) (u_next c) (u_prev c)"
  note n = pirq_neighbours [OF ok c]
  have Wp: "?W p = Some c" using c by simp
  have p: "p \<noteq> 0" "\<not> consumer_is_xen c" using dom_ok_chan [OF ok c(1)] c(2) by (auto simp: chan_ok_def)
  have Ep: "evtchn_from_port E p = Some c" using n(3,4) c by (simp add: E(1) fix_same)
  have ch: "evtchn_from_port ?F = (evtchn_from_port E)(p := Some (free_chn c))" using Ep by simp
  have vc: "vhead D (notify_vcpu_id c) \<noteq> None" using dom_ok_notify [OF ok c(1)] by simp
  show "rest D ?F" using E(5) by simp
  have "chans_ok (evtchn_from_port E) (vhead D)"
    unfolding E(1) by (intro chans_ok_fix dom_okD(5) [OF ok])
  then have "chans_ok (evtchn_from_port ?F) (vhead D)" unfolding ch
    using p dom_ok_vcpu0 [OF ok] by (intro chans_ok_upd chan_ok_free) simp_all
  then show "chans_ok (evtchn_from_port ?F) (vhead ?F)"
    by (rule chans_ok_vhead) (use vc E(2) in simp)
  have "view ECS_VIRQ (evtchn_from_port ?F) = view ECS_VIRQ (evtchn_from_port E)"
    unfolding ch using Ep c(2) by (intro view_upd_other [where c = c]) simp_all
  then have "view ECS_VIRQ (evtchn_from_port ?F) = view ECS_VIRQ (evtchn_from_port D)"
    using view_unlink_other [OF ok c, of ECS_VIRQ] unfolding E(1) by simp
  then show "virqs_ok (view ECS_VIRQ (evtchn_from_port ?F)) (vmap ?F)"
    using dom_okD(6) [OF ok] E(3) by simp
  have w: "view ECS_PIRQ (evtchn_from_port ?F) = ?U(p := None)"
    unfolding ch E(1) by (simp add: view_upd)
  have "pirqs_ok (?W(p := None)) ((pirq_to_evtchn D)(u_lo c := 0))"
    by (rule pirqs_ok_close [OF dom_okD(7) [OF ok] Wp])
  then have "pirqs_ok (?U(p := None)) ((pirq_to_evtchn D)(u_lo c := 0))"
    by (rule pirqs_ok_upd) (simp add: fix_proj)
  then show "pirqs_ok (view ECS_PIRQ (evtchn_from_port ?F)) (pirq_to_evtchn ?F)"
    unfolding w using E(4) by simp
  obtain h where "vhead D (notify_vcpu_id c) = Some h" using vc by blast
  from lists_ok_unlink [OF dom_okD(8) [OF ok] Wp this]
  show "lists_ok (view ECS_PIRQ (evtchn_from_port ?F)) (vhead ?F)" unfolding w using E(2) by simp
qed

lemma close_pirq_ok:
  assumes ok: "dom_ok D" and s: "doms s d = Some D"
    and c: "evtchn_from_port D p = Some c" "ec_state c = ECS_PIRQ"
  shows "\<exists>s1 E. close_pirq s d c = Some s1 \<and> doms s1 = (doms s)(d := Some E) \<and>
    xen_consumers s1 = xen_consumers s \<and> global_virq_handlers s1 = global_virq_handlers s \<and>
    evtchn_from_port E p = Some c \<and> dom_ok (set_chn E p (free_chn c)) \<and> rest D E \<and>
    evtchn_pending E = evtchn_pending D \<and>
    (\<forall>S. S \<noteq> ECS_PIRQ \<longrightarrow> view S (evtchn_from_port E) = view S (evtchn_from_port D))"
proof -
  let ?q = "u_lo c" and ?W = "view ECS_PIRQ (evtchn_from_port D)" and ?k = "u_prev c" and ?n = "u_next c"
  have Wp: "?W p = Some c" using c by simp
  then have pq: "pirq_to_evtchn D ?q = p" "p \<noteq> 0" using dom_okD(7) [OF ok] unfolding pirqs_ok_def by blast+
  then obtain i where i: "pirq_tree D ?q = Some i" by (auto simp: pirq_to_evtchn_def split: option.splits)
  obtain V where V: "d_vcpu D (notify_vcpu_id c) = Some V" using dom_ok_notify [OF ok c(1)] by auto
  define D1 where "D1 = set_pirq D ?q (\<lambda>i. i\<lparr>pirq_evtchn := 0\<rparr>)"
  have i1: "pirq_tree D1 ?q = Some (i\<lparr>pirq_evtchn := 0\<rparr>)" using i by (simp add: D1_def set_pirq_def)
  have cc: "pirq_cleanup_check D1 ?q = Some D1" using i1 by (simp add: pirq_cleanup_check_def)
  have l1: "lists_ok (view ECS_PIRQ (evtchn_from_port D1)) (vhead D1)" and c1: "evtchn_from_port D1 p = Some c"
    and V1: "d_vcpu D1 (notify_vcpu_id c) = Some V"
    using dom_okD(8) [OF ok] c V by (simp_all add: D1_def)
  obtain D2 where D2: "unlink_pirq_port D1 c (notify_vcpu_id c) = Some D2"
    "evtchn_from_port D2 = fix_prev (fix_next (evtchn_from_port D) ?k ?n) ?n ?k"
    "vhead D2 = (if ?k = 0 then (vhead D)(notify_vcpu_id c := Some ?n) else vhead D)"
    "vmap D2 = vmap D" "pirq_tree D2 = pirq_tree D1" "evtchn_pending D2 = evtchn_pending D" "rest D1 D2"
    "?k \<noteq> p" "?n \<noteq> p"
    using unlink_pirq_port_eq [OF l1 c1 c(2) V1] by (auto simp: D1_def)
  have i2: "pirq_tree D2 ?q = Some (i\<lparr>pirq_evtchn := 0\<rparr>)" "pirq_evtchn (i\<lparr>pirq_evtchn := 0\<rparr>) = 0"
    using D2(5) i1 by simp_all
  obtain rc E where E: "(if is_hvm D2 \<and> domain_pirq_to_irq D2 ?q > 0 then unmap_domain_pirq_emuirq D2 ?q
      else Some (0, D2)) = Some (rc, E)" "pirq_to_evtchn E = pirq_to_evtchn D2"
      "evtchn_from_port E = evtchn_from_port D2" "vmap E = vmap D2" "vhead E = vhead D2" "rest D2 E"
      "evtchn_pending E = evtchn_pending D2"
    using unmap_emuirq_ok [OF i2] by (cases "is_hvm D2 \<and> domain_pirq_to_irq D2 ?q > 0") auto
  have cl: "close_pirq s d c =
      Some (put_dom (if \<not> is_hvm D then emit s (Pirq_guest_unbind d ?q) else s) d E)"
    using s i cc D2(1) E(1) by (simp add: close_pirq_def D1_def [symmetric] Let_def split del: if_split)
  have pe: "pirq_to_evtchn E = (pirq_to_evtchn D)(?q := 0)"
    using E(2) pirq_to_evtchn_cong [OF D2(5)] pirq_to_evtchn_set_pirq [OF i, of "\<lambda>i. i\<lparr>pirq_evtchn := 0\<rparr>"]
    by (simp add: D1_def)
  have "rest D D1" by (simp add: D1_def)
  then have r: "rest D E" using rest_trans D2(7) E(6) by blast
  have "dom_ok (set_chn E p (free_chn c))"
    using D2 E pe r by (intro pirq_unlink_ok [OF ok c]) simp_all
  moreover have "evtchn_from_port E p = Some c" using D2(2,8,9) E(3) c by (simp add: fix_same)
  moreover have "view S (evtchn_from_port E) = view S (evtchn_from_port D)" if "S \<noteq> ECS_PIRQ" for S
    using view_unlink_other [OF ok c that] D2(2) E(3) by simp
  ultimately show ?thesis using cl r D2(6) E(7)
    by (intro exI [of _ E] exI [of _ "put_dom (if \<not> is_hvm D then emit s (Pirq_guest_unbind d ?q) else s) d E"])
      simp
qed

section \<open>Moving to another virtual CPU\<close>

lemma move_pirq_ok:
  assumes ok: "dom_ok D" and c: "evtchn_from_port D p = Some c" "ec_state c = ECS_PIRQ"
    and v: "d_vcpu D v \<noteq> None"
  shows "\<exists>D1 D2 E. unlink_pirq_port D c (notify_vcpu_id c) = Some D1 \<and>
    upd_chn D1 p (\<lambda>c. c\<lparr>notify_vcpu_id := v\<rparr>) = Some D2 \<and> link_pirq_port D2 p v = Some E \<and>
    dom_ok E \<and> rest D E \<and> evtchn_pending E = evtchn_pending D \<and>
    (\<forall>S. S \<noteq> ECS_PIRQ \<longrightarrow> view S (evtchn_from_port E) = view S (evtchn_from_port D))"
proof -
  let ?W = "view ECS_PIRQ (evtchn_from_port D)"
  let ?f = "\<lambda>g. fix_prev (fix_next g (u_prev c) (u_next c)) (u_next c) (u_prev c)"
  let ?W1 = "(?f ?W)(p := None)"
  note n = pirq_neighbours [OF ok c]
  obtain V where V: "d_vcpu D (notify_vcpu_id c) = Some V" using dom_ok_notify [OF ok c(1)] by auto
  obtain D1 where D1: "unlink_pirq_port D c (notify_vcpu_id c) = Some D1"
    "evtchn_from_port D1 = ?f (evtchn_from_port D)"
    "vhead D1 = (if u_prev c = 0 then (vhead D)(notify_vcpu_id c := Some (u_next c)) else vhead D)"
    "vmap D1 = vmap D" "pirq_tree D1 = pirq_tree D" "evtchn_pending D1 = evtchn_pending D" "rest D D1"
    using unlink_pirq_port_eq [OF dom_okD(8) [OF ok] c V] by blast
  have Wp: "?W p = Some c" and vc: "vhead D (notify_vcpu_id c) = Some (pirq_evtchn_head V)"
    using c V by (simp_all add: vhead_def)
  have l1: "lists_ok ?W1 (vhead D1)" using lists_ok_unlink [OF dom_okD(8) [OF ok] Wp vc] D1(3) by simp
  have p1: "evtchn_from_port D1 p = Some c" using n(3,4) c by (simp add: D1(2) fix_same)
  define D2 where "D2 = set_chn D1 p (c\<lparr>notify_vcpu_id := v\<rparr>)"
  have ch2: "evtchn_from_port D2 = (evtchn_from_port D1)(p := Some (c\<lparr>notify_vcpu_id := v\<rparr>))"
    using p1 by (simp add: D2_def)
  obtain V2 where V2: "d_vcpu D2 v = Some V2" using v rest_None(2) [OF D1(7), of v] by (auto simp: D2_def)
  let ?h = "pirq_evtchn_head V2"
  let ?b = "c\<lparr>notify_vcpu_id := v, u_prev := 0, u_next := ?h\<rparr>"
  have vh1: "vhead D1 v = Some ?h" using V2 by (simp add: D2_def vhead_def)
  have h: "?h \<noteq> 0 \<Longrightarrow> ?W1 ?h \<noteq> None" by (rule lists_ok_head [OF l1 vh1])
  have hp: "?h \<noteq> 0 \<Longrightarrow> ?h \<noteq> p" using h by auto
  have h1: "?h \<noteq> 0 \<Longrightarrow> view ECS_PIRQ (evtchn_from_port D1) ?h \<noteq> None"
    unfolding D1(2) view_fix using h by (auto split: if_splits)
  have h2: "?h \<noteq> 0 \<Longrightarrow> evtchn_from_port D2 ?h \<noteq> None"
    unfolding ch2 using h1 by (auto simp: view_def split: option.splits)
  have c2: "evtchn_from_port D2 p = Some (c\<lparr>notify_vcpu_id := v\<rparr>)" by (simp add: ch2)
  obtain E where E: "link_pirq_port D2 p v = Some E"
    "evtchn_from_port E = fix_prev ((evtchn_from_port D1)(p := Some ?b)) ?h p"
    "vhead E = (vhead D1)(v := Some p)" "vmap E = vmap D" "pirq_tree E = pirq_tree D"
    "evtchn_pending E = evtchn_pending D" "rest D2 E"
    using link_pirq_port_eq [OF V2 c2 h2] D1(4-6) unfolding ch2 by (auto simp: D2_def)
  have r: "rest D E" using rest_trans [OF D1(7), of E] E(7) rest_trans [of D1 D2 E] by (simp add: D2_def)
  have other: "view S (evtchn_from_port E) = view S (evtchn_from_port D)" if "S \<noteq> ECS_PIRQ" for S
  proof -
    have "view S (evtchn_from_port E) = view S ((evtchn_from_port D1)(p := Some ?b))"
      unfolding E(2) using that h1 hp c(2) by (intro view_fix_other) (auto simp: view_upd)
    also have "\<dots> = view S (evtchn_from_port D1)" using p1 c(2) that by (intro view_upd_other [where c = c]) simp_all
    finally show ?thesis using view_unlink_other [OF ok c that] D1(2) by simp
  qed
  have w: "view ECS_PIRQ (evtchn_from_port E) = fix_prev (?W1(p := Some ?b)) ?h p"
    unfolding E(2) D1(2) using c(2) by (simp add: view_upd)
  have "dom_ok E"
  proof (rule dom_okI [OF ok r])
    have "chans_ok (evtchn_from_port D1) (vhead D)" unfolding D1(2) by (intro chans_ok_fix dom_okD(5) [OF ok])
    moreover have "chan_ok (vhead D) p ?b" using dom_ok_chan [OF ok c(1)] c(2) v by (auto simp: chan_ok_def)
    ultimately have "chans_ok (evtchn_from_port E) (vhead D)" unfolding E(2) by (intro chans_ok_fix chans_ok_upd)
    then show "chans_ok (evtchn_from_port E) (vhead E)"
      by (rule chans_ok_vhead) (use V v D1(3) E(3) in auto)
    show "virqs_ok (view ECS_VIRQ (evtchn_from_port E)) (vmap E)"
      using dom_okD(6) [OF ok] other [of ECS_VIRQ] E(4) by simp
    have "map_option u_lo (fix_prev (?W1(p := Some ?b)) ?h p q) = map_option u_lo (?W q)" for q
      using c by (simp add: fix_proj) (simp add: view_def)
    with dom_okD(7) [OF ok] show "pirqs_ok (view ECS_PIRQ (evtchn_from_port E)) (pirq_to_evtchn E)"
      unfolding w pirq_to_evtchn_cong [OF E(5)] by (rule pirqs_ok_upd)
    show "lists_ok (view ECS_PIRQ (evtchn_from_port E)) (vhead E)"
      unfolding w E(3) using hp vh1 dom_ok_chan [OF ok c(1)] c(2)
      by (intro lists_ok_link [OF l1]) (auto simp: chan_ok_def)
  qed
  moreover have "upd_chn D1 p (\<lambda>c. c\<lparr>notify_vcpu_id := v\<rparr>) = Some D2"
    by (simp add: upd_chn_Some [OF p1] D2_def)
  ultimately show ?thesis using D1(1) E(1,6) r other by blast
qed

end
