(* ===== verification/Evtchn_Sys.thy ===== *)
theory Evtchn_Sys
  imports Evtchn_Pirq
begin

text \<open>
  The invariant of the whole event-channel state, \<open>sys_ok\<close>: every domain is well formed, the two ends
  of every interdomain channel point at each other, the consumers of channels attached to Xen are
  registered, and every domain holds more references than the handler table and the closers that wait
  for a lock account for. The operations never stop the hypervisor in such a state and keep it.
\<close>

section \<open>The invariant\<close>

text \<open>A closer that has dropped the lock of its domain: its domain, its port, and the domain it waits for.\<close>

type_synonym closer = "domid \<times> port \<times> domid"

definition gview :: "xen \<Rightarrow> domid \<Rightarrow> port \<Rightarrow> evtchn option" where
  "gview s d = (case doms s d of None \<Rightarrow> (\<lambda>_. None) | Some D \<Rightarrow> view ECS_INTERDOMAIN (evtchn_from_port D))"

definition peers_ok :: "(domid \<Rightarrow> port \<Rightarrow> evtchn option) \<Rightarrow> bool" where
  "peers_ok G \<longleftrightarrow>
     (\<forall>d p c. G d p = Some c \<longrightarrow>
        (\<exists>b. G (u_dom c) (u_lo c) = Some b \<and> u_dom b = d \<and> u_lo b = p) \<and> (u_dom c, u_lo c) \<noteq> (d, p))"

definition reg_ok :: "xen_notification option list \<Rightarrow> evtchn \<Rightarrow> bool" where
  "reg_ok cs c \<longleftrightarrow> xen_consumer c = 0 \<or> xen_consumer c \<le> length cs \<and> cs ! (xen_consumer c - 1) \<noteq> None"

definition consumers_ok :: "xen \<Rightarrow> bool" where
  "consumers_ok s \<longleftrightarrow>
     (\<forall>d D p c. doms s d = Some D \<and>
        (view ECS_UNBOUND (evtchn_from_port D) p = Some c \<or>
         view ECS_INTERDOMAIN (evtchn_from_port D) p = Some c) \<longrightarrow> reg_ok (xen_consumers s) c)"

definition hcount :: "xen \<Rightarrow> domid \<Rightarrow> nat" where
  "hcount s d = length (filter (\<lambda>q. global_virq_handlers s q = Some d) [0..NR_VIRQS - 1])"

definition pcount :: "closer list \<Rightarrow> domid \<Rightarrow> nat" where
  "pcount pend d = length (filter (\<lambda>(d1, p, d2). d2 = d) pend)"

definition refs_ok :: "xen \<Rightarrow> closer list \<Rightarrow> bool" where
  "refs_ok s pend \<longleftrightarrow>
     (\<forall>d D. doms s d = Some D \<longrightarrow> hcount s d + pcount pend d < refcnt D) \<and>
     (\<forall>q d. 0 \<le> q \<and> q < NR_VIRQS \<and> global_virq_handlers s q = Some d \<longrightarrow> doms s d \<noteq> None) \<and>
     (\<forall>d1 p d2. (d1, p, d2) \<in> set pend \<longrightarrow> doms s d1 \<noteq> None \<and> doms s d2 \<noteq> None)"

definition sys_ok :: "xen \<Rightarrow> closer list \<Rightarrow> bool" where
  "sys_ok s pend \<longleftrightarrow>
     (\<forall>d D. doms s d = Some D \<longrightarrow> dom_ok D) \<and> peers_ok (gview s) \<and> consumers_ok s \<and> refs_ok s pend"

lemma sys_okD:
  assumes "sys_ok s pend"
  shows "doms s d = Some D \<Longrightarrow> dom_ok D" "peers_ok (gview s)" "consumers_ok s" "refs_ok s pend"
  using assms by (simp_all add: sys_ok_def)

text \<open>A step that does not stop, keeps the invariant and the set of domains.\<close>

definition safe :: "xen \<Rightarrow> closer list \<Rightarrow> xen option \<Rightarrow> bool" where
  "safe s pend r \<longleftrightarrow> (\<exists>s'. r = Some s' \<and> sys_ok s' pend \<and> dom (doms s') = dom (doms s))"

lemma safeI: "sys_ok s' pend \<Longrightarrow> dom (doms s') = dom (doms s) \<Longrightarrow> safe s pend (Some s')"
  by (simp add: safe_def)

section \<open>Changes that channels between domains do not see\<close>

definition same_io :: "xdomain \<Rightarrow> xdomain \<Rightarrow> bool" where
  "same_io D E \<longleftrightarrow> refcnt E = refcnt D \<and>
     view ECS_UNBOUND (evtchn_from_port E) = view ECS_UNBOUND (evtchn_from_port D) \<and>
     view ECS_INTERDOMAIN (evtchn_from_port E) = view ECS_INTERDOMAIN (evtchn_from_port D)"

lemma gview_upd:
  assumes "doms s' = (doms s)(d := Some E)"
  shows "gview s' = (gview s)(d := view ECS_INTERDOMAIN (evtchn_from_port E))"
  using assms by (auto simp: gview_def fun_eq_iff)

lemma gview_Some: "doms s d = Some D \<Longrightarrow> gview s d = view ECS_INTERDOMAIN (evtchn_from_port D)"
  by (simp add: gview_def)

lemma refs_ok_transfer:
  assumes ok: "refs_ok s pend" and h: "global_virq_handlers s' = global_virq_handlers s"
    and bk: "\<And>d E. doms s' d = Some E \<Longrightarrow> \<exists>D. doms s d = Some D \<and> refcnt E = refcnt D"
    and none: "\<And>d. doms s' d = None \<longleftrightarrow> doms s d = None"
  shows "refs_ok s' pend"
  unfolding refs_ok_def
proof (intro conjI allI impI)
  fix d E assume "doms s' d = Some E"
  then obtain D where "doms s d = Some D" "refcnt E = refcnt D" using bk by blast
  then show "hcount s' d + pcount pend d < refcnt E" using ok h by (simp add: refs_ok_def hcount_def)
next
  fix q d assume "0 \<le> q \<and> q < NR_VIRQS \<and> global_virq_handlers s' q = Some d"
  then show "doms s' d \<noteq> None" using ok unfolding refs_ok_def h none by blast
next
  fix d1 p d2 assume "(d1, p, d2) \<in> set pend"
  then show "doms s' d1 \<noteq> None" "doms s' d2 \<noteq> None" using ok unfolding refs_ok_def none by blast+
qed

text \<open>The invariant without the part about peers, which holds between the two writes of a binding.\<close>

definition base_ok :: "xen \<Rightarrow> closer list \<Rightarrow> bool" where
  "base_ok s pend \<longleftrightarrow> (\<forall>d D. doms s d = Some D \<longrightarrow> dom_ok D) \<and> consumers_ok s \<and> refs_ok s pend"

lemma sys_ok_iff: "sys_ok s pend \<longleftrightarrow> base_ok s pend \<and> peers_ok (gview s)"
  by (auto simp: sys_ok_def base_ok_def)

lemma base_ok_dom: "base_ok s pend \<Longrightarrow> doms s d = Some D \<Longrightarrow> dom_ok D"
  by (simp add: base_ok_def)

lemma base_ok_upd:
  assumes ok: "base_ok s pend" and D: "doms s d = Some D"
    and s': "doms s' = (doms s)(d := Some E)" "xen_consumers s' = xen_consumers s"
      "global_virq_handlers s' = global_virq_handlers s"
    and E: "dom_ok E" "refcnt E = refcnt D"
    and reg: "\<And>p c. view ECS_UNBOUND (evtchn_from_port E) p = Some c \<or>
      view ECS_INTERDOMAIN (evtchn_from_port E) p = Some c \<Longrightarrow> reg_ok (xen_consumers s) c"
  shows "base_ok s' pend"
proof -
  have "dom_ok F" if "doms s' e = Some F" for e F
    using that base_ok_dom [OF ok, of e F] E(1) by (simp add: s'(1) split: if_splits)
  moreover have "consumers_ok s'" unfolding consumers_ok_def
  proof (intro allI impI)
    fix e F p c
    assume a: "doms s' e = Some F \<and> (view ECS_UNBOUND (evtchn_from_port F) p = Some c \<or>
      view ECS_INTERDOMAIN (evtchn_from_port F) p = Some c)"
    show "reg_ok (xen_consumers s') c"
    proof (cases "e = d")
      case True
      with a have "F = E" by (simp add: s'(1))
      with a reg show ?thesis unfolding s'(2) by blast
    next
      case False
      with a have "doms s e = Some F" by (simp add: s'(1))
      with a ok show ?thesis unfolding s'(2) base_ok_def consumers_ok_def by blast
    qed
  qed
  moreover have "refs_ok s pend" using ok by (simp add: base_ok_def)
  then have "refs_ok s' pend"
    by (rule refs_ok_transfer [OF _ s'(3)]) (use D E(2) in \<open>auto simp: s'(1) split: if_splits\<close>)
  ultimately show ?thesis by (simp add: base_ok_def)
qed

text \<open>
  The general rule: one domain changes, its references do not shrink below the account, and the parts
  about peers and consumers are shown for the new domain.
\<close>

lemma sys_ok_upd:
  assumes ok: "sys_ok s pend" and D: "doms s d = Some D"
    and s': "doms s' = (doms s)(d := Some E)" "xen_consumers s' = xen_consumers s"
      "global_virq_handlers s' = global_virq_handlers s"
    and E: "dom_ok E" "refcnt E = refcnt D"
    and peers: "peers_ok ((gview s)(d := view ECS_INTERDOMAIN (evtchn_from_port E)))"
    and reg: "\<And>p c. view ECS_UNBOUND (evtchn_from_port E) p = Some c \<or>
      view ECS_INTERDOMAIN (evtchn_from_port E) p = Some c \<Longrightarrow> reg_ok (xen_consumers s) c"
  shows "sys_ok s' pend"
  using base_ok_upd [OF _ D s' E reg] ok peers gview_upd [OF s'(1)] by (simp add: sys_ok_iff)

lemma sys_ok_local:
  assumes ok: "sys_ok s pend" and D: "doms s d = Some D"
    and s': "doms s' = (doms s)(d := Some E)" "xen_consumers s' = xen_consumers s"
      "global_virq_handlers s' = global_virq_handlers s"
    and E: "dom_ok E" "same_io D E"
  shows "sys_ok s' pend"
proof (rule sys_ok_upd [OF ok D s' E(1)])
  show "refcnt E = refcnt D" using E(2) by (simp add: same_io_def)
  have "(gview s)(d := view ECS_INTERDOMAIN (evtchn_from_port E)) = gview s"
    using E(2) gview_Some [OF D] by (simp add: same_io_def fun_upd_idem)
  then show "peers_ok ((gview s)(d := view ECS_INTERDOMAIN (evtchn_from_port E)))"
    using sys_okD(2) [OF ok] by simp
  show "reg_ok (xen_consumers s) c" if "view ECS_UNBOUND (evtchn_from_port E) p = Some c \<or>
      view ECS_INTERDOMAIN (evtchn_from_port E) p = Some c" for p c
    using that sys_okD(3) [OF ok] D E(2) unfolding consumers_ok_def same_io_def by metis
qed

lemma dom_upd: "doms s d = Some D \<Longrightarrow> doms s' = (doms s)(d := Some E) \<Longrightarrow> dom (doms s') = dom (doms s)"
  by auto

lemma same_dom_io: "same_dom D E \<Longrightarrow> same_io D E"
  by (simp add: same_dom_def same_io_def evtchn_from_port_cong [of E D])

lemma grown_io: "grown D E \<Longrightarrow> same_io D E"
  by (simp add: same_io_def grownD)

lemma same_io_trans: "same_io D E \<Longrightarrow> same_io E F \<Longrightarrow> same_io D F"
  by (simp add: same_io_def)

lemma same_io_refl [simp]: "same_io D D" by (simp add: same_io_def)

lemma sys_ok_same:
  assumes ok: "sys_ok s pend" and same: "same_ec s s'"
  shows "sys_ok s' pend" "dom (doms s') = dom (doms s)"
proof -
  have r: "rel_option same_dom (doms s d) (doms s' d)" for d using same by (simp add: same_ec_def)
  have none: "doms s' d = None \<longleftrightarrow> doms s d = None" for d using r [of d] by (cases "doms s d"; cases "doms s' d") auto
  have bk: "\<exists>D. doms s d = Some D \<and> same_dom D E" if "doms s' d = Some E" for d E
    using r [of d] that by (cases "doms s d") auto
  have "gview s' d = gview s d" for d
    using r [of d] same_dom_io by (cases "doms s d"; cases "doms s' d") (auto simp: gview_def same_io_def)
  then have g: "gview s' = gview s" by auto
  have "consumers_ok s'"
    using sys_okD(3) [OF ok] bk same same_dom_io unfolding consumers_ok_def same_ec_def same_io_def by metis
  moreover have "refs_ok s' pend"
  proof (rule refs_ok_transfer [OF sys_okD(4) [OF ok] _ _ none])
    show "global_virq_handlers s' = global_virq_handlers s" using same by (simp add: same_ec_def)
    show "\<exists>D. doms s d = Some D \<and> refcnt E = refcnt D" if "doms s' d = Some E" for d E
      using bk [OF that] unfolding same_dom_def by blast
  qed
  moreover have "dom_ok E" if "doms s' d = Some E" for d E
    using bk [OF that] sys_okD(1) [OF ok] dom_ok_same by blast
  ultimately show "sys_ok s' pend" using sys_okD(2) [OF ok] g by (simp add: sys_ok_def)
  show "dom (doms s') = dom (doms s)" using none by (auto simp: dom_def)
qed

section \<open>Peers\<close>

definition gset :: "(domid \<Rightarrow> port \<Rightarrow> evtchn option) \<Rightarrow> domid \<Rightarrow> port \<Rightarrow> evtchn option \<Rightarrow> domid \<Rightarrow> port \<Rightarrow> evtchn option" where
  "gset G d p v = G(d := (G d)(p := v))"

lemma gset_apply: "gset G d p v e q = (if e = d \<and> q = p then v else G e q)"
  by (simp add: gset_def)

lemma peers_okE:
  assumes "peers_ok G" "G d p = Some c"
  obtains b where "G (u_dom c) (u_lo c) = Some b" "u_dom b = d" "u_lo b = p" "\<not> (u_dom c = d \<and> u_lo c = p)"
  using assms unfolding peers_ok_def by blast

lemma peers_ok_bind:
  assumes ok: "peers_ok G" and free: "G d p = None" "G e q = None" "\<not> (d = e \<and> p = q)"
    and c: "u_dom c = e" "u_lo c = q" and b: "u_dom b = d" "u_lo b = p"
  shows "peers_ok (gset (gset G d p (Some c)) e q (Some b))"
  unfolding peers_ok_def
proof (intro allI impI)
  fix f r a
  assume a: "gset (gset G d p (Some c)) e q (Some b) f r = Some a"
  consider "f = e" "r = q" | "f = d" "r = p" | "\<not> (f = e \<and> r = q)" "\<not> (f = d \<and> r = p)" by blast
  then show "(\<exists>x. gset (gset G d p (Some c)) e q (Some b) (u_dom a) (u_lo a) = Some x \<and> u_dom x = f \<and> u_lo x = r) \<and>
      (u_dom a, u_lo a) \<noteq> (f, r)"
  proof cases
    case 3
    then have "G f r = Some a" using a by (simp add: gset_apply split: if_splits)
    from peers_okE [OF ok this] obtain x where x: "G (u_dom a) (u_lo a) = Some x" "u_dom x = f" "u_lo x = r"
      "\<not> (u_dom a = f \<and> u_lo a = r)" .
    then have "\<not> (u_dom a = d \<and> u_lo a = p)" "\<not> (u_dom a = e \<and> u_lo a = q)" using free by auto
    with x show ?thesis by (auto simp: gset_apply)
  qed (use a b c free in \<open>auto simp: gset_apply split: if_splits\<close>)
qed

lemma peers_ok_unbind:
  assumes ok: "peers_ok G" and c: "G d p = Some c"
  shows "peers_ok (gset (gset G (u_dom c) (u_lo c) None) d p None)"
  unfolding peers_ok_def
proof (intro allI impI)
  fix f r a
  assume "gset (gset G (u_dom c) (u_lo c) None) d p None f r = Some a"
  then have a: "G f r = Some a" "\<not> (f = d \<and> r = p)" "\<not> (f = u_dom c \<and> r = u_lo c)"
    by (auto simp: gset_apply split: if_splits)
  from peers_okE [OF ok a(1)] obtain x where x: "G (u_dom a) (u_lo a) = Some x" "u_dom x = f" "u_lo x = r"
    "\<not> (u_dom a = f \<and> u_lo a = r)" .
  from peers_okE [OF ok c] obtain b where b: "G (u_dom c) (u_lo c) = Some b" "u_dom b = d" "u_lo b = p" .
  have "\<not> (u_dom a = d \<and> u_lo a = p)" using x c a(3) by auto
  moreover have "\<not> (u_dom a = u_dom c \<and> u_lo a = u_lo c)" using x b a(2) by auto
  ultimately show "(\<exists>x. gset (gset G (u_dom c) (u_lo c) None) d p None (u_dom a) (u_lo a) = Some x \<and>
      u_dom x = f \<and> u_lo x = r) \<and> (u_dom a, u_lo a) \<noteq> (f, r)"
    using x by (auto simp: gset_apply)
qed

section \<open>One channel changes\<close>

definition neutral :: "evtchn \<Rightarrow> bool" where
  "neutral c \<longleftrightarrow> ec_state c \<notin> {ECS_VIRQ, ECS_PIRQ}"

lemma base_ok_reg:
  assumes "base_ok s pend" "doms s d = Some D"
    "view ECS_UNBOUND (evtchn_from_port D) p = Some c \<or> view ECS_INTERDOMAIN (evtchn_from_port D) p = Some c"
  shows "reg_ok (xen_consumers s) c"
  using assms unfolding base_ok_def consumers_ok_def by blast

lemma base_ok_set_chn:
  assumes ok: "base_ok s pend" and D: "doms s d = Some D" and c: "evtchn_from_port D p = Some c" "neutral c"
    and c': "neutral c'" "chan_ok (vhead D) p c'" "reg_ok (xen_consumers s) c'"
  shows "base_ok (put_dom s d (set_chn D p c')) pend"
    "gview (put_dom s d (set_chn D p c')) =
      gset (gview s) d p (if ec_state c' = ECS_INTERDOMAIN then Some c' else None)"
proof -
  show "base_ok (put_dom s d (set_chn D p c')) pend"
  proof (rule base_ok_upd [OF ok D])
    show "dom_ok (set_chn D p c')"
      using c c' by (intro dom_ok_set_neutral [OF base_ok_dom [OF ok D]]) (simp_all add: neutral_def)
    fix q b
    assume "view ECS_UNBOUND (evtchn_from_port (set_chn D p c')) q = Some b \<or>
      view ECS_INTERDOMAIN (evtchn_from_port (set_chn D p c')) q = Some b"
    then show "reg_ok (xen_consumers s) b"
      using base_ok_reg [OF ok D, of q b] c c'(3) by (cases "q = p") auto
  qed simp_all
  show "gview (put_dom s d (set_chn D p c')) =
      gset (gview s) d p (if ec_state c' = ECS_INTERDOMAIN then Some c' else None)"
    using c(1) gview_Some [OF D] gview_upd [of "put_dom s d (set_chn D p c')" s d]
    by (simp add: gset_def view_upd)
qed

lemma sys_ok_set_chn:
  assumes ok: "sys_ok s pend" and D: "doms s d = Some D" and c: "evtchn_from_port D p = Some c" "neutral c"
    and c': "neutral c'" "chan_ok (vhead D) p c'" "reg_ok (xen_consumers s) c'"
    and nb: "ec_state c \<noteq> ECS_INTERDOMAIN" "ec_state c' \<noteq> ECS_INTERDOMAIN"
  shows "sys_ok (put_dom s d (set_chn D p c')) pend"
proof -
  have b: "base_ok s pend" "peers_ok (gview s)" using ok by (simp_all add: sys_ok_iff)
  have "gview s d p = None" using gview_Some [OF D] c(1) nb(1) by (simp add: view_None)
  then have "gset (gview s) d p None = gview s" by (simp add: gset_def fun_upd_idem)
  then show ?thesis using base_ok_set_chn [OF b(1) D c c'] b(2) nb(2) by (simp add: sys_ok_iff)
qed

end
