(* ===== verification/Evtchn_Ops.thy ===== *)
theory Evtchn_Ops
  imports Evtchn_Sys
begin

text \<open>
  Every event-channel operation but closing is safe: from a state that satisfies \<open>sys_ok\<close> it returns,
  so it hits no \<^verbatim>\<open>BUG_ON\<close>, \<^verbatim>\<open>ASSERT\<close> or NULL pointer, and the new state satisfies \<open>sys_ok\<close>.
\<close>

abbreviation st3 :: "(int \<times> 'a \<times> xen) option \<Rightarrow> xen option" where
  "st3 r \<equiv> map_option (\<lambda>(_, _, s). s) r"

abbreviation st2 :: "(int \<times> xen) option \<Rightarrow> xen option" where
  "st2 r \<equiv> map_option snd r"

section \<open>Steps inside one domain\<close>

lemma safe_refl: "sys_ok s pend \<Longrightarrow> safe s pend (Some s)"
  by (rule safeI) simp_all

lemma safe_local:
  assumes "sys_ok s pend" "doms s d = Some D" "dom_ok E" "same_io D E"
  shows "safe s pend (Some (put_dom s d E))"
  by (rule safeI [OF sys_ok_local [OF assms(1,2) _ _ _ assms(3,4)]]) (use assms(2) in auto)

lemma safe_local_emit:
  assumes "sys_ok s pend" "doms s d = Some D" "dom_ok E" "same_io D E"
  shows "safe s pend (Some (put_dom (emit s e) d E))"
  by (rule safeI [OF sys_ok_local [OF assms(1,2) _ _ _ assms(3,4)]]) (use assms(2) in auto)

lemma safe_same:
  assumes "sys_ok s pend" "\<exists>s'. r = Some s' \<and> same_ec s s'"
  shows "safe s pend r"
  using assms sys_ok_same unfolding safe_def by blast

lemma safe_trans:
  assumes "sys_ok t pend" "dom (doms t) = dom (doms s)" "safe t pend r"
  shows "safe s pend r"
  using assms unfolding safe_def by auto

lemma set_pending_safe:
  assumes "sys_ok s pend" "doms s d = Some D" "d_vcpu D v \<noteq> None"
  shows "safe s pend (evtchn_set_pending x s d v p)"
  using assms dom_okD(4) sys_okD(1) by (blast intro: safe_same evtchn_set_pending_same)

lemma set_pending_chn_safe:
  assumes "sys_ok s pend" "doms s d = Some D" "evtchn_from_port D p = Some c"
  shows "safe s pend (evtchn_set_pending x s d (notify_vcpu_id c) p)"
  using assms dom_ok_notify sys_okD(1) by (blast intro: set_pending_safe)

lemma rcu_target_cases:
  assumes "doms s cur \<noteq> None"
  obtains (error) rc where "rcu_lock_target_domain_by_id s cur dm = Some (Inl rc)"
  | (found) d D where "rcu_lock_target_domain_by_id s cur dm = Some (Inr d)" "doms s d = Some D"
proof -
  obtain C where C: "doms s cur = Some C" using assms by auto
  consider "dm = DOMID_SELF" | "dm \<noteq> DOMID_SELF" "doms s dm = None" | D where "dm \<noteq> DOMID_SELF" "doms s dm = Some D" by blast
  then show thesis
  proof cases
    case 1
    then show thesis using found [of cur C] C by (simp add: rcu_lock_target_domain_by_id_def)
  next
    case 2
    then show thesis using error by (simp add: rcu_lock_target_domain_by_id_def rcu_lock_domain_by_id_def)
  next
    case 3
    then show thesis using error found [of dm D] C
      by (cases "IS_PRIV_FOR C dm") (simp_all add: rcu_lock_target_domain_by_id_def rcu_lock_domain_by_id_def)
  qed
qed

lemma rcu_lock_by_id: "rcu_lock_domain_by_id s d = (if doms s d = None then None else Some d)"
  by (simp add: rcu_lock_domain_by_id_def split: option.splits)

section \<open>Binding\<close>

lemma chan_ok_bound:
  assumes "dom_ok D" "evtchn_from_port D p = Some c" "ec_state c = ECS_FREE"
  shows "p \<noteq> 0" "xen_consumer c = 0" "notify_vcpu_id c = 0"
  using dom_ok_chan [OF assms(1,2)] assms(3) by (auto simp: chan_ok_def)

lemma evtchn_alloc_unbound_safe:
  assumes ok: "sys_ok s pend" and cur: "doms s cur \<noteq> None"
  shows "safe s pend (st3 (evtchn_alloc_unbound x s cur dm remote))"
proof (cases rule: rcu_target_cases [OF cur, of dm])
  case (1 rc)
  then show ?thesis using safe_refl [OF ok] by (simp add: evtchn_alloc_unbound_def)
next
  case (2 d D)
  note found = this
  obtain p E where g: "get_free_port x D = (p, E)" by (cases "get_free_port x D") auto
  show ?thesis
  proof (cases rule: get_free_port_cases [OF sys_okD(1) [OF ok found(2)] g])
    case 1
    then show ?thesis using found g safe_refl [OF ok] by (simp add: evtchn_alloc_unbound_def Let_def)
  next
    case (2 c)
    note grown_safe = safe_local [OF ok found(2) 2(2) grown_io [OF 2(5)]]
    let ?c = "c\<lparr>ec_state := ECS_UNBOUND, u_lo := (if remote = DOMID_SELF then cur else remote)\<rparr>"
    have s1: "sys_ok (put_dom s d E) pend" using grown_safe by (simp add: safe_def)
    have "sys_ok (put_dom (put_dom s d E) d (set_chn E p ?c)) pend"
      using chan_ok_bound [OF 2(2-4)] 2(4) dom_ok_vcpu0 [OF 2(2)]
      by (intro sys_ok_set_chn [OF s1 _ 2(3)]) (simp_all add: neutral_def chan_ok_def reg_ok_def)
    then have "safe s pend (Some (put_dom s d (set_chn E p ?c)))" using found(2) by (intro safeI) auto
    then show ?thesis using found g 2(1) grown_safe
      by (simp add: evtchn_alloc_unbound_def Let_def upd_chn_Some [OF 2(3)])
  qed
qed

lemma evtchn_bind_ipi_safe:
  assumes ok: "sys_ok s pend" and cur: "doms s d \<noteq> None"
  shows "safe s pend (st3 (evtchn_bind_ipi x s d v))"
proof -
  obtain D where D: "doms s d = Some D" using cur by auto
  obtain p E where g: "get_free_port x D = (p, E)" by (cases "get_free_port x D") auto
  show ?thesis
  proof (cases rule: get_free_port_cases [OF sys_okD(1) [OF ok D] g])
    case 1
    then show ?thesis using D g safe_refl [OF ok] by (simp add: evtchn_bind_ipi_def Let_def)
  next
    case (2 c)
    let ?c = "c\<lparr>ec_state := ECS_IPI, notify_vcpu_id := v\<rparr>"
    have s1: "sys_ok (put_dom s d E) pend" using safe_local [OF ok D 2(2) grown_io [OF 2(5)]] by (simp add: safe_def)
    have "sys_ok (put_dom (put_dom s d E) d (set_chn E p ?c)) pend" if "d_vcpu D v \<noteq> None"
      using chan_ok_bound [OF 2(2-4)] 2(4) that grownD(6) [OF 2(5)]
      by (intro sys_ok_set_chn [OF s1 _ 2(3)]) (simp_all add: neutral_def chan_ok_def reg_ok_def)
    then have "safe s pend (Some (put_dom s d (set_chn E p ?c)))" if "d_vcpu D v \<noteq> None"
      using D that by (intro safeI) auto
    then show ?thesis using D g 2(1) safe_refl [OF ok]
      by (simp add: evtchn_bind_ipi_def Let_def upd_chn_Some [OF 2(3)])
  qed
qed

lemma evtchn_bind_virq_safe:
  assumes ok: "sys_ok s pend" and cur: "doms s d \<noteq> None"
  shows "safe s pend (st3 (evtchn_bind_virq x s d q v))"
proof -
  obtain D where D: "doms s d = Some D" using cur by auto
  obtain p E where g: "get_free_port x D = (p, E)" by (cases "get_free_port x D") auto
  show ?thesis
  proof (cases "0 \<le> q \<and> q < NR_VIRQS \<and> (per_vcpu q \<or> v = 0) \<and> 0 \<le> v \<and> v < max_vcpus D \<and>
      (\<exists>V. d_vcpu D v = Some V \<and> virq_to_evtchn V q = 0)")
    case False
    then show ?thesis using safe_refl [OF ok] D
      by (auto simp: evtchn_bind_virq_def virq_is_global_eq split: option.splits)
  next
    case True
    then obtain V where V: "d_vcpu D v = Some V" "virq_to_evtchn V q = 0" by blast
    show ?thesis
    proof (cases rule: get_free_port_cases [OF sys_okD(1) [OF ok D] g])
      case 1
      then show ?thesis using True V D g safe_refl [OF ok]
        by (simp add: evtchn_bind_virq_def virq_is_global_eq Let_def)
    next
      case (2 c)
      let ?c = "c\<lparr>ec_state := ECS_VIRQ, notify_vcpu_id := v, u_lo := q\<rparr>"
      let ?F = "put_vcpu (set_chn E p ?c) v (V\<lparr>virq_to_evtchn := (virq_to_evtchn V)(q := p)\<rparr>)"
      have "dom_ok ?F"
        using True V grownD(6) [OF 2(5)] by (intro dom_ok_bind_virq [OF 2(2-4)]) simp_all
      moreover have "same_io E ?F"
        using 2(3,4) by (auto simp: same_io_def intro!: view_upd_other [where c = c])
      then have "same_io D ?F" by (rule same_io_trans [OF grown_io [OF 2(5)]])
      ultimately have "safe s pend (Some (put_dom s d ?F))" by (rule safe_local [OF ok D])
      then show ?thesis using True V D g 2(1) safe_refl [OF ok]
        by (simp add: evtchn_bind_virq_def virq_is_global_eq Let_def upd_chn_Some [OF 2(3)])
    qed
  qed
qed

lemma pirq_permitted: "\<exists>b. pirq_access_permitted f caps n = Some b"
  by (simp add: pirq_access_permitted_def rangeset_contains_singleton_def rangeset_contains_range_def)

text \<open>
  The structure of the physical interrupt: \<^verbatim>\<open>pirq_get_info\<close> returns the one in the tree, or adds a
  fresh one without a port.
\<close>

lemma pirq_get_info_cases:
  assumes ok: "dom_ok D" and z: "pirq_to_evtchn D q = 0"
  shows "case pirq_get_info x D q of
      (None, E) \<Rightarrow> E = D
    | (Some i, E) \<Rightarrow> pirq_tree E q = Some i \<and> pirq_evtchn i = 0 \<and> dom_ok E \<and> same_io D E \<and>
        evtchn_from_port E = evtchn_from_port D \<and> is_hvm E = is_hvm D"
proof (cases "pirq_tree D q")
  case (Some i)
  then show ?thesis using ok z by (simp add: pirq_get_info_def pirq_to_evtchn_def)
next
  case None
  have "dom_ok (D\<lparr>pirq_tree := (pirq_tree D)(q := Some i)\<rparr>)" if "pirq_evtchn i = 0" for i
    using that None by (intro dom_ok_pirq_tree [OF ok]) (auto simp: pirq_to_evtchn_def fun_eq_iff)
  then show ?thesis using None by (simp add: pirq_get_info_def alloc_pirq_struct_def same_io_def)
qed

lemma map_emuirq_ok:
  assumes ok: "dom_ok D" and i: "pirq_tree D q \<noteq> None"
  shows "\<exists>rc E. map_domain_emuirq_pirq x D q IRQ_PT = Some (rc, E) \<and> dom_ok E \<and> same_io D E"
proof -
  obtain i where i: "pirq_tree D q = Some i" using assms(2) by auto
  have "dom_ok (set_pirq D q (\<lambda>i. i\<lparr>hvm_emuirq := IRQ_PT\<rparr>))" by (rule dom_ok_set_pirq [OF ok]) simp
  moreover have "same_io D (set_pirq D q (\<lambda>i. i\<lparr>hvm_emuirq := IRQ_PT\<rparr>))"
    by (simp add: same_io_def) (simp add: set_pirq_def)
  ultimately show ?thesis using ok i by (auto simp: map_domain_emuirq_pirq_def Let_def pirq_get_info_def)
qed

lemma set_pirq_twice: "set_pirq (set_pirq D q f) q g = set_pirq D q (g \<circ> f)"
  by (simp add: set_pirq_def option.map_comp comp_def)

lemma same_io_rest:
  assumes "rest D E" "\<forall>S. S \<noteq> ECS_PIRQ \<and> S \<noteq> ECS_FREE \<longrightarrow> view S (evtchn_from_port E) = view S (evtchn_from_port D)"
  shows "same_io D E"
  using assms by (simp add: same_io_def rest_def)

lemma bind_pirq_port_safe:
  assumes ok: "sys_ok s pend" and D: "doms s d = Some D"
    and D1: "dom_ok D1" "same_io D D1" "pirq_to_evtchn D1 q = 0"
    and c: "evtchn_from_port D1 p = Some c" "ec_state c = ECS_FREE"
  shows "safe s pend (st3 (bind_pirq_port x s d D1 q share p))"
proof -
  obtain r D2 where g: "pirq_get_info x D1 q = (r, D2)" by (cases "pirq_get_info x D1 q") auto
  show ?thesis
  proof (cases r)
    case None
    then have "D2 = D1" using pirq_get_info_cases [OF D1(1,3), of x] g by simp
    then show ?thesis using None g safe_local [OF ok D D1(1,2)] by (simp add: bind_pirq_port_def)
  next
    case (Some i)
    then have D2: "pirq_tree D2 q = Some i" "pirq_evtchn i = 0" "dom_ok D2" "same_io D1 D2"
        "evtchn_from_port D2 = evtchn_from_port D1"
      using pirq_get_info_cases [OF D1(1,3), of x] g by simp_all
    note io2 = same_io_trans [OF D1(2) D2(4)]
    define s1 where "s1 = (if \<not> is_hvm D1 then emit s (Pirq_guest_bind d q share) else s)"
    have fin: "safe s pend (Some (put_dom s1 d E))" if "dom_ok E" "same_io D2 E" for E
      using that safe_local_emit [OF ok D] safe_local [OF ok D] same_io_trans [OF io2] by (simp add: s1_def)
    show ?thesis
    proof (cases "(if \<not> is_hvm D1 then pirq_guest_bind x d q share else 0) = 0")
      case False
      define D3 where "D3 = set_pirq (set_pirq D2 q (\<lambda>i. i\<lparr>pirq_evtchn := p\<rparr>)) q (\<lambda>i. i\<lparr>pirq_evtchn := 0\<rparr>)"
      have tree: "pirq_tree D3 q = Some (i\<lparr>pirq_evtchn := 0\<rparr>)" using D2(1) by (simp add: D3_def set_pirq_def)
      have "pirq_to_evtchn D3 = pirq_to_evtchn D2"
        using D2(1,2) by (auto simp: D3_def set_pirq_def pirq_to_evtchn_def fun_eq_iff)
      then have "dom_ok D3"
        using dom_ok_pirq_tree [OF D2(3), of "pirq_tree D3"] by (simp add: D3_def set_pirq_def)
      moreover have "same_io D2 D3" by (simp add: D3_def same_io_def) (simp add: set_pirq_def)
      moreover have "pirq_cleanup_check D3 q = Some D3" using tree by (simp add: pirq_cleanup_check_def)
      ultimately show ?thesis using g Some False fin [of D3]
        by (simp add: bind_pirq_port_def Let_def D3_def [symmetric] s1_def [symmetric] split del: if_split)
    next
      case True
      have c2: "evtchn_from_port D2 p = Some c" using D2(5) c(1) by simp
      let ?D4 = "set_chn (set_pirq D2 q (\<lambda>i. i\<lparr>pirq_evtchn := p\<rparr>)) p (c\<lparr>ec_state := ECS_PIRQ, u_lo := q\<rparr>)"
      obtain D5 where D5: "link_pirq_port ?D4 p 0 = Some D5" "dom_ok D5" "rest D2 D5"
        "pirq_tree D5 q = Some (i\<lparr>pirq_evtchn := p\<rparr>)"
        "\<forall>S. S \<noteq> ECS_PIRQ \<and> S \<noteq> ECS_FREE \<longrightarrow> view S (evtchn_from_port D5) = view S (evtchn_from_port D2)"
        using pirq_bind_ok [OF D2(3) c2 c(2) D2(1,2)] by blast
      have io5: "same_io D2 D5" by (rule same_io_rest [OF D5(3,5)])
      obtain rc D6 where D6: "(if is_hvm D5 \<and> domain_pirq_to_irq D5 q > 0
          then map_domain_emuirq_pirq x D5 q IRQ_PT else Some (0, D5)) = Some (rc, D6)"
          "dom_ok D6" "same_io D5 D6"
        using map_emuirq_ok [OF D5(2), of q x] D5(2,4)
        by (cases "is_hvm D5 \<and> domain_pirq_to_irq D5 q > 0") auto
      have "upd_chn (set_pirq D2 q (\<lambda>i. i\<lparr>pirq_evtchn := p\<rparr>)) p (\<lambda>c. c\<lparr>ec_state := ECS_PIRQ, u_lo := q\<rparr>) = Some ?D4"
        using c2 by (simp add: upd_chn_def)
      then show ?thesis using g Some True D5(1) D6(1) fin [OF D6(2) same_io_trans [OF io5 D6(3)]]
        by (simp add: bind_pirq_port_def Let_def s1_def [symmetric] split del: if_split)
    qed
  qed
qed

lemma evtchn_bind_pirq_safe:
  assumes ok: "sys_ok s pend" and cur: "doms s d \<noteq> None"
  shows "safe s pend (st3 (evtchn_bind_pirq x s d q share))"
proof -
  obtain D where D: "doms s d = Some D" using cur by auto
  note dok = sys_okD(1) [OF ok D]
  obtain b where b: "(if is_hvm D then Some True
      else pirq_access_permitted (\<lambda>n. domain_pirq_to_irq D (int n)) (d_caps D) (nat q)) = Some b"
    using pirq_permitted [of "\<lambda>n. domain_pirq_to_irq D (int n)" "d_caps D" "nat q"] by (cases "is_hvm D") auto
  obtain p E where g: "get_free_port x D = (p, E)" by (cases "get_free_port x D") auto
  consider "q < 0 \<or> q \<ge> nr_pirqs D" | "\<not> (q < 0 \<or> q \<ge> nr_pirqs D)" "\<not> b \<or> pirq_to_evtchn D q \<noteq> 0"
    | "\<not> (q < 0 \<or> q \<ge> nr_pirqs D)" "b" "pirq_to_evtchn D q = 0" by blast
  then show ?thesis
  proof cases
    case 3
    show ?thesis
    proof (cases rule: get_free_port_cases [OF dok g])
      case 1
      then show ?thesis using 3 D g b safe_refl [OF ok] by (simp add: evtchn_bind_pirq_def split del: if_split)
    next
      case (2 c)
      have "pirq_to_evtchn E q = 0"
        using 3(3) grownD(10) [OF 2(5)] pirq_to_evtchn_cong [of E D] by simp
      then have "safe s pend (st3 (bind_pirq_port x s d E q share p))"
        by (rule bind_pirq_port_safe [OF ok D 2(2) grown_io [OF 2(5)] _ 2(3,4)])
      then show ?thesis using 3 D g b 2(1) by (simp add: evtchn_bind_pirq_def split del: if_split)
    qed
  next
    case 2
    then show ?thesis using D b safe_refl [OF ok]
      by (cases b) (simp_all add: evtchn_bind_pirq_def split del: if_split)
  qed (use D safe_refl [OF ok] in \<open>simp add: evtchn_bind_pirq_def\<close>)
qed

end
