(* ===== verification/Evtchn_Peer.thy ===== *)
theory Evtchn_Peer
  imports Evtchn_Ops
begin

text \<open>
  Binding to another domain, sending, moving the delivery target, unmasking, and the handlers of
  global virtual interrupts: each is safe in the sense of \<open>sys_ok\<close>.
\<close>

section \<open>Binding to another domain\<close>

lemma base_okI: "sys_ok s pend \<Longrightarrow> base_ok s pend"
  by (simp add: sys_ok_iff)

lemma gview_not_io:
  "doms s d = Some D \<Longrightarrow> evtchn_from_port D p = Some c \<Longrightarrow> ec_state c \<noteq> ECS_INTERDOMAIN \<Longrightarrow> gview s d p = None"
  by (simp add: gview_Some view_None)

text \<open>The two writes that connect a free port to an unbound port.\<close>

lemma connect_ok:
  assumes ok: "sys_ok s pend" and L: "doms s ld = Some L" and c: "evtchn_from_port L lp = Some c" "ec_state c = ECS_FREE"
    and R: "doms s rd = Some R" and b: "evtchn_from_port R rp = Some b" "ec_state b = ECS_UNBOUND"
  defines "c' \<equiv> c\<lparr>u_dom := rd, u_lo := rp, ec_state := ECS_INTERDOMAIN\<rparr>"
    and "b' \<equiv> b\<lparr>u_dom := ld, u_lo := lp, ec_state := ECS_INTERDOMAIN\<rparr>"
  shows "\<exists>R2. doms (put_dom s ld (set_chn L lp c')) rd = Some R2 \<and> evtchn_from_port R2 rp = Some b \<and>
    sys_ok (put_dom (put_dom s ld (set_chn L lp c')) rd (set_chn R2 rp b')) pend \<and>
    (\<exists>L3. doms (put_dom (put_dom s ld (set_chn L lp c')) rd (set_chn R2 rp b')) ld = Some L3 \<and>
       evtchn_from_port L3 lp = Some c') \<and>
    gview (put_dom (put_dom s ld (set_chn L lp c')) rd (set_chn R2 rp b')) =
      gset (gset (gview s) ld lp (Some c')) rd rp (Some b')"
proof -
  note lok = sys_okD(1) [OF ok L] and rok = sys_okD(1) [OF ok R]
  have ne: "\<not> (ld = rd \<and> lp = rp)" using L R c b by auto
  define s2 where "s2 = put_dom s ld (set_chn L lp c')"
  define R2 where "R2 = (if rd = ld then set_chn L lp c' else R)"
  have R2: "doms s2 rd = Some R2" "evtchn_from_port R2 rp = Some b" "vhead R2 = vhead R"
    using ne c b L R by (auto simp: s2_def R2_def)
  have c': "neutral c'" "chan_ok (vhead L) lp c'" "reg_ok (xen_consumers s) c'"
    using dom_ok_chan [OF lok c(1)] c(2) by (auto simp: c'_def neutral_def chan_ok_def reg_ok_def)
  have s2: "base_ok s2 pend" "gview s2 = gset (gview s) ld lp (Some c')"
    using base_ok_set_chn [OF base_okI [OF ok] L c(1) _ c'] c(2)
    by (simp_all add: s2_def neutral_def c'_def)
  have "reg_ok (xen_consumers s) b" using base_ok_reg [OF base_okI [OF ok] R, of rp b] b by simp
  then have b': "neutral b'" "chan_ok (vhead R2) rp b'" "reg_ok (xen_consumers s2) b'"
    using dom_ok_chan [OF rok b(1)] b(2) R2(3) by (auto simp: b'_def neutral_def chan_ok_def reg_ok_def s2_def)
  define s3 where "s3 = put_dom s2 rd (set_chn R2 rp b')"
  have s3: "base_ok s3 pend" "gview s3 = gset (gset (gview s) ld lp (Some c')) rd rp (Some b')"
    using base_ok_set_chn [OF s2(1) R2(1,2) _ b'] b(2) s2(2) by (simp_all add: s3_def neutral_def b'_def)
  have "peers_ok (gview s3)" unfolding s3(2)
    using gview_not_io [OF L c(1)] gview_not_io [OF R b(1)] c(2) b(2) ne
    by (intro peers_ok_bind [OF sys_okD(2) [OF ok]]) (auto simp: c'_def b'_def)
  with s3(1) have "sys_ok s3 pend" by (simp add: sys_ok_iff)
  moreover have "\<exists>L3. doms s3 ld = Some L3 \<and> evtchn_from_port L3 lp = Some c'"
    using ne c b L R by (auto simp: s3_def s2_def R2_def)
  ultimately show ?thesis using R2(1,2) s3(2) unfolding s3_def s2_def by blast
qed

lemma gview_same: "same_ec s s' \<Longrightarrow> gview s' = gview s"
proof
  fix d assume "same_ec s s'"
  then have "rel_option same_dom (doms s d) (doms s' d)" by (simp add: same_ec_def)
  then show "gview s' d = gview s d"
    using same_dom_io by (cases "doms s d"; cases "doms s' d") (auto simp: gview_def same_io_def)
qed

lemma gview_local: "doms s d = Some D \<Longrightarrow> same_io D E \<Longrightarrow> gview (put_dom s d E) = gview s"
  using gview_upd [of "put_dom s d E" s d E] gview_Some [of s d D] by (simp add: same_io_def fun_upd_idem)

text \<open>The result of a binding: an error that leaves the connections alone, or two new ends.\<close>

definition connected :: "xen \<Rightarrow> domid \<Rightarrow> port \<Rightarrow> domid \<Rightarrow> port \<Rightarrow> xen \<Rightarrow> bool" where
  "connected s d p e q s' \<longleftrightarrow> gview s d p = None \<and> gview s e q = None \<and>
     (\<exists>c b. gview s' = gset (gset (gview s) d p (Some c)) e q (Some b) \<and>
        u_dom c = e \<and> u_lo c = q \<and> u_dom b = d \<and> u_lo b = p \<and> xen_consumer c = 0)"

lemma bind_remote_cases:
  assumes ok: "sys_ok s pend" and L: "doms s ld = Some L" and c: "evtchn_from_port L lp = Some c" "ec_state c = ECS_FREE"
    and R: "doms s rd = Some R"
  obtains (error) rc where "bind_remote_port x s ld lp rd rp = Some (rc, None, s)" "rc \<noteq> 0"
  | (bound) s1 where "bind_remote_port x s ld lp rd rp = Some (0, Some lp, s1)"
      "safe s pend (Some s1)" "connected s ld lp rd rp s1"
proof (cases "\<exists>b. evtchn_from_port R rp = Some b \<and> ec_state b = ECS_UNBOUND \<and> u_lo b = ld \<and>
    xsm_evtchn_interdomain x ld lp rd rp = 0")
  case False
  then have "\<exists>rc. bind_remote_port x s ld lp rd rp = Some (rc, None, s) \<and> rc \<noteq> 0"
    using R dom_ok_valid [OF sys_okD(1) [OF ok R], of rp]
    by (cases "evtchn_from_port R rp") (auto simp: bind_remote_port_def Let_def)
  then show thesis using error by blast
next
  case True
  then obtain b where b: "evtchn_from_port R rp = Some b" "ec_state b = ECS_UNBOUND" "u_lo b = ld"
    "xsm_evtchn_interdomain x ld lp rd rp = 0" by blast
  let ?c = "c\<lparr>u_dom := rd, u_lo := rp, ec_state := ECS_INTERDOMAIN\<rparr>"
  let ?b = "b\<lparr>u_dom := ld, u_lo := lp, ec_state := ECS_INTERDOMAIN\<rparr>"
  obtain R2 L3 where w: "doms (put_dom s ld (set_chn L lp ?c)) rd = Some R2" "evtchn_from_port R2 rp = Some b"
      "sys_ok (put_dom (put_dom s ld (set_chn L lp ?c)) rd (set_chn R2 rp ?b)) pend"
      "doms (put_dom (put_dom s ld (set_chn L lp ?c)) rd (set_chn R2 rp ?b)) ld = Some L3"
      "evtchn_from_port L3 lp = Some ?c"
      "gview (put_dom (put_dom s ld (set_chn L lp ?c)) rd (set_chn R2 rp ?b)) =
        gset (gset (gview s) ld lp (Some ?c)) rd rp (Some ?b)"
    using connect_ok [OF ok L c R b(1,2)] by blast
  define s3 where "s3 = put_dom (put_dom s ld (set_chn L lp ?c)) rd (set_chn R2 rp ?b)"
  have L3: "doms s3 ld = Some L3" "dom_ok L3" "d_vcpu L3 (notify_vcpu_id c) \<noteq> None"
    using w(4) sys_okD(1) [OF w(3,4)] dom_ok_notify [OF sys_okD(1) [OF w(3,4)] w(5)] by (simp_all add: s3_def)
  obtain s4 where s4: "evtchn_set_pending x s3 ld (notify_vcpu_id c) lp = Some s4" "same_ec s3 s4"
    using evtchn_set_pending_same [OF L3(1,3) dom_okD(4) [OF L3(2)]] by blast
  have "dom (doms s3) = dom (doms s)" using L R by (auto simp: s3_def)
  then have "safe s pend (Some s4)" using sys_ok_same [OF w(3) [folded s3_def] s4(2)] by (simp add: safe_def)
  moreover have "connected s ld lp rd rp s4" unfolding connected_def gview_same [OF s4(2)]
    using gview_not_io [OF L c(1)] gview_not_io [OF R b(1)] c(2) b(2) w(6) [folded s3_def] chan_ok_bound(2) [OF sys_okD(1) [OF ok L] c]
    by (intro conjI exI [of _ ?c] exI [of _ ?b]) simp_all
  moreover have "bind_remote_port x s ld lp rd rp = Some (0, Some lp, s4)"
    using b L R c(1) w(1) s4(1) dom_ok_valid [OF sys_okD(1) [OF ok R], of rp] upd_chn_Some [OF w(2)]
    unfolding s3_def by (simp add: bind_remote_port_def Let_def del: doms_put_dom)
  ultimately show thesis using bound by blast
qed

lemma bind_interdomain_cases:
  assumes ok: "sys_ok s pend" and L: "doms s ld = Some L"
    and rd: "rd = (if rdom = DOMID_SELF then ld else rdom)"
  obtains (error) rc s1 where "evtchn_bind_interdomain x s ld rdom rp = Some (rc, None, s1)" "rc \<noteq> 0"
      "safe s pend (Some s1)" "gview s1 = gview s"
  | (bound) lp s1 where "evtchn_bind_interdomain x s ld rdom rp = Some (0, Some lp, s1)" "0 < lp"
      "safe s pend (Some s1)" "connected s ld lp rd rp s1"
proof -
  obtain lp E where g: "get_free_port x L = (lp, E)" by (cases "get_free_port x L") auto
  note defs = evtchn_bind_interdomain_def rcu_lock_by_id rd [symmetric] Let_def
  show thesis
  proof (cases "doms s rd")
    case None
    then show thesis using error [of "- ESRCH" s] safe_refl [OF ok] by (simp add: defs)
  next
    case (Some R)
    note R = this
    show thesis
    proof (cases rule: get_free_port_cases [OF sys_okD(1) [OF ok L] g])
      case 1
      then show thesis using error [of lp s] g L R safe_refl [OF ok] by (simp add: defs)
    next
      case (2 c)
      define s1 where "s1 = put_dom s ld E"
      have safe1: "safe s pend (Some s1)" "gview s1 = gview s"
        using safe_local [OF ok L 2(2) grown_io [OF 2(5)]] gview_local [OF L grown_io [OF 2(5)]]
        by (simp_all add: s1_def)
      then have s1: "sys_ok s1 pend" "dom (doms s1) = dom (doms s)" by (simp_all add: safe_def)
      have E: "doms s1 ld = Some E" by (simp add: s1_def)
      obtain R1 where R1: "doms s1 rd = Some R1" using R by (cases "rd = ld") (auto simp: s1_def)
      have eq: "evtchn_bind_interdomain x s ld rdom rp = bind_remote_port x s1 ld lp rd rp"
        using g L R 2(1) by (simp add: defs s1_def)
      show thesis
      proof (cases rule: bind_remote_cases [OF s1(1) E 2(3,4) R1, of x rp])
        case (1 rc)
        then show thesis using error safe1 eq by simp
      next
        case (2 s2)
        then show thesis
          using bound [of lp s2] \<open>0 < lp\<close> safe_trans [OF s1] eq safe1(2) by (simp add: connected_def)
      qed
    qed
  qed
qed

lemma evtchn_bind_interdomain_safe:
  assumes ok: "sys_ok s pend" and cur: "doms s d \<noteq> None"
  shows "safe s pend (st3 (evtchn_bind_interdomain x s d rdom rp))"
proof -
  obtain D where D: "doms s d = Some D" using cur by auto
  show ?thesis by (cases rule: bind_interdomain_cases [OF ok D refl, of x rdom rp]) simp_all
qed

section \<open>Sending\<close>

lemma upd_vcpu_flag_same:
  assumes "doms s d = Some D" "d_vcpu D v = Some V"
  shows "\<exists>s' E. upd_vcpu s d v (set_flag f b) = Some s' \<and> doms s' d = Some E \<and> d_vcpu E v \<noteq> None \<and> same_ec s s'"
  using assms by (auto simp: upd_vcpu_def intro!: same_ec_put_dom same_dom_put_vcpu)

lemma default_notification_same:
  assumes "doms s d = Some D" "d_vcpu D v = Some V"
  shows "\<exists>s'. default_xen_notification_fn x s d v = Some s' \<and> same_ec s s'"
proof (cases "pause_flags V VPF_blocked_in_xen")
  case True
  obtain s1 E W where s1: "upd_vcpu s d v (set_flag VPF_blocked_in_xen False) = Some s1" "doms s1 d = Some E"
      "d_vcpu E v = Some W" "same_ec s s1"
    using upd_vcpu_flag_same [OF assms] by blast
  then show ?thesis using True assms vcpu_wake_same [OF s1(2,3), of x] same_ec_trans [OF s1(4)]
    by (auto simp: default_xen_notification_fn_def)
qed (use assms in \<open>simp add: default_xen_notification_fn_def\<close>)

lemma xen_notification_same:
  assumes "doms s d = Some D" "d_vcpu D v = Some V" "reg_ok (xen_consumers s) c" "consumer_is_xen c"
  shows "\<exists>s'. xen_notification_fn x s c d v p = Some s' \<and> same_ec s s'"
proof -
  obtain f where "xen_consumers s ! (xen_consumer c - 1) = Some f" "xen_consumer c - 1 < length (xen_consumers s)"
    using assms(3,4) by (auto simp: reg_ok_def)
  then show ?thesis using default_notification_same [OF assms(1,2), of x]
    by (cases f) (simp_all add: xen_notification_fn_def)
qed

text \<open>The other end of a channel, found through the invariant.\<close>

lemma peer_cases:
  assumes ok: "sys_ok s pend" and D: "doms s d = Some D"
    and c: "evtchn_from_port D p = Some c" "ec_state c = ECS_INTERDOMAIN"
  obtains R b where "doms s (u_dom c) = Some R" "evtchn_from_port R (u_lo c) = Some b"
    "ec_state b = ECS_INTERDOMAIN" "u_dom b = d" "u_lo b = p" "\<not> (u_dom c = d \<and> u_lo c = p)"
proof -
  have "gview s d p = Some c" using c by (simp add: gview_Some [OF D])
  from peers_okE [OF sys_okD(2) [OF ok] this] obtain b where
    b: "gview s (u_dom c) (u_lo c) = Some b" "u_dom b = d" "u_lo b = p" "\<not> (u_dom c = d \<and> u_lo c = p)" .
  from b(1) obtain R where "doms s (u_dom c) = Some R" by (auto simp: gview_def split: option.splits)
  with b show thesis by (intro that [of R b]) (simp_all add: gview_Some)
qed

lemma set_pending_at:
  assumes "sys_ok s pend" "doms s d = Some D" "evtchn_from_port D p = Some c"
  shows "\<exists>s'. evtchn_set_pending x s d (notify_vcpu_id c) q = Some s' \<and> same_ec s s'"
  using evtchn_set_pending_same [OF assms(2)] dom_ok_notify [OF _ assms(3)] dom_okD(4) sys_okD(1) [OF assms(1,2)]
  by blast

lemma peer_notify_same:
  assumes ok: "sys_ok s pend" and R: "doms s r = Some R" and b: "evtchn_from_port R q = Some b" "ec_state b = ECS_INTERDOMAIN"
  shows "\<exists>s'. (if consumer_is_xen b then xen_notification_fn x s b r (notify_vcpu_id b) q
     else evtchn_set_pending x s r (notify_vcpu_id b) q) = Some s' \<and> same_ec s s'"
proof (cases "consumer_is_xen b")
  case True
  have "reg_ok (xen_consumers s) b" using base_ok_reg [OF base_okI [OF ok] R, of q b] b by simp
  with True show ?thesis
    using xen_notification_same [OF R] dom_ok_notify [OF sys_okD(1) [OF ok R] b(1)] by auto
qed (use set_pending_at [OF ok R b(1)] in simp)

lemma evtchn_send_same:
  assumes ok: "sys_ok s pend" and D: "doms s d = Some D"
  shows "\<exists>rc s'. evtchn_send x s d p = Some (rc, s') \<and> same_ec s s'"
proof (cases "\<exists>c. evtchn_from_port D p = Some c \<and> \<not> consumer_is_xen c \<and> xsm_evtchn_send x d p = 0")
  case False
  then show ?thesis using D dom_ok_valid [OF sys_okD(1) [OF ok D], of p] by (auto simp: evtchn_send_def Let_def)
next
  case True
  then obtain c where c: "evtchn_from_port D p = Some c" "\<not> consumer_is_xen c" "xsm_evtchn_send x d p = 0" by blast
  note unf = evtchn_send_def Let_def D c dom_ok_valid [OF sys_okD(1) [OF ok D]]
  show ?thesis
  proof (cases "ec_state c = ECS_INTERDOMAIN")
    case True
    from peer_cases [OF ok D c(1) True] obtain R b where R: "doms s (u_dom c) = Some R"
      "evtchn_from_port R (u_lo c) = Some b" "ec_state b = ECS_INTERDOMAIN" .
    from peer_notify_same [OF ok R, of x] True R(1,2) show ?thesis by (auto simp: unf simp del: not_gr_zero)
  next
    case False
    then show ?thesis using set_pending_at [OF ok D c(1), of x p] by (cases "ec_state c") (auto simp: unf)
  qed
qed

lemma notify_via_xen_same:
  assumes ok: "sys_ok s pend" and D: "doms s d = Some D"
    and xc: "is_dying D \<or> (\<exists>c. evtchn_from_port D p = Some c \<and> consumer_is_xen c)"
  shows "\<exists>s'. notify_via_xen_event_channel x s d p = Some s' \<and> same_ec s s'"
proof (cases "is_dying D \<or> (\<exists>c. evtchn_from_port D p = Some c \<and> ec_state c \<noteq> ECS_INTERDOMAIN)")
  case True
  then show ?thesis using D xc dom_ok_valid [OF sys_okD(1) [OF ok D], of p]
    by (auto simp: notify_via_xen_event_channel_def)
next
  case False
  then obtain c where c: "evtchn_from_port D p = Some c" "ec_state c = ECS_INTERDOMAIN" "consumer_is_xen c"
    using xc by auto
  from peer_cases [OF ok D c(1,2)] obtain R b where R: "doms s (u_dom c) = Some R"
    "evtchn_from_port R (u_lo c) = Some b" .
  then show ?thesis using D c False dom_ok_valid [OF sys_okD(1) [OF ok D], of p] set_pending_at [OF ok R, of x "u_lo c"]
    by (simp add: notify_via_xen_event_channel_def)
qed

section \<open>Virtual and physical interrupts\<close>

lemma virq_port:
  assumes ok: "dom_ok D" and V: "d_vcpu D v = Some V" and q: "0 \<le> q" "q < NR_VIRQS" and p: "virq_to_evtchn V q \<noteq> 0"
  obtains c where "evtchn_from_port D (virq_to_evtchn V q) = Some c" "ec_state c = ECS_VIRQ" "u_lo c = q" "virq_owner c v"
proof -
  have "vmap D v q = Some (virq_to_evtchn V q)" by (simp add: vmap_Some [OF V])
  then show thesis using dom_okD(6) [OF ok] q p that unfolding virqs_ok_def view_eq_Some by metis
qed

lemma send_guest_vcpu_virq_same:
  assumes ok: "sys_ok s pend" and D: "doms s d = Some D" "d_vcpu D v = Some V" and q: "0 \<le> q" "per_vcpu q"
  shows "\<exists>s'. send_guest_vcpu_virq x s d v q = Some s' \<and> same_ec s s'"
proof -
  have "q < NR_VIRQS" using q by (auto simp: per_vcpu_def)
  then show ?thesis
    using D q evtchn_set_pending_same [OF D(1) _ dom_okD(4) [OF sys_okD(1) [OF ok D(1)]], of v x "virq_to_evtchn V q"]
    by (auto simp: send_guest_vcpu_virq_def virq_is_global_eq Let_def)
qed

lemma send_guest_global_virq_same:
  assumes ok: "sys_ok s pend" and q: "0 \<le> q" "q < NR_VIRQS" "\<not> per_vcpu q"
    and d: "\<And>d. od = Some d \<Longrightarrow> doms s d \<noteq> None"
  shows "\<exists>s'. send_guest_global_virq x s od q = Some s' \<and> same_ec s s'"
proof (cases od)
  case None
  then show ?thesis using q by (simp add: send_guest_global_virq_def virq_is_global_eq)
next
  case (Some d)
  then obtain D where D: "doms s d = Some D" using d by auto
  then obtain V where V: "d_vcpu D 0 = Some V" using dom_ok_vcpu0 [OF sys_okD(1) [OF ok D]] by auto
  note unf = send_guest_global_virq_def virq_is_global_eq q Let_def Some D V
  show ?thesis
  proof (cases "virq_to_evtchn V q = 0")
    case True
    then show ?thesis using q by (simp add: unf)
  next
    case False
    then obtain c where "evtchn_from_port D (virq_to_evtchn V q) = Some c"
      using virq_port [OF sys_okD(1) [OF ok D] V q(1,2)] by blast
    then show ?thesis using False q set_pending_at [OF ok D, of "virq_to_evtchn V q" c x] by (simp add: unf)
  qed
qed

lemma send_global_virq_same:
  assumes ok: "sys_ok s pend" and q: "0 \<le> q" "q < NR_VIRQS" "\<not> per_vcpu q"
  shows "\<exists>s'. send_global_virq x s q = Some s' \<and> same_ec s s'"
proof -
  have "doms s d \<noteq> None" if "(case global_virq_handlers s q of None \<Rightarrow> dom0 s | Some d \<Rightarrow> Some d) = Some d" for d
    using that sys_okD(4) [OF ok] q(1,2) unfolding refs_ok_def by (auto simp: dom0_def split: option.splits)
  from send_guest_global_virq_same [OF ok q this] show ?thesis
    using q by (simp add: send_global_virq_def virq_is_global_eq)
qed

lemma pirq_port:
  assumes ok: "dom_ok D" and i: "pirq_tree D q = Some i" "pirq_evtchn i \<noteq> 0"
  obtains c where "evtchn_from_port D (pirq_evtchn i) = Some c" "ec_state c = ECS_PIRQ" "u_lo c = q"
proof -
  have "pirq_to_evtchn D q = pirq_evtchn i" using i(1) by (simp add: pirq_to_evtchn_def)
  then show thesis using dom_okD(7) [OF ok] i(2) that unfolding pirqs_ok_def view_eq_Some by metis
qed

lemma send_guest_pirq_same:
  assumes ok: "sys_ok s pend" and D: "doms s d = Some D" and i: "pirq_tree D q = Some i" "pirq_evtchn i \<noteq> 0 \<or> is_hvm D"
  shows "\<exists>s'. send_guest_pirq x s d (Some i) = Some s' \<and> same_ec s s'"
proof (cases "pirq_evtchn i = 0")
  case False
  then obtain c where "evtchn_from_port D (pirq_evtchn i) = Some c"
    using pirq_port [OF sys_okD(1) [OF ok D] i(1)] by blast
  then show ?thesis using False D set_pending_at [OF ok D, of "pirq_evtchn i" c x] by (simp add: send_guest_pirq_def)
qed (use D i in \<open>simp add: send_guest_pirq_def\<close>)

section \<open>Delivery target and mask\<close>

lemma mark_events_same:
  assumes "doms s d = Some D" "d_vcpu D v = Some V"
  shows "\<exists>s'. vcpu_mark_events_pending s d v = Some s' \<and> same_ec s s'"
proof -
  have "same_ec s (put_dom s d (put_vcpu D v (V\<lparr>evtchn_upcall_pending := True\<rparr>)))"
    by (rule same_ec_put_dom [OF assms(1) same_dom_put_vcpu [OF assms(2)]]) simp_all
  then show ?thesis using assms by (simp add: vcpu_mark_events_pending_def Let_def)
qed

lemma evtchn_unmask_same:
  assumes ok: "sys_ok s pend" and D: "doms s d = Some D"
  shows "\<exists>rc s'. evtchn_unmask s d p = Some (rc, s') \<and> same_ec s s'"
proof (cases "evtchn_from_port D p")
  case None
  then show ?thesis using D dom_ok_valid [OF sys_okD(1) [OF ok D], of p] by (simp add: evtchn_unmask_def)
next
  case (Some c)
  then obtain V where V: "d_vcpu D (notify_vcpu_id c) = Some V"
    using dom_ok_notify [OF sys_okD(1) [OF ok D]] by blast
  let ?D1 = "D\<lparr>evtchn_mask := (evtchn_mask D)(p := False)\<rparr>"
  let ?W = "V\<lparr>evtchn_pending_sel := (evtchn_pending_sel V)(p div BITS_PER_EVTCHN_WORD D := True)\<rparr>"
  have V1: "d_vcpu ?D1 (notify_vcpu_id c) = Some V" using V by simp
  have "same_dom D ?D1" by simp
  from this same_dom_trans [OF this same_dom_put_vcpu [OF V1, of ?W]]
  have a: "same_ec s (put_dom s d ?D1)" "same_ec s (put_dom s d (put_vcpu ?D1 (notify_vcpu_id c) ?W))"
    by (simp_all add: same_ec_put_dom [OF D])
  define T where "T = put_dom s d (put_vcpu ?D1 (notify_vcpu_id c) ?W)"
  obtain s' where "vcpu_mark_events_pending T d (notify_vcpu_id c) = Some s'" "same_ec T s'"
    using mark_events_same [of T d _ "notify_vcpu_id c" ?W] by (auto simp: T_def)
  moreover from this(2) have "same_ec s s'" using same_ec_trans a(2) unfolding T_def by blast
  ultimately show ?thesis using D Some V a(1) dom_ok_valid [OF sys_okD(1) [OF ok D], of p]
    by (simp add: evtchn_unmask_def Let_def T_def)
qed

lemma peers_ok_retarget:
  assumes "peers_ok G" "G d p = Some c" "u_dom c' = u_dom c" "u_lo c' = u_lo c"
  shows "peers_ok (gset G d p (Some c'))"
  using assms unfolding peers_ok_def gset_apply by (smt (verit, best) option.inject)

lemma retarget_io_ok:
  assumes ok: "sys_ok s pend" and D: "doms s d = Some D" and c: "evtchn_from_port D p = Some c"
    and st: "ec_state c = ECS_UNBOUND \<or> ec_state c = ECS_INTERDOMAIN" and v: "d_vcpu D v \<noteq> None"
  shows "sys_ok (put_dom s d (set_chn D p (c\<lparr>notify_vcpu_id := v\<rparr>))) pend"
proof -
  let ?c = "c\<lparr>notify_vcpu_id := v\<rparr>"
  have reg: "reg_ok (xen_consumers s) c" using base_ok_reg [OF base_okI [OF ok] D, of p c] c st by auto
  have c': "neutral c" "neutral ?c" "chan_ok (vhead D) p ?c" "reg_ok (xen_consumers s) ?c"
    using st v reg dom_ok_chan [OF sys_okD(1) [OF ok D] c] by (auto simp: neutral_def chan_ok_def reg_ok_def)
  note b = base_ok_set_chn [OF base_okI [OF ok] D c c'(1) c'(2-4)]
  have "peers_ok (gview (put_dom s d (set_chn D p ?c)))"
  proof (cases "ec_state c = ECS_INTERDOMAIN")
    case True
    then show ?thesis unfolding b(2) using c
      by (simp add: peers_ok_retarget [OF sys_okD(2) [OF ok], of d p c] gview_Some [OF D])
  next
    case False
    then have "gset (gview s) d p None = gview s"
      using gview_not_io [OF D c] by (simp add: gset_def fun_upd_idem)
    then show ?thesis unfolding b(2) using False sys_okD(2) [OF ok] by simp
  qed
  with b(1) show ?thesis by (simp add: sys_ok_iff)
qed

lemma evtchn_bind_vcpu_safe:
  assumes ok: "sys_ok s pend" and D: "doms s d = Some D"
  shows "safe s pend (st2 (evtchn_bind_vcpu s d p v))"
proof (cases "\<exists>c V. v < max_vcpus D \<and> d_vcpu D v = Some V \<and> evtchn_from_port D p = Some c \<and> \<not> consumer_is_xen c")
  case False
  then show ?thesis using D safe_refl [OF ok] dom_ok_valid [OF sys_okD(1) [OF ok D], of p]
    by (auto simp: evtchn_bind_vcpu_def Let_def split: option.splits)
next
  case True
  then obtain c V where c: "v < max_vcpus D" "d_vcpu D v = Some V" "evtchn_from_port D p = Some c" "\<not> consumer_is_xen c"
    by blast
  note dok = sys_okD(1) [OF ok D]
  note unf = evtchn_bind_vcpu_def D c dom_ok_valid [OF dok] virq_is_global_eq Let_def
  have vc: "d_vcpu D v \<noteq> None" using c(2) by simp
  show ?thesis
  proof (cases "ec_state c")
    case ECS_VIRQ
    then have r: "u_lo c < NR_VIRQS" using dom_okD(6) [OF dok] c(3) unfolding virqs_ok_def by simp
    let ?E = "set_chn D p (c\<lparr>notify_vcpu_id := v\<rparr>)"
    have "same_io D ?E" using c(3) ECS_VIRQ by (auto simp: same_io_def intro!: view_upd_other [where c = c])
    then have "safe s pend (Some (put_dom s d ?E))" if "\<not> per_vcpu (u_lo c)"
      using safe_local [OF ok D dom_ok_retarget_virq [OF dok c(3) ECS_VIRQ that vc]] by simp
    then show ?thesis using r ECS_VIRQ safe_refl [OF ok] by (simp add: unf)
  next
    case ECS_PIRQ
    obtain D1 D2 E where m: "unlink_pirq_port D c (notify_vcpu_id c) = Some D1"
        "upd_chn D1 p (\<lambda>c. c\<lparr>notify_vcpu_id := v\<rparr>) = Some D2" "link_pirq_port D2 p v = Some E" "dom_ok E" "rest D E"
        "\<forall>S. S \<noteq> ECS_PIRQ \<longrightarrow> view S (evtchn_from_port E) = view S (evtchn_from_port D)"
      using move_pirq_ok [OF dok c(3) ECS_PIRQ vc] by blast
    have "same_io D E" using m(5,6) by (intro same_io_rest) simp_all
    from safe_local_emit [OF ok D m(4) this] show ?thesis using m(1-3) ECS_PIRQ safe_refl [OF ok] by (simp add: unf)
  qed (use safe_refl [OF ok] retarget_io_ok [OF ok D c(3) _ vc] D in \<open>auto simp: unf safe_def\<close>)
qed

end
