(* ===== verification/Evtchn_Close.thy ===== *)
theory Evtchn_Close
  imports Evtchn_Peer
begin

text \<open>
  References to domains, and closing. A pass of \<^verbatim>\<open>__evtchn_close\<close> that waits for the lock of the other
  domain holds a reference to it, recorded in the list of closers of \<open>sys_ok\<close>; other operations may
  run before its second pass.
\<close>

section \<open>References\<close>

lemma dom_ok_refcnt [simp]: "dom_ok (D\<lparr>refcnt := n\<rparr>) = dom_ok D"
proof -
  have f: "frame_ok (D\<lparr>refcnt := n\<rparr>) = frame_ok D"
    using frame_ok_transfer [of D "D\<lparr>refcnt := n\<rparr>"] frame_ok_transfer [of "D\<lparr>refcnt := n\<rparr>" D] by auto
  have "pirq_to_evtchn (D\<lparr>refcnt := n\<rparr>) = pirq_to_evtchn D" by (rule pirq_to_evtchn_cong) simp
  moreover have "vmap (D\<lparr>refcnt := n\<rparr>) = vmap D" "vhead (D\<lparr>refcnt := n\<rparr>) = vhead D"
    by (simp_all add: vmap_def vhead_def fun_eq_iff)
  ultimately show ?thesis using f by (simp add: dom_ok_def)
qed

lemma sys_ok_refs:
  assumes ok: "sys_ok s pend" and D: "doms s d = Some D"
    and s': "doms s' = (doms s)(d := Some (D\<lparr>refcnt := n\<rparr>))" "xen_consumers s' = xen_consumers s"
    and refs: "refs_ok s' pend'"
  shows "sys_ok s' pend'" "gview s' = gview s"
proof -
  show g: "gview s' = gview s" using gview_upd [OF s'(1)] gview_Some [OF D] by (simp add: fun_upd_idem)
  have "dom_ok E" if "doms s' e = Some E" for e E
    using that sys_okD(1) [OF ok] D by (auto simp: s'(1) split: if_splits)
  moreover have "consumers_ok s'" unfolding consumers_ok_def
  proof (intro allI impI)
    fix e E p c
    assume a: "doms s' e = Some E \<and> (view ECS_UNBOUND (evtchn_from_port E) p = Some c \<or>
      view ECS_INTERDOMAIN (evtchn_from_port E) p = Some c)"
    obtain F where "doms s e = Some F" "evtchn_from_port F = evtchn_from_port E"
      using a D by (cases "e = d") (auto simp: s'(1))
    with a sys_okD(3) [OF ok] show "reg_ok (xen_consumers s') c" unfolding consumers_ok_def s'(2) by metis
  qed
  ultimately show "sys_ok s' pend'" using g sys_okD(2) [OF ok] refs by (simp add: sys_ok_def)
qed

lemma refs_okD:
  assumes "refs_ok s pend"
  shows "doms s d = Some D \<Longrightarrow> hcount s d + pcount pend d < refcnt D"
    "0 \<le> q \<Longrightarrow> q < NR_VIRQS \<Longrightarrow> global_virq_handlers s q = Some d \<Longrightarrow> doms s d \<noteq> None"
    "(d1, p, d2) \<in> set pend \<Longrightarrow> doms s d1 \<noteq> None" "(d1, p, d2) \<in> set pend \<Longrightarrow> doms s d2 \<noteq> None"
  using assms unfolding refs_ok_def by blast+

lemma refs_ok_upd:
  assumes ok: "refs_ok s pend" and D: "doms s d = Some D"
    and s': "doms s' = (doms s)(d := Some E)" "global_virq_handlers s' = global_virq_handlers s"
    and pend': "set pend' \<subseteq> set pend \<union> {(d1, p, d)}" "doms s d1 \<noteq> None"
    and cnt: "\<And>e. e \<noteq> d \<Longrightarrow> pcount pend' e = pcount pend e" "hcount s d + pcount pend' d < refcnt E"
  shows "refs_ok s' pend'"
  unfolding refs_ok_def
proof (intro conjI allI impI)
  have h: "hcount s' = hcount s" by (simp add: hcount_def fun_eq_iff s'(2))
  fix e F assume "doms s' e = Some F"
  then show "hcount s' e + pcount pend' e < refcnt F"
    using refs_okD(1) [OF ok, of e F] cnt D unfolding h by (auto simp: s'(1) split: if_splits)
next
  fix q e assume "0 \<le> q \<and> q < NR_VIRQS \<and> global_virq_handlers s' q = Some e"
  then show "doms s' e \<noteq> None" using refs_okD(2) [OF ok, of q e] by (auto simp: s')
next
  fix e1 q e2 assume "(e1, q, e2) \<in> set pend'"
  then consider "(e1, q, e2) \<in> set pend" | "e1 = d1" "e2 = d" using pend'(1) by auto
  then have "doms s e1 \<noteq> None \<and> doms s e2 \<noteq> None"
    using refs_okD(3,4) [OF ok, of e1 q e2] pend'(2) D by cases auto
  then show "doms s' e1 \<noteq> None" "doms s' e2 \<noteq> None" by (auto simp: s'(1))
qed

lemma pcount_Cons: "pcount ((d1, p, d2) # pend) d = (if d2 = d then 1 else 0) + pcount pend d"
  by (simp add: pcount_def)

lemma get_domain_ok:
  assumes ok: "sys_ok s pend" and D: "doms s d = Some D" and d1: "doms s d1 \<noteq> None"
  shows "get_domain s d = Some (put_dom s d (D\<lparr>refcnt := refcnt D + 1\<rparr>))"
    "sys_ok (put_dom s d (D\<lparr>refcnt := refcnt D + 1\<rparr>)) ((d1, p, d) # pend)"
    "gview (put_dom s d (D\<lparr>refcnt := refcnt D + 1\<rparr>)) = gview s"
proof -
  let ?s = "put_dom s d (D\<lparr>refcnt := refcnt D + 1\<rparr>)"
  show "get_domain s d = Some ?s" using D by (simp add: get_domain_def)
  have "refs_ok ?s ((d1, p, d) # pend)"
    using refs_okD(1) [OF sys_okD(4) [OF ok] D] d1
    by (intro refs_ok_upd [OF sys_okD(4) [OF ok] D, of _ "D\<lparr>refcnt := refcnt D + 1\<rparr>" _ d1 p]) (auto simp: pcount_Cons)
  then show "sys_ok ?s ((d1, p, d) # pend)" "gview ?s = gview s"
    using sys_ok_refs [OF ok D, of ?s "refcnt D + 1"] by simp_all
qed

lemma put_domain_ok:
  assumes ok: "sys_ok s ((d1, p, d) # pend)" and D: "doms s d = Some D"
  shows "put_domain s d = Some (put_dom s d (D\<lparr>refcnt := refcnt D - 1\<rparr>))"
    "sys_ok (put_dom s d (D\<lparr>refcnt := refcnt D - 1\<rparr>)) pend"
    "gview (put_dom s d (D\<lparr>refcnt := refcnt D - 1\<rparr>)) = gview s"
proof -
  let ?s = "put_dom s d (D\<lparr>refcnt := refcnt D - 1\<rparr>)"
  have r: "hcount s d + pcount pend d + 1 < refcnt D" "doms s d1 \<noteq> None"
    using refs_okD(1) [OF sys_okD(4) [OF ok] D] refs_okD(3) [OF sys_okD(4) [OF ok], of d1 p d]
    by (simp_all add: pcount_Cons)
  then show "put_domain s d = Some ?s" using D by (simp add: put_domain_def Let_def)
  have "refs_ok ?s pend"
    using r by (intro refs_ok_upd [OF sys_okD(4) [OF ok] D, of _ "D\<lparr>refcnt := refcnt D - 1\<rparr>" _ d1 p]) (auto simp: pcount_Cons)
  then show "sys_ok ?s pend" "gview ?s = gview s"
    using sys_ok_refs [OF ok D, of ?s "refcnt D - 1"] by simp_all
qed

section \<open>Freeing a channel\<close>

definition freed :: "xen \<Rightarrow> domid \<Rightarrow> port \<Rightarrow> bool" where
  "freed s d p \<longleftrightarrow> (\<exists>D c. doms s d = Some D \<and> evtchn_from_port D p = Some c \<and> ec_state c = ECS_FREE \<and>
     \<not> evtchn_pending D p)"

definition waits_for :: "xen \<Rightarrow> domid \<Rightarrow> port \<Rightarrow> domid \<Rightarrow> bool" where
  "waits_for s e q d \<longleftrightarrow> (\<exists>E b. doms s e = Some E \<and> evtchn_from_port E q = Some b \<and> ec_state b = ECS_UNBOUND \<and> u_lo b = d)"

text \<open>What closing does to the connections: nothing, or the other end waits for this domain again.\<close>

definition disconnected :: "xen \<Rightarrow> domid \<Rightarrow> port \<Rightarrow> xen \<Rightarrow> bool" where
  "disconnected s d p s' \<longleftrightarrow>
     (case gview s d p of
        None \<Rightarrow> gview s' = gview s
      | Some c \<Rightarrow> gview s' = gset (gset (gview s) (u_dom c) (u_lo c) None) d p None \<and>
          waits_for s' (u_dom c) (u_lo c) d)"

text \<open>
  Ports that are free or reserved stay so, and so do ports that are attached to Xen or idle
  (\<open>X\<close> says whether ports attached to Xen count).
\<close>

definition idle :: "bool \<Rightarrow> xdomain \<Rightarrow> port \<Rightarrow> bool" where
  "idle X D p \<longleftrightarrow> (\<exists>c. evtchn_from_port D p = Some c \<and>
     (ec_state c = ECS_FREE \<or> ec_state c = ECS_RESERVED \<or> X \<and> consumer_is_xen c))"

definition keeps_idle :: "xen \<Rightarrow> xen \<Rightarrow> bool" where
  "keeps_idle s s' \<longleftrightarrow>
     (\<forall>d D. doms s d = Some D \<longrightarrow>
        (\<exists>E. doms s' d = Some E \<and> is_dying E = is_dying D \<and> (\<forall>X p. idle X D p \<longrightarrow> idle X E p)))"

lemma keeps_idle_trans: "keeps_idle s t \<Longrightarrow> keeps_idle t u \<Longrightarrow> keeps_idle s u"
  unfolding keeps_idle_def by metis

lemma keeps_idle_upd:
  assumes "doms s d = Some D" "doms s' = (doms s)(d := Some E)" "\<And>X p. idle X D p \<Longrightarrow> idle X E p"
    "is_dying E = is_dying D"
  shows "keeps_idle s s'"
  using assms by (auto simp: keeps_idle_def)

lemma keeps_idle_emit [simp]: "keeps_idle s (emit t e) = keeps_idle s t"
  by (simp add: keeps_idle_def)

lemma idle_cong: "evtchn_from_port E = evtchn_from_port D \<Longrightarrow> idle X E = idle X D"
  by (simp add: idle_def fun_eq_iff)

lemma idle_upd:
  assumes "idle X D q" "evtchn_from_port D p = Some c"
    "ec_state c' = ECS_FREE \<or> ec_state c \<noteq> ECS_FREE \<and> ec_state c \<noteq> ECS_RESERVED \<and> xen_consumer c' = xen_consumer c"
  shows "idle X (set_chn D p c') q"
  using assms by (cases "q = p") (auto simp: idle_def)

lemma idle_views:
  assumes ok: "dom_ok D" and id: "idle X D q"
    and v: "\<And>S. S \<noteq> ECS_PIRQ \<Longrightarrow> view S (evtchn_from_port E) = view S (evtchn_from_port D)"
  shows "idle X E q"
proof -
  obtain c where c: "evtchn_from_port D q = Some c"
      "ec_state c = ECS_FREE \<or> ec_state c = ECS_RESERVED \<or> X \<and> consumer_is_xen c"
    using id unfolding idle_def by blast
  then have "ec_state c \<noteq> ECS_PIRQ" using dom_ok_chan [OF ok c(1)] by (auto simp: chan_ok_def)
  then have "view (ec_state c) (evtchn_from_port E) q = Some c" using v c(1) by simp
  then show ?thesis using c(2) by (auto simp: idle_def)
qed

definition closes :: "xen \<Rightarrow> closer list \<Rightarrow> domid \<Rightarrow> port \<Rightarrow> xen \<Rightarrow> bool" where
  "closes s pend d p s' \<longleftrightarrow>
     sys_ok s' pend \<and> dom (doms s') = dom (doms s) \<and> freed s' d p \<and> disconnected s d p s' \<and> keeps_idle s s'"

lemma set_chn_pending: "set_chn (D\<lparr>evtchn_pending := m\<rparr>) p c = (set_chn D p c)\<lparr>evtchn_pending := m\<rparr>"
  by (simp add: set_chn_def bucket_from_port_def)

definition freed_dom :: "xdomain \<Rightarrow> port \<Rightarrow> evtchn \<Rightarrow> xdomain" where
  "freed_dom D p c = (set_chn D p (free_chn c))\<lparr>evtchn_pending := (evtchn_pending D)(p := False)\<rparr>"

lemma freed_dom_simps [simp]:
  "refcnt (freed_dom D p c) = refcnt D" "is_dying (freed_dom D p c) = is_dying D" "vhead (freed_dom D p c) = vhead D"
  "dom_ok (freed_dom D p c) = dom_ok (set_chn D p (free_chn c))"
  "evtchn_from_port (freed_dom D p c) = evtchn_from_port (set_chn D p (free_chn c))"
  "evtchn_pending (freed_dom D p c) = (evtchn_pending D)(p := False)"
  by (simp_all add: freed_dom_def)

lemma close_free_eq:
  assumes "doms s d = Some D" "evtchn_from_port D p = Some c"
  shows "close_free s d p = Some (emit (put_dom s d (freed_dom D p c)) (Xsm_evtchn_close_post d p))"
  using assms by (simp add: close_free_def upd_chn_def free_chn_def set_chn_pending freed_dom_def)

lemma idle_freed: "idle X D q \<Longrightarrow> evtchn_from_port D p = Some c \<Longrightarrow> idle X (freed_dom D p c) q"
  using idle_upd [of X D q p c "free_chn c"] idle_cong [of "freed_dom D p c" "set_chn D p (free_chn c)"] by simp

lemma freedI:
  "doms s d = Some (freed_dom D p c) \<Longrightarrow> evtchn_from_port D p = Some b \<Longrightarrow> freed s d p"
  by (simp add: freed_def)

lemma base_ok_emit [simp]: "base_ok (emit s e) pend = base_ok s pend" "gview (emit s e) = gview s"
  by (simp_all add: base_ok_def consumers_ok_def refs_ok_def hcount_def gview_def fun_eq_iff)

lemma sys_ok_emit [simp]: "sys_ok (emit s e) pend = sys_ok s pend"
  by (simp add: sys_ok_iff)

lemma close_free_base:
  assumes ok: "base_ok s pend" and D: "doms s d = Some D" and c: "evtchn_from_port D p = Some c" "neutral c"
    and p: "p \<noteq> 0" "\<not> consumer_is_xen c"
  shows "base_ok (put_dom s d (freed_dom D p c)) pend"
    "gview (put_dom s d (freed_dom D p c)) = gset (gview s) d p None"
proof -
  have dok: "dom_ok D" using base_ok_dom [OF ok D] .
  show "base_ok (put_dom s d (freed_dom D p c)) pend"
  proof (rule base_ok_upd [OF ok D])
    show "dom_ok (freed_dom D p c)"
      using c p dom_ok_vcpu0 [OF dok] by (simp add: neutral_def dom_ok_set_neutral [OF dok c(1)] chan_ok_free)
    show "reg_ok (xen_consumers s) b" if "view ECS_UNBOUND (evtchn_from_port (freed_dom D p c)) q = Some b \<or>
      view ECS_INTERDOMAIN (evtchn_from_port (freed_dom D p c)) q = Some b" for q b
      using that base_ok_reg [OF ok D, of q b] c by (cases "q = p") auto
  qed simp_all
  show "gview (put_dom s d (freed_dom D p c)) = gset (gview s) d p None"
    using c(1) gview_Some [OF D] gview_upd [of "put_dom s d (freed_dom D p c)" s d "freed_dom D p c"]
    by (simp add: gset_def view_upd)
qed

text \<open>Channels that other domains do not see.\<close>

lemma close_free_neutral:
  assumes ok: "sys_ok s pend" and D: "doms s d = Some D" and c: "evtchn_from_port D p = Some c"
    and st: "ec_state c = ECS_UNBOUND \<or> ec_state c = ECS_IPI" and nx: "\<not> consumer_is_xen c"
  shows "\<exists>s'. close_free s d p = Some s' \<and> closes s pend d p s'"
proof -
  have p: "p \<noteq> 0" using dom_ok_chan [OF sys_okD(1) [OF ok D] c] st by (auto simp: chan_ok_def)
  note b = close_free_base [OF base_okI [OF ok] D c _ p nx]
  have z: "gview s d p = None" using gview_not_io [OF D c] st by auto
  then have "gset (gview s) d p None = gview s" by (simp add: gset_def fun_upd_idem)
  moreover have "keeps_idle s (put_dom s d (freed_dom D p c))"
    by (rule keeps_idle_upd [OF D doms_put_dom]) (simp_all add: idle_freed c)
  ultimately show ?thesis
    using b z st sys_okD(2) [OF ok] c D freedI [of _ d D p c]
    by (auto simp: closes_def close_free_eq [OF D c] neutral_def sys_ok_iff disconnected_def)
qed

lemma same_io_freed:
  assumes E: "evtchn_from_port E p = Some c" and c: "ec_state c \<noteq> ECS_UNBOUND" "ec_state c \<noteq> ECS_INTERDOMAIN"
    and DE: "same_io D E"
  shows "same_io D (freed_dom E p c)"
  using DE view_upd_other [where ch = "evtchn_from_port E" and c = c and c' = "free_chn c" and p = p] E c
  by (simp add: same_io_def)

lemma close_free_local:
  assumes ok: "sys_ok s pend" and D: "doms s d = Some D" "same_io D E"
    and s1: "doms s1 = (doms s)(d := Some E)" "xen_consumers s1 = xen_consumers s"
      "global_virq_handlers s1 = global_virq_handlers s"
    and c: "evtchn_from_port E p = Some c" "ec_state c \<noteq> ECS_UNBOUND" "ec_state c \<noteq> ECS_INTERDOMAIN"
      "evtchn_from_port D p = Some c" and E: "dom_ok (set_chn E p (free_chn c))"
    and DE: "\<And>X q. idle X D q \<Longrightarrow> idle X E q" "is_dying E = is_dying D"
  shows "\<exists>s'. close_free s1 d p = Some s' \<and> closes s pend d p s'"
proof -
  have E1: "doms s1 d = Some E" by (simp add: s1(1))
  let ?s = "emit (put_dom s1 d (freed_dom E p c)) (Xsm_evtchn_close_post d p)"
  have ds: "doms ?s = (doms s)(d := Some (freed_dom E p c))" by (simp add: s1(1))
  note io = same_io_freed [OF c(1-3) D(2)]
  have "sys_ok ?s pend" using E
    by (intro sys_ok_local [OF ok D(1) ds _ _ _ io]) (simp_all add: s1)
  moreover have "gview ?s = gview s" using gview_upd [OF ds] gview_Some [OF D(1)] io by (simp add: same_io_def fun_upd_idem)
  then have "disconnected s d p ?s" using gview_not_io [OF D(1) c(4,3)] by (simp add: disconnected_def)
  moreover have "dom (doms ?s) = dom (doms s)" unfolding ds using D(1) by auto
  moreover have "freed ?s d p" by (rule freedI [of _ d E p c]) (simp_all add: c(1))
  moreover have "keeps_idle s ?s" by (rule keeps_idle_upd [OF D(1) ds]) (simp_all add: idle_freed [OF DE(1) c(1)] DE(2))
  ultimately show ?thesis using close_free_eq [OF E1 c(1)] unfolding closes_def by blast
qed

lemma close_virq_closes:
  assumes ok: "sys_ok s pend" and D: "doms s d = Some D" and c: "evtchn_from_port D p = Some c" "ec_state c = ECS_VIRQ"
  shows "\<exists>E s'. foldM (clear_virq (u_lo c) p) (vcpu_list D) D = Some E \<and>
    close_free (put_dom s d E) d p = Some s' \<and> closes s pend d p s'"
proof -
  note dok = sys_okD(1) [OF ok D]
  let ?E = "D\<lparr>d_vcpu := (\<lambda>v. map_option (clr_virq (u_lo c) p) (d_vcpu D v))\<rparr>"
  have ch: "evtchn_from_port ?E = evtchn_from_port D" by (rule evtchn_from_port_cong) simp
  have "\<exists>s'. close_free (put_dom s d ?E) d p = Some s' \<and> closes s pend d p s'"
    using ch c dom_ok_close_virq [OF dok c]
    by (intro close_free_local [OF ok D, of ?E]) (simp_all add: same_io_def idle_def)
  then show ?thesis using clear_virq_all [OF dom_okD(3) [OF dok], of "u_lo c" p] by blast
qed

lemma close_pirq_closes:
  assumes ok: "sys_ok s pend" and D: "doms s d = Some D" and c: "evtchn_from_port D p = Some c" "ec_state c = ECS_PIRQ"
  shows "\<exists>s1 s'. close_pirq s d c = Some s1 \<and> close_free s1 d p = Some s' \<and> closes s pend d p s'"
proof -
  obtain s1 E where e: "close_pirq s d c = Some s1" "doms s1 = (doms s)(d := Some E)"
      "xen_consumers s1 = xen_consumers s" "global_virq_handlers s1 = global_virq_handlers s"
      "evtchn_from_port E p = Some c" "dom_ok (set_chn E p (free_chn c))" "rest D E"
      "\<forall>S. S \<noteq> ECS_PIRQ \<longrightarrow> view S (evtchn_from_port E) = view S (evtchn_from_port D)"
    using close_pirq_ok [OF sys_okD(1) [OF ok D] D c] by blast
  have "same_io D E" using e(7,8) by (intro same_io_rest) simp_all
  then have "\<exists>s'. close_free s1 d p = Some s' \<and> closes s pend d p s'"
    using close_free_local [OF ok D _ e(2-5)] c e(6-8) idle_views [OF sys_okD(1) [OF ok D], of _ _ E] by (simp add: rest_def)
  with e(1) show ?thesis by blast
qed

lemma close_peer_closes:
  assumes ok: "sys_ok s pend" and D: "doms s d = Some D"
    and c: "evtchn_from_port D p = Some c" "ec_state c = ECS_INTERDOMAIN" "\<not> consumer_is_xen c"
  shows "\<exists>s1 s'. close_peer s d (u_dom c) (u_lo c) = Some s1 \<and> close_free s1 d p = Some s' \<and> closes s pend d p s'"
proof -
  let ?r = "u_dom c" and ?q = "u_lo c"
  from peer_cases [OF ok D c(1,2)] obtain R b where R: "doms s ?r = Some R" and
    b: "evtchn_from_port R ?q = Some b" "ec_state b = ECS_INTERDOMAIN" "u_dom b = d" "u_lo b = p" and
    ne: "\<not> (?r = d \<and> ?q = p)" .
  note dok = sys_okD(1) [OF ok D] and rok = sys_okD(1) [OF ok R]
  define b' where "b' = b\<lparr>ec_state := ECS_UNBOUND, u_lo := d\<rparr>"
  define s1 where "s1 = put_dom s ?r (set_chn R ?q b')"
  have cp: "close_peer s d ?r ?q = Some s1"
    using R b dom_ok_valid [OF rok, of ?q] by (simp add: close_peer_def s1_def b'_def)
  have "reg_ok (xen_consumers s) b" using base_ok_reg [OF base_okI [OF ok] R, of ?q b] b by simp
  then have b': "neutral b" "neutral b'" "chan_ok (vhead R) ?q b'" "reg_ok (xen_consumers s) b'"
    using dom_ok_chan [OF rok b(1)] b(2) by (auto simp: b'_def neutral_def chan_ok_def reg_ok_def)
  have s1: "base_ok s1 pend" "gview s1 = gset (gview s) ?r ?q None"
    using base_ok_set_chn [OF base_okI [OF ok] R b(1) b'] by (simp_all add: s1_def b'_def)
  define D1 where "D1 = (if ?r = d then set_chn R ?q b' else D)"
  have D1: "doms s1 d = Some D1" "evtchn_from_port D1 p = Some c"
    using ne c D R b by (auto simp: s1_def D1_def)
  have p: "p \<noteq> 0" "neutral c" using dom_ok_chan [OF dok c(1)] c(2) by (auto simp: chan_ok_def neutral_def)
  let ?s = "emit (put_dom s1 d (freed_dom D1 p c)) (Xsm_evtchn_close_post d p)"
  note f = close_free_base [OF s1(1) D1 p(2,1) c(3)]
  have g: "gview s d p = Some c" using c by (simp add: gview_Some [OF D])
  have "peers_ok (gview ?s)" using peers_ok_unbind [OF sys_okD(2) [OF ok] g] f(2) s1(2) by simp
  with f(1) have "sys_ok ?s pend" by (simp add: sys_ok_iff)
  moreover have "freed ?s d p" by (rule freedI [of _ d D1 p c]) (simp_all add: D1(2))
  moreover have "waits_for ?s ?r ?q d"
    using ne b c R D1 by (auto simp: waits_for_def s1_def D1_def b'_def)
  then have "disconnected s d p ?s" using f(2) s1(2) g by (simp add: disconnected_def)
  moreover have "dom (doms ?s) = dom (doms s)" using D R by (auto simp: s1_def)
  moreover have "keeps_idle s ?s"
  proof (rule keeps_idle_trans)
    show "keeps_idle s s1" using b(1,2) idle_upd [OF _ b(1)]
      by (intro keeps_idle_upd [OF R, of _ "set_chn R ?q b'"]) (simp_all add: s1_def b'_def)
    show "keeps_idle s1 ?s"
      by (rule keeps_idle_upd [OF D1(1), of _ "freed_dom D1 p c"]) (simp_all add: idle_freed [OF _ D1(2)])
  qed
  ultimately show ?thesis using cp close_free_eq [OF D1] unfolding closes_def by blast
qed

section \<open>The passes of a close\<close>

definition toks :: "domid \<Rightarrow> port \<Rightarrow> domid option \<Rightarrow> closer list" where
  "toks d p d2 = (case d2 of None \<Rightarrow> [] | Some r \<Rightarrow> [(d, p, r)])"

lemma toks_simps [simp]: "toks d p None = []" "toks d p (Some r) = [(d, p, r)]"
  by (simp_all add: toks_def)

definition closable :: "xdomain \<Rightarrow> port \<Rightarrow> domid option \<Rightarrow> bool" where
  "closable D p d2 \<longleftrightarrow> (\<exists>c. evtchn_from_port D p = Some c \<and> \<not> consumer_is_xen c \<and>
     ec_state c \<noteq> ECS_FREE \<and> ec_state c \<noteq> ECS_RESERVED \<and>
     (ec_state c = ECS_INTERDOMAIN \<longrightarrow> d2 = None \<or> d2 = Some (u_dom c)))"

lemma close_pass_error:
  assumes "dom_ok D" "doms s d = Some D" "\<not> closable D p d2"
  shows "evtchn_close_pass x s d p d2 = Some (Some (- EINVAL), d2, s)"
proof (cases "evtchn_from_port D p")
  case None
  then show ?thesis using assms(2) dom_ok_valid [OF assms(1), of p] by (simp add: evtchn_close_pass_def)
next
  case (Some c)
  then show ?thesis using assms(2,3) dom_ok_valid [OF assms(1), of p]
    by (cases "ec_state c") (auto simp: evtchn_close_pass_def closable_def split: option.splits)
qed

lemma closes_cong:
  "gview t = gview s \<Longrightarrow> dom (doms t) = dom (doms s) \<Longrightarrow> keeps_idle s t \<Longrightarrow> closes t pend d p s' \<Longrightarrow> closes s pend d p s'"
  using keeps_idle_trans [of s t s'] by (cases "gview s d p") (simp_all add: closes_def disconnected_def)

lemma keeps_idle_refcnt: "doms s d = Some D \<Longrightarrow> keeps_idle s (put_dom s d (D\<lparr>refcnt := n\<rparr>))"
  by (rule keeps_idle_upd [OF _ doms_put_dom]) (simp_all add: idle_def)

lemma close_pass_inter:
  assumes ok: "sys_ok s pend" and D: "doms s d = Some D"
    and c: "evtchn_from_port D p = Some c" "ec_state c = ECS_INTERDOMAIN" "\<not> consumer_is_xen c"
  shows "(\<exists>s'. evtchn_close_pass x s d p None = Some (Some 0, Some (u_dom c), s') \<and>
      closes s ((d, p, u_dom c) # pend) d p s') \<or>
    (\<exists>s'. u_dom c \<noteq> d \<and> evtchn_close_pass x s d p None = Some (None, Some (u_dom c), s') \<and>
      sys_ok s' ((d, p, u_dom c) # pend) \<and> gview s' = gview s \<and> dom (doms s') = dom (doms s) \<and> keeps_idle s s' \<and>
      doms s' d = Some D)"
proof -
  let ?r = "u_dom c"
  from peer_cases [OF ok D c(1,2)] obtain R where R: "doms s ?r = Some R" .
  define s1 where "s1 = put_dom s ?r (R\<lparr>refcnt := refcnt R + 1\<rparr>)"
  have s1: "get_domain s ?r = Some s1" "sys_ok s1 ((d, p, ?r) # pend)" "gview s1 = gview s" "dom (doms s1) = dom (doms s)"
    "keeps_idle s s1"
    using keeps_idle_refcnt [OF R, of "refcnt R + 1"] get_domain_ok(1,3) [OF ok R, of d] get_domain_ok(2) [OF ok R, of d p] D R by (auto simp: s1_def)
  note unf = evtchn_close_pass_def D c s1(1) dom_ok_valid [OF sys_okD(1) [OF ok D]] Let_def
  show ?thesis
  proof (cases "\<not> dom_before x d ?r \<and> d \<noteq> ?r")
    case True
    then have "doms s1 d = Some D" using D by (simp add: s1_def)
    then show ?thesis using True s1(2-5) c(3) by (intro disjI2 exI [of _ s1]) (simp add: unf)
  next
    case False
    obtain D1 where D1: "doms s1 d = Some D1" "evtchn_from_port D1 p = Some c"
      using D R c by (cases "?r = d") (auto simp: s1_def)
    obtain s2 s' where "close_peer s1 d ?r (u_lo c) = Some s2" "close_free s2 d p = Some s'"
        "closes s1 ((d, p, ?r) # pend) d p s'"
      using close_peer_closes [OF s1(2) D1 c(2,3)] by blast
    then show ?thesis using False c(3) closes_cong [OF s1(3-5)] by (auto simp: unf)
  qed
qed

lemma close_pass_closable:
  assumes ok: "sys_ok s (toks d p d2 @ pend)" and D: "doms s d = Some D" and cl: "closable D p d2"
  shows "(\<exists>d2' s'. evtchn_close_pass x s d p d2 = Some (Some 0, d2', s') \<and> closes s (toks d p d2' @ pend) d p s') \<or>
    (\<exists>r s'. d2 = None \<and> r \<noteq> d \<and> evtchn_close_pass x s d p None = Some (None, Some r, s') \<and>
      sys_ok s' ((d, p, r) # pend) \<and> gview s' = gview s \<and> dom (doms s') = dom (doms s) \<and>
      keeps_idle s s' \<and> doms s' d = Some D \<and> closable D p (Some r))"
proof -
  from cl obtain c where c: "evtchn_from_port D p = Some c" "\<not> consumer_is_xen c" "ec_state c \<noteq> ECS_FREE"
    "ec_state c \<noteq> ECS_RESERVED" "ec_state c = ECS_INTERDOMAIN \<Longrightarrow> d2 = None \<or> d2 = Some (u_dom c)"
    unfolding closable_def by blast
  note unf = evtchn_close_pass_def D c dom_ok_valid [OF sys_okD(1) [OF ok D]]
  show ?thesis
  proof (cases "ec_state c")
    case ECS_INTERDOMAIN
    then consider "d2 = None" | "d2 = Some (u_dom c)" using c(5) by blast
    then show ?thesis
    proof cases
      case 1
      have cl': "closable D p (Some (u_dom c))" using c ECS_INTERDOMAIN unfolding closable_def by blast
      have "sys_ok s pend" using ok 1 by simp
      from close_pass_inter [OF this D c(1) ECS_INTERDOMAIN c(2), of x] show ?thesis
      proof (elim disjE exE conjE)
        fix s' assume "evtchn_close_pass x s d p None = Some (Some 0, Some (u_dom c), s')"
          "closes s ((d, p, u_dom c) # pend) d p s'"
        then show ?thesis using 1 by (intro disjI1 exI [of _ "Some (u_dom c)"]) simp
      qed (use 1 cl' in blast)
    next
      case 2
      then show ?thesis using close_peer_closes [OF ok D c(1) ECS_INTERDOMAIN c(2)] ECS_INTERDOMAIN c(2)
        by (auto simp: unf)
    qed
  next
    case ECS_VIRQ
    with c(2) close_virq_closes [OF ok D c(1) ECS_VIRQ] show ?thesis by (auto simp: unf)
  next
    case ECS_PIRQ
    with c(2) close_pirq_closes [OF ok D c(1) ECS_PIRQ] show ?thesis by (auto simp: unf)
  next
    case ECS_UNBOUND
    with c(2) close_free_neutral [OF ok D c(1) _ c(2)] show ?thesis by (auto simp: unf)
  next
    case ECS_IPI
    with c(2) close_free_neutral [OF ok D c(1) _ c(2)] show ?thesis by (auto simp: unf)
  qed (use c in simp_all)
qed

lemma close_out_closes:
  assumes "closes s (toks d p d2 @ pend) d p s1"
  shows "\<exists>s'. evtchn_close_out s1 d2 = Some s' \<and> closes s pend d p s'"
proof (cases d2)
  case None
  then show ?thesis using assms by (simp add: evtchn_close_out_def)
next
  case (Some r)
  have ok: "sys_ok s1 ((d, p, r) # pend)" and f: "freed s1 d p" "disconnected s d p s1" "dom (doms s1) = dom (doms s)"
      "keeps_idle s s1"
    using assms Some by (simp_all add: closes_def)
  obtain R where R: "doms s1 r = Some R" using refs_okD(4) [OF sys_okD(4) [OF ok], of d p r] by auto
  define s2 where "s2 = put_dom s1 r (R\<lparr>refcnt := refcnt R - 1\<rparr>)"
  have s2: "put_domain s1 r = Some s2" "sys_ok s2 pend" "gview s2 = gview s1" using put_domain_ok [OF ok R] by (simp_all add: s2_def)
  moreover have "freed s2 d p" using f(1) R by (auto simp: s2_def freed_def)
  moreover have "waits_for s2 e q d" if "waits_for s1 e q d" for e q using that R by (auto simp: s2_def waits_for_def)
  then have "disconnected s d p s2" using f(2) s2(3) by (auto simp: disconnected_def split: option.splits)
  moreover have "dom (doms s2) = dom (doms s)" using f(3) R by (auto simp: s2_def)
  moreover have "keeps_idle s s2" unfolding s2_def by (rule keeps_idle_trans [OF f(4) keeps_idle_refcnt [OF R]])
  ultimately show ?thesis using Some by (simp add: evtchn_close_out_def closes_def)
qed

text \<open>The whole function when no other operation runs between its passes.\<close>

lemma close_cases:
  assumes ok: "sys_ok s pend" and D: "doms s d = Some D"
  shows "if closable D p None then \<exists>s'. evtchn_close' x s d p = Some (0, s') \<and> closes s pend d p s'
    else evtchn_close' x s d p = Some (- EINVAL, s)"
proof (cases "closable D p None")
  case False
  then show ?thesis using close_pass_error [OF sys_okD(1) [OF ok D] D False, of x]
    by (simp add: evtchn_close'_def evtchn_close_out_def)
next
  case True
  have "sys_ok s (toks d p None @ pend)" using ok by simp
  from close_pass_closable [OF this D True, of x] show ?thesis
  proof (elim disjE exE conjE)
    fix d2' s' assume "evtchn_close_pass x s d p None = Some (Some 0, d2', s')" "closes s (toks d p d2' @ pend) d p s'"
    then show ?thesis using True close_out_closes by (fastforce simp: evtchn_close'_def)
  next
    fix r s1 assume w: "evtchn_close_pass x s d p None = Some (None, Some r, s1)" "sys_ok s1 ((d, p, r) # pend)"
      "gview s1 = gview s" "dom (doms s1) = dom (doms s)" "keeps_idle s s1" "doms s1 d = Some D"
      "closable D p (Some r)"
    have "sys_ok s1 (toks d p (Some r) @ pend)" using w(2) by simp
    from close_pass_closable [OF this w(6,7), of x] obtain d2' s2 where
      p2: "evtchn_close_pass x s1 d p (Some r) = Some (Some 0, d2', s2)" "closes s1 (toks d p d2' @ pend) d p s2" by auto
    from close_out_closes [OF closes_cong [OF w(3-5) p2(2)]] show ?thesis
      using True w(1) p2(1) by (auto simp: evtchn_close'_def evtchn_close_with_def)
  qed
qed

end
