(* ===== verification/Evtchn_Life.thy ===== *)
theory Evtchn_Life
  imports Evtchn_Close
begin

text \<open>
  Operations on many ports and on the life of a domain: reset, channels attached to Xen, the handlers of
  global virtual interrupts, creation and destruction, and moving the physical interrupts of a virtual
  CPU to another processor.
\<close>

section \<open>Channels attached to Xen\<close>

lemma io_upd_ok:
  assumes ok: "sys_ok s pend" and D: "doms s d = Some D" and c: "evtchn_from_port D p = Some c" "neutral c"
    and c': "ec_state c' = ec_state c" "u_dom c' = u_dom c" "u_lo c' = u_lo c" "chan_ok (vhead D) p c'"
      "reg_ok (xen_consumers s) c'"
  shows "sys_ok (put_dom s d (set_chn D p c')) pend"
proof -
  have n: "neutral c'" using c(2) c'(1) by (simp add: neutral_def)
  note b = base_ok_set_chn [OF base_okI [OF ok] D c n c'(4,5)]
  have "peers_ok (gview (put_dom s d (set_chn D p c')))"
  proof (cases "ec_state c = ECS_INTERDOMAIN")
    case True
    then show ?thesis unfolding b(2) using c(1) c'
      by (simp add: peers_ok_retarget [OF sys_okD(2) [OF ok], of d p c] gview_Some [OF D])
  next
    case False
    then have "gset (gview s) d p None = gview s"
      using gview_not_io [OF D c(1)] by (simp add: gset_def fun_upd_idem)
    then show ?thesis unfolding b(2) using False c'(1) sys_okD(2) [OF ok] by simp
  qed
  with b(1) show ?thesis by (simp add: sys_ok_iff)
qed

lemma set_chn_same [simp]: "evtchn_from_port D p = Some c \<Longrightarrow> set_chn D p c = D"
  by (auto simp: set_chn_def evtchn_from_port_def bucket_from_port_def fun_upd_idem split: option.splits)

text \<open>Detaching a channel from Xen.\<close>

lemma detach_ok:
  assumes ok: "sys_ok s pend" and D: "doms s d = Some D" and c: "evtchn_from_port D p = Some c"
  defines "E \<equiv> set_chn D p (c\<lparr>xen_consumer := 0\<rparr>)"
  shows "sys_ok (put_dom s d E) pend" "dom (doms (put_dom s d E)) = dom (doms s)"
    "idle False D q \<Longrightarrow> idle False E q" "is_dying E = is_dying D"
proof -
  show "sys_ok (put_dom s d E) pend"
  proof (cases "consumer_is_xen c")
    case False
    then have "c\<lparr>xen_consumer := 0\<rparr> = c" by simp
    then show ?thesis using ok D c by (simp add: E_def)
  next
    case True
    then show ?thesis unfolding E_def using dom_ok_chan [OF sys_okD(1) [OF ok D] c]
      by (intro io_upd_ok [OF ok D c]) (auto simp: chan_ok_def neutral_def reg_ok_def)
  qed
  show "dom (doms (put_dom s d E)) = dom (doms s)" using D by auto
  show "idle False E q" if "idle False D q" using that c by (cases "q = p") (auto simp: E_def idle_def)
  show "is_dying E = is_dying D" by (simp add: E_def)
qed

lemma free_xen_safe:
  assumes ok: "sys_ok s pend" and D: "doms s d = Some D"
    and xc: "is_dying D \<or> (\<exists>c. evtchn_from_port D p = Some c \<and> consumer_is_xen c)"
  shows "safe s pend (free_xen_event_channel x s d p)"
    "\<not> is_dying D \<Longrightarrow> \<exists>s'. free_xen_event_channel x s d p = Some s' \<and> freed s' d p"
proof -
  have *: "\<exists>s'. free_xen_event_channel x s d p = Some s' \<and> freed s' d p \<and> safe s pend (Some s')" if nd: "\<not> is_dying D"
  proof -
    from xc nd obtain c where c: "evtchn_from_port D p = Some c" "consumer_is_xen c" by blast
    let ?E = "set_chn D p (c\<lparr>xen_consumer := 0\<rparr>)"
    note t = detach_ok [OF ok D c(1)]
    have st: "ec_state c = ECS_UNBOUND \<or> ec_state c = ECS_INTERDOMAIN"
      using dom_ok_chan [OF sys_okD(1) [OF ok D] c(1)] c(2) by (auto simp: chan_ok_def)
    have "doms (put_dom s d ?E) d = Some ?E" by simp
    moreover have "closable ?E p None" using c st by (auto simp: closable_def)
    ultimately obtain s' where "evtchn_close' x (put_dom s d ?E) d p = Some (0, s')" "closes (put_dom s d ?E) pend d p s'"
      using close_cases [OF t(1), of d ?E p x] by auto
    then show ?thesis using nd D c dom_ok_valid [OF sys_okD(1) [OF ok D], of p] t(2)
      by (simp add: free_xen_event_channel_def closes_def safe_def)
  qed
  show "\<exists>s'. free_xen_event_channel x s d p = Some s' \<and> freed s' d p" if "\<not> is_dying D" using * [OF that] by blast
  show "safe s pend (free_xen_event_channel x s d p)"
    using * safe_refl [OF ok] D by (cases "is_dying D") (auto simp: free_xen_event_channel_def)
qed

text \<open>Registering a notification function keeps the registered ones.\<close>

lemma find_consumer_spec:
  assumes "find_consumer cs fn = Some (i, cs')"
  shows "i < length cs" "length cs' = length cs" "cs' ! i = Some fn"
    "j < length cs \<Longrightarrow> cs ! j \<noteq> None \<Longrightarrow> cs' ! j = cs ! j"
proof -
  have "i < length cs \<and> length cs' = length cs \<and> cs' ! i = Some fn \<and>
    (\<forall>j. j < length cs \<and> cs ! j \<noteq> None \<longrightarrow> cs' ! j = cs ! j)"
    using assms
  proof (induction cs fn arbitrary: i cs' rule: find_consumer.induct)
    case (2 c cs fn)
    show ?case
    proof (cases "c = None \<or> c = Some fn")
      case True
      with 2(2) show ?thesis by (auto simp: nth_Cons split: nat.splits)
    next
      case False
      with 2(2) obtain k ds where k: "find_consumer cs fn = Some (k, ds)" "i = Suc k" "cs' = c # ds"
        by (auto split: bind_splits)
      with 2(1) [OF False, of k ds] show ?thesis by (auto simp: nth_Cons split: nat.splits)
    qed
  qed simp
  then show "i < length cs" "length cs' = length cs" "cs' ! i = Some fn"
    "j < length cs \<Longrightarrow> cs ! j \<noteq> None \<Longrightarrow> cs' ! j = cs ! j" by blast+
qed

lemma reg_ok_consumer:
  assumes "find_consumer cs fn = Some (i, cs')"
  shows "reg_ok cs c \<Longrightarrow> reg_ok cs' c" "xen_consumer c = Suc i \<Longrightarrow> reg_ok cs' c"
  using find_consumer_spec [OF assms] find_consumer_spec(4) [OF assms, of "xen_consumer c - 1"]
  by (auto simp: reg_ok_def)

lemma sys_ok_consumers:
  assumes "sys_ok s pend" "find_consumer (xen_consumers s) fn = Some (i, cs')"
  shows "sys_ok (s\<lparr>xen_consumers := cs'\<rparr>) pend"
proof -
  have "consumers_ok (s\<lparr>xen_consumers := cs'\<rparr>)"
    using sys_okD(3) [OF assms(1)] reg_ok_consumer(1) [OF assms(2)] unfolding consumers_ok_def by simp
  moreover have "gview (s\<lparr>xen_consumers := cs'\<rparr>) = gview s" by (simp add: gview_def fun_eq_iff)
  moreover have "refs_ok (s\<lparr>xen_consumers := cs'\<rparr>) pend"
    by (rule refs_ok_transfer [OF sys_okD(4) [OF assms(1)]]) simp_all
  ultimately show ?thesis using sys_okD(1,2) [OF assms(1)] by (simp add: sys_ok_def)
qed

lemma alloc_unbound_xen_safe:
  assumes ok: "sys_ok s pend" and D: "doms s d = Some D" and v: "d_vcpu D v \<noteq> None"
    and room: "find_consumer (xen_consumers s) (case fn of None \<Rightarrow> Default_fn | Some f \<Rightarrow> f) \<noteq> None"
  shows "safe s pend (st2 (alloc_unbound_xen_event_channel x s d v remote fn))"
proof -
  obtain p E where g: "get_free_port x D = (p, E)" by (cases "get_free_port x D") auto
  show ?thesis
  proof (cases rule: get_free_port_cases [OF sys_okD(1) [OF ok D] g])
    case 1
    then show ?thesis using D g safe_refl [OF ok] by (simp add: alloc_unbound_xen_event_channel_def)
  next
    case (2 c)
    obtain i cs where f: "find_consumer (xen_consumers s) (case fn of None \<Rightarrow> Default_fn | Some f \<Rightarrow> f) = Some (i, cs)"
      using room by auto
    let ?c = "c\<lparr>ec_state := ECS_UNBOUND, xen_consumer := Suc i, notify_vcpu_id := v,
      u_lo := (if xsm_evtchn_unbound x d p remote = 0 then remote else DOMID_INVALID)\<rparr>"
    let ?s = "s\<lparr>xen_consumers := cs\<rparr>"
    have s1: "sys_ok (put_dom ?s d E) pend"
      using safe_local [OF sys_ok_consumers [OF ok f], of d D E] D 2(2) grown_io [OF 2(5)] by (simp add: safe_def)
    have "sys_ok (put_dom (put_dom ?s d E) d (set_chn E p ?c)) pend"
      using chan_ok_bound [OF 2(2-4)] 2(4) v grownD(6) [OF 2(5)] reg_ok_consumer(2) [OF f]
      by (intro sys_ok_set_chn [OF s1 _ 2(3)]) (simp_all add: neutral_def chan_ok_def)
    then have "safe s pend (Some (put_dom ?s d (set_chn E p ?c)))" using D by (intro safeI) auto
    then show ?thesis using D g 2(1) f
      by (simp add: alloc_unbound_xen_event_channel_def get_xen_consumer_def Let_def upd_chn_Some [OF 2(3)])
  qed
qed

section \<open>Handlers of global virtual interrupts\<close>

lemma filter_upd_length:
  assumes "distinct xs" "q \<in> set xs"
  shows "length (filter (\<lambda>x. (h(q := y)) x = z) xs) + (if h q = z then 1 else 0) =
    length (filter (\<lambda>x. h x = z) xs) + (if y = z then 1 else 0)"
  using assms
proof (induction xs)
  case (Cons x xs)
  show ?case
  proof (cases "x = q")
    case True
    then have "filter (\<lambda>x. (h(q := y)) x = z) xs = filter (\<lambda>x. h x = z) xs"
      using Cons.prems(1) by (intro filter_cong) auto
    with True show ?thesis by simp
  qed (use Cons in auto)
qed simp

lemma hcount_upd:
  assumes "0 \<le> q" "q < NR_VIRQS" "global_virq_handlers s' = (global_virq_handlers s)(q := Some d)"
  shows "hcount s' e + (if global_virq_handlers s q = Some e then 1 else 0) = hcount s e + (if d = e then 1 else 0)"
  using filter_upd_length [of "[0..NR_VIRQS - 1]" q "global_virq_handlers s" "Some d" "Some e"] assms(1,2)
  by (simp add: hcount_def assms(3))

lemma sys_ok_handler:
  assumes ok: "sys_ok s ((d, 0, d) # pend)" and q: "0 \<le> q" "q < NR_VIRQS"
  shows "sys_ok (s\<lparr>global_virq_handlers := (global_virq_handlers s)(q := Some d)\<rparr>)
    (toks d 0 (global_virq_handlers s q) @ pend)" (is "sys_ok ?s ?pend")
proof -
  note refs = refs_okD [OF sys_okD(4) [OF ok]]
  have cnt: "hcount ?s e + pcount ?pend e = hcount s e + pcount ((d, 0, d) # pend) e" for e
    using hcount_upd [OF q, of ?s s d e] by (cases "global_virq_handlers s q") (auto simp: pcount_Cons)
  have d: "doms s d \<noteq> None" using refs(3) [of d 0 d] by simp
  have "refs_ok ?s ?pend" unfolding refs_ok_def
  proof (intro conjI allI impI)
    show "hcount ?s e + pcount ?pend e < refcnt E" if "doms ?s e = Some E" for e E
      using refs(1) [of e E] that unfolding cnt by simp
    show "doms ?s e \<noteq> None" if "0 \<le> u \<and> u < NR_VIRQS \<and> global_virq_handlers ?s u = Some e" for u e
      using that refs(2) [of u e] d by (auto split: if_splits)
    show "doms ?s d1 \<noteq> None" "doms ?s d2 \<noteq> None" if "(d1, p, d2) \<in> set ?pend" for d1 p d2
      using that refs(2) [of q d2] refs(3,4) [of d1 p d2] d q by (auto simp: toks_def split: option.splits)
  qed
  moreover have "gview ?s = gview s" by (simp add: gview_def fun_eq_iff)
  ultimately show ?thesis using sys_okD(1-3) [OF ok] by (simp add: sys_ok_def consumers_ok_def)
qed

lemma set_global_virq_handler_safe:
  assumes ok: "sys_ok s pend" and D: "doms s d = Some D" and q: "0 \<le> q"
  shows "safe s pend (st2 (set_global_virq_handler s d q))"
proof (cases "q < NR_VIRQS \<and> \<not> per_vcpu q \<and> global_virq_handlers s q \<noteq> Some d")
  case False
  then show ?thesis using safe_refl [OF ok] by (auto simp: set_global_virq_handler_def virq_is_global_eq)
next
  case True
  define s1 where "s1 = put_dom s d (D\<lparr>refcnt := refcnt D + 1\<rparr>)"
  have s1: "get_domain s d = Some s1" "sys_ok s1 ((d, 0, d) # pend)" "global_virq_handlers s1 = global_virq_handlers s"
    using get_domain_ok(1) [OF ok D, of d] get_domain_ok(2) [OF ok D, of d 0] D by (simp_all add: s1_def)
  define s2 where "s2 = s1\<lparr>global_virq_handlers := (global_virq_handlers s1)(q := Some d)\<rparr>"
  have s2: "sys_ok s2 (toks d 0 (global_virq_handlers s q) @ pend)"
    using sys_ok_handler [OF s1(2) q] True s1(3) by (simp add: s2_def)
  have d2: "dom (doms s2) = dom (doms s)" using D by (auto simp: s2_def s1_def)
  note unf = set_global_virq_handler_def virq_is_global_eq Let_def s1(1,3) s2_def [symmetric, unfolded s1(3)]
  show ?thesis
  proof (cases "global_virq_handlers s q")
    case None
    then show ?thesis using True s2 d2 by (simp add: unf safe_def)
  next
    case (Some e)
    then have ok2: "sys_ok s2 ((d, 0, e) # pend)" using s2 by simp
    then obtain E where E: "doms s2 e = Some E" using refs_okD(4) [OF sys_okD(4) [OF ok2], of d 0 e] by auto
    have "dom (doms (put_dom s2 e (E\<lparr>refcnt := refcnt E - 1\<rparr>))) = dom (doms s)" using d2 E by auto
    then show ?thesis using True Some put_domain_ok(1,2) [OF ok2 E] by (simp add: unf safe_def del: doms_put_dom)
  qed
qed

lemma put_many:
  assumes "doms s d = Some D" "length xs < refcnt D"
  shows "foldM (\<lambda>_ s. put_domain s d) xs s = Some (put_dom s d (D\<lparr>refcnt := refcnt D - length xs\<rparr>))"
  using assms
proof (induction xs arbitrary: s D)
  case (Cons a xs)
  let ?D = "D\<lparr>refcnt := refcnt D - 1\<rparr>"
  have "put_domain s d = Some (put_dom s d ?D)" using Cons.prems by (simp add: put_domain_def Let_def)
  then show ?case using Cons.IH [of "put_dom s d ?D" ?D] Cons.prems by simp
qed simp

lemma clear_global_virq_handlers_safe:
  assumes ok: "sys_ok s pend" and D: "doms s d = Some D"
  shows "\<exists>s'. clear_global_virq_handlers s d = Some s' \<and> sys_ok s' pend \<and>
    doms s' = (doms s)(d := Some (D\<lparr>refcnt := refcnt D - hcount s d\<rparr>)) \<and>
    (\<forall>q. 0 \<le> q \<and> q < NR_VIRQS \<longrightarrow> global_virq_handlers s' q \<noteq> Some d)"
proof -
  note refs = refs_okD [OF sys_okD(4) [OF ok]]
  define vs where "vs = filter (\<lambda>q. global_virq_handlers s q = Some d) [0..NR_VIRQS - 1]"
  define s1 where "s1 = s\<lparr>global_virq_handlers := (\<lambda>q. if q \<in> set vs then None else global_virq_handlers s q)\<rparr>"
  define s2 where "s2 = put_dom s1 d (D\<lparr>refcnt := refcnt D - length vs\<rparr>)"
  have n: "length vs = hcount s d" by (simp add: vs_def hcount_def)
  have len: "length vs + pcount pend d < refcnt D" using refs(1) [OF D] n by simp
  have "foldM (\<lambda>_ s. put_domain s d) vs s1 = Some s2"
    using put_many [of s1 d D vs] len D by (simp add: s1_def s2_def)
  then have cl: "clear_global_virq_handlers s d = Some s2"
    unfolding clear_global_virq_handlers_def Let_def vs_def [symmetric] s1_def by simp
  have g2: "global_virq_handlers s2 q = (if q \<in> set vs then None else global_virq_handlers s q)" for q
    by (simp add: s2_def s1_def)
  have nd: "global_virq_handlers s2 q \<noteq> Some d" if "0 \<le> q" "q < NR_VIRQS" for q
    using that by (auto simp: g2 vs_def)
  have h2: "hcount s2 e = (if e = d then 0 else hcount s e)" for e
    unfolding hcount_def g2 by (auto simp: vs_def filter_empty_conv intro!: arg_cong [where f = length] filter_cong)
  have "refs_ok s2 pend" unfolding refs_ok_def
  proof (intro conjI allI impI)
    show "hcount s2 e + pcount pend e < refcnt E" if "doms s2 e = Some E" for e E
      using that refs(1) [of e E] len unfolding h2 by (auto simp: s2_def s1_def split: if_splits)
    show "doms s2 e \<noteq> None" if "0 \<le> u \<and> u < NR_VIRQS \<and> global_virq_handlers s2 u = Some e" for u e
      using that refs(2) [of u e] by (auto simp: g2 s2_def s1_def split: if_splits)
    show "doms s2 d1 \<noteq> None" "doms s2 d2 \<noteq> None" if "(d1, p, d2) \<in> set pend" for d1 p d2
      using that refs(3,4) [of d1 p d2] by (auto simp: s2_def s1_def)
  qed
  then have "sys_ok s2 pend" by (intro sys_ok_refs [OF ok D]) (simp_all add: s2_def s1_def)
  then show ?thesis using cl nd n by (auto simp: s2_def s1_def)
qed

section \<open>Closing every port\<close>

lemma valid_below:
  assumes "dom_ok D" "port_is_valid D p" "0 \<le> q" "q \<le> p"
  shows "port_is_valid D q"
proof -
  have "d_evtchn D (p div 128) \<noteq> None" "p < MAX_EVTCHNS D"
    using assms(2) by (simp_all add: port_is_valid_def bucket_from_port_def)
  moreover have "0 \<le> q div 128" "q div 128 \<le> p div 128" using assms(3,4) by (auto intro: zdiv_mono1)
  ultimately show ?thesis using dom_okD(2) [OF assms(1)] assms(3,4)
    unfolding buckets_ok_def port_is_valid_def bucket_from_port_def by force
qed

lemma all_idle:
  assumes "dom_ok D" "\<not> port_is_valid D i" "\<And>p. 0 \<le> p \<Longrightarrow> p < i \<Longrightarrow> idle X D p" "0 \<le> i" "port_is_valid D p"
  shows "idle X D p"
proof (cases "p < i")
  case True
  then show ?thesis using assms(3,5) by (simp add: port_is_valid_def)
next
  case False
  then show ?thesis using valid_below [OF assms(1,5,4)] assms(2) by simp
qed

lemma freed_idle: "freed s d p \<Longrightarrow> doms s d = Some D \<Longrightarrow> idle X D p"
  by (auto simp: freed_def idle_def)

text \<open>One step of either loop.\<close>

lemma close_step:
  assumes ok: "sys_ok s pend" and D: "doms s d = Some D" and v: "port_is_valid D i" and i: "0 \<le> i"
    and below: "\<And>p. 0 \<le> p \<Longrightarrow> p < i \<Longrightarrow> idle X D p"
    and x: "X \<or> (\<exists>c. evtchn_from_port D i = Some c \<and> \<not> consumer_is_xen c)"
  shows "\<exists>rc s' E. evtchn_close' x s d i = Some (rc, s') \<and> sys_ok s' pend \<and> dom (doms s') = dom (doms s) \<and>
    doms s' d = Some E \<and> is_dying E = is_dying D \<and> (\<forall>p. 0 \<le> p \<and> p < i + 1 \<longrightarrow> idle X E p)"
proof (cases "closable D i None")
  case False
  moreover obtain c where "evtchn_from_port D i = Some c" using v dom_ok_valid [OF sys_okD(1) [OF ok D]] by auto
  ultimately have "idle X D i" using x by (auto simp: closable_def idle_def)
  then have "idle X D p" if "0 \<le> p" "p < i + 1" for p using that below by (cases "p = i") auto
  then show ?thesis using close_cases [OF ok D, of i x] False ok D by auto
next
  case True
  with close_cases [OF ok D, of i x] obtain s' where s': "evtchn_close' x s d i = Some (0, s')"
      "sys_ok s' pend" "dom (doms s') = dom (doms s)" "freed s' d i" "keeps_idle s s'"
    by (auto simp: closes_def)
  from s'(5) D obtain E where E: "doms s' d = Some E" "is_dying E = is_dying D" "\<And>X p. idle X D p \<Longrightarrow> idle X E p"
    unfolding keeps_idle_def by blast
  have "idle X E p" if "0 \<le> p" "p < i + 1" for p
    using that below E freed_idle [OF s'(4) E(1)] by (cases "p = i") auto
  with s' E show ?thesis by blast
qed

lemma close_ports_from_spec:
  assumes "sys_ok s pend" "doms s d = Some D" "0 \<le> i" "\<And>p. 0 \<le> p \<Longrightarrow> p < i \<Longrightarrow> idle True D p"
  shows "\<exists>s' E. close_ports_from x s d i = Some s' \<and> sys_ok s' pend \<and> dom (doms s') = dom (doms s) \<and>
    doms s' d = Some E \<and> (\<forall>p. port_is_valid E p \<longrightarrow> idle True E p)"
  using assms
proof (induction x s d i arbitrary: D rule: close_ports_from.induct)
  case (1 x s d i)
  show ?case
  proof (cases "port_is_valid D i")
    case False
    then show ?thesis using 1(2-5) all_idle [OF sys_okD(1) [OF 1(2,3)] False 1(5,4)]
      by (simp add: close_ports_from.simps [of x s d i])
  next
    case True
    obtain rc s1 E where c: "evtchn_close' x s d i = Some (rc, s1)" "sys_ok s1 pend" "dom (doms s1) = dom (doms s)"
        "doms s1 d = Some E" "\<forall>p. 0 \<le> p \<and> p < i + 1 \<longrightarrow> idle True E p"
      using close_step [OF 1(2,3) True 1(4), of True x] 1(5) by auto
    have "\<exists>s' F. close_ports_from x s1 d (i + 1) = Some s' \<and> sys_ok s' pend \<and> dom (doms s') = dom (doms s1) \<and>
      doms s' d = Some F \<and> (\<forall>p. port_is_valid F p \<longrightarrow> idle True F p)"
      using 1(1) [OF 1(3) True c(1) refl c(2,4)] 1(4) c(5) by simp
    then show ?thesis using 1(3) True c(1,3) by (simp add: close_ports_from.simps [of x s d i])
  qed
qed

lemma evtchn_reset_cases:
  assumes ok: "sys_ok s pend" and cur: "doms s cur \<noteq> None"
  obtains (error) rc where "evtchn_reset x s cur dm = Some (rc, s)" "rc \<noteq> 0"
  | (reset) d s' E where "evtchn_reset x s cur dm = Some (0, s')" "safe s pend (Some s')"
      "rcu_lock_target_domain_by_id s cur dm = Some (Inr d)"
      "doms s' d = Some E" "\<forall>p. port_is_valid E p \<longrightarrow> idle True E p"
proof (cases "\<exists>d. rcu_lock_target_domain_by_id s cur dm = Some (Inr d) \<and> xsm_evtchn_reset x cur d = 0")
  case True
  then obtain d where d: "rcu_lock_target_domain_by_id s cur dm = Some (Inr d)" "xsm_evtchn_reset x cur d = 0" by blast
  then obtain D where "doms s d = Some D" using rcu_target_cases [OF cur, of dm] by fastforce
  from close_ports_from_spec [OF ok this, of 0 x] obtain s' E where
    "close_ports_from x s d 0 = Some s'" "sys_ok s' pend" "dom (doms s') = dom (doms s)" "doms s' d = Some E"
    "\<forall>p. port_is_valid E p \<longrightarrow> idle True E p" by auto
  with d show thesis by (intro reset [of s' d E]) (simp_all add: evtchn_reset_def safe_def)
next
  case False
  have "\<exists>rc. rcu_lock_target_domain_by_id s cur dm = Some (Inl rc) \<and> rc \<noteq> 0 \<or>
      (\<exists>d. rcu_lock_target_domain_by_id s cur dm = Some (Inr d))"
    using cur by (auto simp: rcu_lock_target_domain_by_id_def rcu_lock_by_id)
  then show thesis using False error by (auto simp: evtchn_reset_def Let_def)
qed

section \<open>Destroying and creating the channels of a domain\<close>

lemma destroy_ports_from_spec:
  assumes "sys_ok s pend" "doms s d = Some D" "0 \<le> i" "\<And>p. 0 \<le> p \<Longrightarrow> p < i \<Longrightarrow> idle False D p"
  shows "\<exists>s' E. destroy_ports_from x s d i = Some s' \<and> sys_ok s' pend \<and> dom (doms s') = dom (doms s) \<and>
    doms s' d = Some E \<and> is_dying E = is_dying D \<and> (\<forall>p. port_is_valid E p \<longrightarrow> idle False E p)"
  using assms
proof (induction x s d i arbitrary: D rule: destroy_ports_from.induct)
  case (1 x s d i)
  show ?case
  proof (cases "port_is_valid D i")
    case False
    then show ?thesis using 1(2-5) all_idle [OF sys_okD(1) [OF 1(2,3)] False 1(5,4)]
      by (simp add: destroy_ports_from.simps [of x s d i])
  next
    case True
    then obtain c where c: "evtchn_from_port D i = Some c" using dom_ok_valid [OF sys_okD(1) [OF 1(2,3)]] by auto
    let ?D1 = "set_chn D i (c\<lparr>xen_consumer := 0\<rparr>)"
    note t = detach_ok [OF 1(2,3) c]
    have u: "upd_chn D i (\<lambda>c. c\<lparr>xen_consumer := 0\<rparr>) = Some ?D1" by (rule upd_chn_Some [OF c])
    have d1: "doms (put_dom s d ?D1) d = Some ?D1" "port_is_valid ?D1 i" using True by simp_all
    have x1: "False \<or> (\<exists>c. evtchn_from_port ?D1 i = Some c \<and> \<not> consumer_is_xen c)" using c by simp
    obtain rc s1 E where e: "evtchn_close' x (put_dom s d ?D1) d i = Some (rc, s1)" "sys_ok s1 pend"
        "dom (doms s1) = dom (doms (put_dom s d ?D1))" "doms s1 d = Some E" "is_dying E = is_dying ?D1"
        "\<forall>p. 0 \<le> p \<and> p < i + 1 \<longrightarrow> idle False E p"
      using close_step [OF t(1) d1 1(4) t(3) [OF 1(5)] x1, of x] by blast
    have "\<exists>s' F. destroy_ports_from x s1 d (i + 1) = Some s' \<and> sys_ok s' pend \<and> dom (doms s') = dom (doms s1) \<and>
      doms s' d = Some F \<and> is_dying F = is_dying E \<and> (\<forall>p. port_is_valid F p \<longrightarrow> idle False F p)"
      using 1(1) [OF 1(3) True u e(1) refl e(2,4)] 1(4) e(6) by simp
    then show ?thesis using 1(3) True u e(1,3,5) t(2)
      by (simp add: destroy_ports_from.simps [of x s d i] del: doms_put_dom)
  qed
qed

definition no_buckets :: "xdomain \<Rightarrow> xdomain" where
  "no_buckets D = D\<lparr>d_evtchn := (\<lambda>i. if 0 \<le> i \<and> i < NR_EVTCHN_BUCKETS then None else d_evtchn D i)\<rparr>"

lemma no_buckets_ok:
  assumes ok: "dom_ok D" and dy: "is_dying D" and all: "\<And>p. port_is_valid D p \<Longrightarrow> idle False D p"
  shows "dom_ok (no_buckets D)" "same_io D (no_buckets D)" "evtchn_from_port (no_buckets D) = (\<lambda>_. None)"
    "evtchn_from_port D p = Some c \<Longrightarrow> ec_state c = ECS_FREE \<or> ec_state c = ECS_RESERVED"
proof -
  have "d_evtchn D i = None \<or> 0 \<le> i \<and> i < 32" for i
    using dom_okD(2) [OF ok] MAX_EVTCHNS_cases [of D] unfolding buckets_ok_def by force
  then have b: "d_evtchn (no_buckets D) = (\<lambda>_. None)" by (simp add: no_buckets_def fun_eq_iff) blast
  then show e: "evtchn_from_port (no_buckets D) = (\<lambda>_. None)" by (simp add: evtchn_from_port_def bucket_from_port_def fun_eq_iff)
  show q: "ec_state c = ECS_FREE \<or> ec_state c = ECS_RESERVED" if "evtchn_from_port D p = Some c" for p c
    using that all [of p] dom_ok_valid [OF ok, of p] by (auto simp: idle_def)
  have v: "view S (evtchn_from_port D) = (\<lambda>_. None)" "view S (\<lambda>_. None) = (\<lambda>_. None)"
    if "S \<noteq> ECS_FREE" "S \<noteq> ECS_RESERVED" for S
    using that q by (auto simp: view_def fun_eq_iff split: option.splits)
  have o: "is_dying (no_buckets D)" "vmap (no_buckets D) = vmap D" "vhead (no_buckets D) = vhead D"
      "pirq_to_evtchn (no_buckets D) = pirq_to_evtchn D" "refcnt (no_buckets D) = refcnt D"
      "vcpus_ok (no_buckets D) = vcpus_ok D" "poll_ok (no_buckets D) = poll_ok D"
    using dy by (simp_all add: no_buckets_def pirq_to_evtchn_def vcpus_ok_def poll_ok_def fun_eq_iff)
  show "same_io D (no_buckets D)" using v by (simp add: same_io_def e o)
  have "frame_ok (no_buckets D)" using dom_okD(3,4) [OF ok] o(1,6,7) b by (simp add: frame_ok_def buckets_ok_def)
  then show "dom_ok (no_buckets D)" using v dom_okD(6-8) [OF ok] by (simp add: dom_ok_def e o chans_ok_def)
qed

lemma evtchn_destroy_spec:
  assumes ok: "sys_ok s pend" and D: "doms s d = Some D" "is_dying D"
  shows "\<exists>s' E. evtchn_destroy x s d = Some s' \<and> sys_ok s' pend \<and> dom (doms s') = dom (doms s) \<and>
    doms s' d = Some E \<and> evtchn_from_port E = (\<lambda>_. None) \<and> (\<forall>e q c. gview s' e q = Some c \<longrightarrow> u_dom c \<noteq> d) \<and>
    (\<forall>q. 0 \<le> q \<and> q < NR_VIRQS \<longrightarrow> global_virq_handlers s' q \<noteq> Some d)"
proof -
  obtain s1 D1 where s1: "destroy_ports_from x s d 0 = Some s1" "sys_ok s1 pend" "dom (doms s1) = dom (doms s)"
      "doms s1 d = Some D1" "is_dying D1" "\<forall>p. port_is_valid D1 p \<longrightarrow> idle False D1 p"
    using destroy_ports_from_spec [OF ok D(1), of 0 x] D(2) by auto
  note n = no_buckets_ok [OF sys_okD(1) [OF s1(2,4)] s1(5) s1(6) [rule_format]]
  have s2: "sys_ok (put_dom s1 d (no_buckets D1)) pend" using safe_local [OF s1(2,4) n(1,2)] by (simp add: safe_def)
  have D2: "doms (put_dom s1 d (no_buckets D1)) d = Some (no_buckets D1)" by simp
  from clear_global_virq_handlers_safe [OF s2 D2] obtain s3 where s3:
    "clear_global_virq_handlers (put_dom s1 d (no_buckets D1)) d = Some s3" "sys_ok s3 pend"
    "doms s3 = (doms s1)(d := Some ((no_buckets D1)\<lparr>refcnt := refcnt (no_buckets D1) - hcount (put_dom s1 d (no_buckets D1)) d\<rparr>))"
    "\<forall>q. 0 \<le> q \<and> q < NR_VIRQS \<longrightarrow> global_virq_handlers s3 q \<noteq> Some d" by auto
  have "evtchn_destroy x s d = Some s3"
    using D s1(1,4) s3(1) by (simp add: evtchn_destroy_def no_buckets_def)
  moreover have "u_dom c \<noteq> d" if "gview s3 e q = Some c" for e q c
  proof
    assume "u_dom c = d"
    then show False using peers_okE [OF sys_okD(2) [OF s3(2)] that] n(3)
      by (auto simp: gview_def s3(3) view_def)
  qed
  moreover have "dom (doms s3) = dom (doms s)" using s1(3,4) s3(3) by auto
  ultimately show ?thesis using s3 n(3) by auto
qed

text \<open>The first call of \<^verbatim>\<open>get_free_port\<close> allocates the first bucket, whose port 0 is reserved.\<close>

lemma evtchn_init_spec:
  assumes D: "d_evtchn D = (\<lambda>_. None)" "\<not> is_dying D"
    and x: "xzalloc_ok x" "\<And>i. xsm_alloc_security_evtchn x i = 0"
    and V: "virq_to_evtchn V = (\<lambda>_. 0)" "pirq_evtchn_head V = 0"
    and rest: "d_vcpu D = (\<lambda>_. None)" "pirq_tree D = (\<lambda>_. None)" "0 < max_vcpus D"
  shows "\<exists>E. evtchn_init x True D = Some (0, E) \<and> dom_ok (put_vcpu E 0 V)"
proof -
  have nv: "\<not> port_is_valid D 0" by (simp add: port_is_valid_def bucket_from_port_def D)
  then have f: "free_port_from D 0 = 0" by (simp add: free_port_from.simps [of D 0])
  have m: "MAX_EVTCHNS D \<noteq> 0" using MAX_EVTCHNS_cases [of D] by auto
  have g: "get_free_port x D = (0, add_bucket D 0)"
    using D(2) nv f m x by (simp add: get_free_port_def add_bucket_def Bex_def list_ex_iff)
  have c0: "evtchn_from_port (add_bucket D 0) 0 = Some zero_evtchn" by (simp add: evtchn_from_port_add_bucket)
  let ?r = "zero_evtchn\<lparr>ec_state := ECS_RESERVED\<rparr>"
  let ?E = "(set_chn (add_bucket D 0) 0 ?r)\<lparr>poll_mask := (\<lambda>_. False)\<rparr>"
  have i: "evtchn_init x True D = Some (0, ?E)"
    using g by (simp add: evtchn_init_def upd_chn_Some [OF c0])
  define F where "F = put_vcpu ?E 0 V"
  have ch: "evtchn_from_port F p = (if p = 0 then Some ?r else if p div 128 = 0 then Some zero_evtchn else None)" for p
    using c0 D(1) by (simp add: F_def evtchn_from_port_add_bucket) (simp add: evtchn_from_port_def bucket_from_port_def D)
  have vw: "view S (evtchn_from_port F) = (\<lambda>_. None)" if "S \<noteq> ECS_FREE" "S \<noteq> ECS_RESERVED" for S
    using that by (auto simp: view_def ch zero_evtchn_def fun_eq_iff)
  have vh: "vhead F = (\<lambda>v. if v = 0 then Some 0 else None)" "vmap F = (\<lambda>v q. if v = 0 then Some 0 else None)"
    using V rest(1) by (auto simp: F_def vhead_def vmap_def fun_eq_iff)
  have "chans_ok (evtchn_from_port F) (vhead F)"
    by (auto simp: chans_ok_def ch vh chan_ok_def zero_evtchn_def split: if_splits)
  moreover have "frame_ok F"
    using D rest(1,3) MAX_EVTCHNS_cases [of D]
    by (auto simp: F_def frame_ok_def buckets_ok_def vcpus_ok_def poll_ok_def add_bucket_def MAX_EVTCHNS_def
        BITS_PER_EVTCHN_WORD_def split: if_splits)
  moreover have "lists_ok (\<lambda>_. None) (vhead F)" unfolding lists_ok_def
    using vh(1) by (auto intro!: exI [of _ "[]"] simp: plist_def links_def notify_of_def split: if_splits)
  moreover have "virqs_ok (\<lambda>_. None) (vmap F)" "pirqs_ok (\<lambda>_. None) (pirq_to_evtchn F)"
    using vh(2) rest(2) by (auto simp: F_def virqs_ok_def pirqs_ok_def pirq_to_evtchn_def add_bucket_def split: if_splits)
  ultimately have "dom_ok F" by (simp add: dom_ok_def vw)
  with i show ?thesis unfolding F_def by blast
qed

section \<open>Moving physical interrupts to another processor\<close>

lemma move_pirqs_from_list:
  assumes "doms s d = Some D" "links (view ECS_PIRQ (evtchn_from_port D)) (ys @ zs)" "0 \<notin> set zs"
  shows "move_pirqs_from s d cpu (hd0 zs) = Some (s\<lparr>effects := effects s @
    map (\<lambda>p. Pirq_set_affinity d (u_lo (the (evtchn_from_port D p))) cpu) zs\<rparr>)"
  using assms
proof (induction zs arbitrary: ys s)
  case Nil
  then show ?case by (simp add: move_pirqs_from.simps [of s d cpu 0])
next
  case (Cons z zs)
  obtain c where c: "evtchn_from_port D z = Some c" "u_next c = hd0 zs"
    using Cons.prems(2) unfolding links_def view_eq_Some by blast
  have "move_pirqs_from (emit s (Pirq_set_affinity d (u_lo c) cpu)) d cpu (hd0 zs) =
    Some ((emit s (Pirq_set_affinity d (u_lo c) cpu))\<lparr>effects := effects (emit s (Pirq_set_affinity d (u_lo c) cpu)) @
      map (\<lambda>p. Pirq_set_affinity d (u_lo (the (evtchn_from_port D p))) cpu) zs\<rparr>)"
    using Cons.prems by (intro Cons.IH [of _ "ys @ [z]"]) simp_all
  then show ?case using Cons.prems(1,3) c by (simp add: move_pirqs_from.simps [of s d cpu z] emit_def)
qed

lemma evtchn_move_pirqs_spec:
  assumes ok: "dom_ok D" and D: "doms s d = Some D" and V: "d_vcpu D v = Some V"
  shows "\<exists>ps. distinct ps \<and>
    set ps = {p. \<exists>c. evtchn_from_port D p = Some c \<and> ec_state c = ECS_PIRQ \<and> notify_vcpu_id c = v} \<and>
    evtchn_move_pirqs s d v = Some (s\<lparr>effects := effects s @
      map (\<lambda>p. Pirq_set_affinity d (u_lo (the (evtchn_from_port D p))) (processor V)) ps\<rparr>)"
proof -
  have "vhead D v = Some (pirq_evtchn_head V)" using V by (simp add: vhead_def)
  then obtain ps where ps: "pirq_evtchn_head V = hd0 ps" "plist (view ECS_PIRQ (evtchn_from_port D)) v ps"
    using dom_okD(8) [OF ok] unfolding lists_ok_def by blast
  have "set ps = {p. \<exists>c. evtchn_from_port D p = Some c \<and> ec_state c = ECS_PIRQ \<and> notify_vcpu_id c = v}"
    using ps(2) unfolding plist_def by (auto simp: notify_of_def)
  moreover have "links (view ECS_PIRQ (evtchn_from_port D)) ([] @ ps)" "0 \<notin> set ps" "distinct ps"
    using ps(2) unfolding plist_def append_Nil by blast+
  ultimately show ?thesis using move_pirqs_from_list [OF D, of "[]" ps "processor V"] D V ps(1)
    by (intro exI [of _ ps]) (simp add: evtchn_move_pirqs_def)
qed

end
