(* ===== verification/Evtchn_Step.thy ===== *)
theory Evtchn_Step
  imports Evtchn_Life
begin

text \<open>
  The hypercall as a whole, and the event-channel system as a step relation: a step is one critical
  section of an operation by any domain, an interrupt, a virtual CPU that blocks, polls or times out, or
  one pass of a close. Between the two passes of a close any other steps may happen.
\<close>

section \<open>The hypercall\<close>

lemma st3_copy_back [simp]: "map_option (\<lambda>(_, _, s). s) (map_option (copy_back to_ok) r) = st3 r"
  by (cases r) (auto simp: copy_back_def split: prod.splits option.splits)

lemma st3_rc [simp]: "map_option (\<lambda>(_, _, s). s) (map_option (\<lambda>(rc, s). (rc, No_out, s)) r) = st2 r"
  by (cases r) (auto split: prod.splits)

lemma safe_same2: "sys_ok s pend \<Longrightarrow> \<exists>rc s'. r = Some (rc, s') \<and> same_ec s s' \<Longrightarrow> safe s pend (st2 r)"
  using safe_same [of s pend "st2 r"] by auto

lemma evtchn_close_safe:
  assumes "sys_ok s pend" "doms s d = Some D"
  shows "safe s pend (st2 (evtchn_close' x s d p))"
  using close_cases [OF assms, of p x] safe_refl [OF assms(1)]
  by (auto simp: closes_def safe_def split: if_splits)

lemma evtchn_reset_safe:
  assumes "sys_ok s pend" "doms s d \<noteq> None"
  shows "safe s pend (st2 (evtchn_reset x s d dm))"
  by (cases rule: evtchn_reset_cases [OF assms, of x dm]) (use safe_refl [OF assms(1)] in simp_all)

lemma evtchn_status_total:
  assumes "sys_ok s pend" "doms s cur \<noteq> None"
  shows "\<exists>r. evtchn_status x s cur dm p = Some r"
proof (cases rule: rcu_target_cases [OF assms(2), of dm])
  case (2 d D)
  then show ?thesis using dom_ok_valid [OF sys_okD(1) [OF assms(1) 2(2)], of p] by (auto simp: evtchn_status_def Let_def)
qed (simp add: evtchn_status_def)

lemmas op_safe = evtchn_alloc_unbound_safe evtchn_bind_interdomain_safe evtchn_bind_virq_safe
  evtchn_bind_ipi_safe evtchn_bind_pirq_safe

lemma do_event_channel_op_safe:
  assumes ok: "sys_ok s pend" and d: "doms s d \<noteq> None"
  shows "safe s pend (st3 (do_event_channel_op x s d f t op))"
proof -
  obtain D where D: "doms s d = Some D" using d by auto
  show ?thesis
  proof (cases "op = EVTCHNOP_unknown \<or> \<not> f")
    case True
    then show ?thesis using safe_refl [OF ok] by (auto simp: do_event_channel_op_def)
  next
    case False
    then show ?thesis
    proof (cases op)
      case (EVTCHNOP_status dm p)
      obtain r where "evtchn_status x s d dm p = Some r" using evtchn_status_total [OF ok d] by blast
      then show ?thesis using EVTCHNOP_status False safe_refl [OF ok]
        by (cases r) (simp add: do_event_channel_op_def)
    qed (use False op_safe [OF ok d] evtchn_close_safe [OF ok D] evtchn_bind_vcpu_safe [OF ok D]
        evtchn_reset_safe [OF ok d] safe_same2 [OF ok evtchn_send_same [OF ok D]]
        safe_same2 [OF ok evtchn_unmask_same [OF ok D]] in \<open>simp_all add: do_event_channel_op_def evtchn_close_def\<close>)
  qed
qed

section \<open>Blocking and polling\<close>

lemma same_dom_put_poll:
  assumes V: "d_vcpu D v = Some V" "virq_to_evtchn W = virq_to_evtchn V" "pirq_evtchn_head W = pirq_evtchn_head V"
  shows "same_dom D (put_vcpu (D\<lparr>poll_mask := (poll_mask D)(v := b)\<rparr>) v W)"
proof (rule same_dom_trans)
  show "same_dom D (D\<lparr>poll_mask := (poll_mask D)(v := b)\<rparr>)"
    using V(1) by (intro same_dom_poll_mask) (auto simp: vhead_def split: if_splits)
  show "same_dom (D\<lparr>poll_mask := (poll_mask D)(v := b)\<rparr>) (put_vcpu (D\<lparr>poll_mask := (poll_mask D)(v := b)\<rparr>) v W)"
    using V by (intro same_dom_put_vcpu [where V = V]) simp_all
qed

lemma do_block_same:
  assumes D: "doms s d = Some D" "d_vcpu D v = Some V"
  shows "\<exists>s'. do_block x s d v = Some (0, s') \<and> same_ec s s'"
  using D by (auto simp: do_block_def Let_def intro!: same_ec_put_dom same_dom_put_vcpu)

lemma do_poll_same:
  assumes D: "doms s d = Some D" "d_vcpu D v = Some V"
  shows "\<exists>rc s'. do_poll x s d v h ps t = Some (rc, s') \<and> same_ec s s'"
proof (cases "length ps > 128 \<or> \<not> h")
  case True
  then show ?thesis by (auto simp: do_poll_def)
next
  case False
  let ?V1 = "(set_flag VPF_blocked True V)\<lparr>poll_evtchn := -1\<rparr>"
  have a: "same_ec s (put_dom s d (put_vcpu (D\<lparr>poll_mask := (poll_mask D)(v := b)\<rparr>) v W))"
    if "virq_to_evtchn W = virq_to_evtchn V" "pirq_evtchn_head W = pirq_evtchn_head V" for W b
    using same_dom_put_poll [OF D(2) that] D(1) by (simp add: same_ec_put_dom)
  show ?thesis using False D a
    by (auto simp: do_poll_def Let_def split: option.splits list.splits)
qed

lemma poll_timer_same:
  assumes D: "doms s d = Some D" "d_vcpu D v = Some V"
  shows "\<exists>s'. poll_timer_fn x s d v = Some s' \<and> same_ec s s'"
proof (cases "poll_mask D v")
  case True
  let ?D = "D\<lparr>poll_mask := (poll_mask D)(v := False)\<rparr>"
  have 1: "same_ec s (put_dom s d ?D)"
    by (rule same_ec_put_dom [OF D(1) same_dom_poll_mask]) (auto split: if_splits)
  obtain s' where "vcpu_unblock x (put_dom s d ?D) d v = Some s'" "same_ec (put_dom s d ?D) s'"
    using vcpu_unblock_same [of "put_dom s d ?D" d ?D v V x] D(2) by auto
  then show ?thesis using True D(1) same_ec_trans [OF 1] by (auto simp: poll_timer_fn_def)
qed (use D in \<open>simp add: poll_timer_fn_def\<close>)

section \<open>Steps\<close>

text \<open>A domain that starts to die takes no new ports; its channels are destroyed in a later step.\<close>

definition start_dying :: "xdomain \<Rightarrow> xdomain" where
  "start_dying D = D\<lparr>is_dying := True\<rparr>"

inductive ec_step :: "xen \<times> closer list \<Rightarrow> xen \<times> closer list \<Rightarrow> bool" where
  hypercall: "doms s d \<noteq> None \<Longrightarrow> do_event_channel_op x s d f t op = Some (rc, r, s') \<Longrightarrow>
    ec_step (s, pend) (s', pend)"
| close_wait: "doms s d \<noteq> None \<Longrightarrow> evtchn_close_pass x s d p None = Some (None, Some r, s') \<Longrightarrow>
    ec_step (s, pend) (s', (d, p, r) # pend)"
| close_again: "evtchn_close_with x s d p (Some r) = Some (rc, s') \<Longrightarrow>
    ec_step (s, ps @ (d, p, r) # qs) (s', ps @ qs)"
| vcpu_virq: "get_vcpu s d v \<noteq> None \<Longrightarrow> 0 \<le> q \<Longrightarrow> send_guest_vcpu_virq x s d v q = Some s' \<Longrightarrow>
    ec_step (s, pend) (s', pend)"
| global_virq: "0 \<le> q \<Longrightarrow> send_global_virq x s q = Some s' \<Longrightarrow> ec_step (s, pend) (s', pend)"
| physical: "doms s d = Some D \<Longrightarrow> pirq_tree D q = Some i \<Longrightarrow> send_guest_pirq x s d (Some i) = Some s' \<Longrightarrow>
    ec_step (s, pend) (s', pend)"
| handler: "doms s d \<noteq> None \<Longrightarrow> 0 \<le> q \<Longrightarrow> set_global_virq_handler s d q = Some (rc, s') \<Longrightarrow>
    ec_step (s, pend) (s', pend)"
| xen_alloc: "get_vcpu s d v \<noteq> None \<Longrightarrow> alloc_unbound_xen_event_channel x s d v e fn = Some (rc, s') \<Longrightarrow>
    ec_step (s, pend) (s', pend)"
| xen_free: "free_xen_event_channel x s d p = Some s' \<Longrightarrow> ec_step (s, pend) (s', pend)"
| xen_notify: "notify_via_xen_event_channel x s d p = Some s' \<Longrightarrow> ec_step (s, pend) (s', pend)"
| block: "get_vcpu s d v \<noteq> None \<Longrightarrow> do_block x s d v = Some (rc, s') \<Longrightarrow> ec_step (s, pend) (s', pend)"
| poll: "get_vcpu s d v \<noteq> None \<Longrightarrow> do_poll x s d v h ps n = Some (rc, s') \<Longrightarrow> ec_step (s, pend) (s', pend)"
| poll_timeout: "get_vcpu s d v \<noteq> None \<Longrightarrow> poll_timer_fn x s d v = Some s' \<Longrightarrow> ec_step (s, pend) (s', pend)"
| dying: "doms s d = Some D \<Longrightarrow> ec_step (s, pend) (put_dom s d (start_dying D), pend)"
| destroy: "doms s d = Some D \<Longrightarrow> is_dying D \<Longrightarrow> evtchn_destroy x s d = Some s' \<Longrightarrow> ec_step (s, pend) (s', pend)"

inductive_cases ec_stepE: "ec_step (s, pend) (s', pend')"

lemmas ec_step_cases [consumes 1, case_names hypercall close_wait close_again vcpu_virq global_virq physical handler
  xen_alloc xen_free xen_notify block poll poll_timeout dying destroy] = ec_stepE

lemma safe_Some: "safe s pend (Some s') \<Longrightarrow> sys_ok s' pend"
  by (simp add: safe_def)

lemma same_Some:
  assumes "sys_ok s pend" "\<exists>s'. r = Some s' \<and> same_ec s s'" "r = Some t"
  shows "sys_ok t pend"
  using assms sys_ok_same by auto

text \<open>The list of closers is a multiset of references.\<close>

lemma sys_ok_closers: "sys_ok s (ps @ t # qs) = sys_ok s (t # ps @ qs)"
proof -
  obtain d p r where t: "t = (d, p, r)" by (cases t)
  have "pcount (ps @ t # qs) = pcount (t # ps @ qs)" by (simp add: pcount_def t fun_eq_iff)
  moreover have "set (ps @ t # qs) = set (t # ps @ qs)" by auto
  ultimately show ?thesis unfolding sys_ok_def refs_ok_def by simp
qed

text \<open>The second pass returns whatever has happened since the first.\<close>

lemma close_with_safe:
  assumes ok: "sys_ok s ((d, p, r) # pend)"
  shows "\<exists>rc s'. evtchn_close_with x s d p (Some r) = Some (rc, s') \<and> sys_ok s' pend \<and>
    dom (doms s') = dom (doms s) \<and> (rc = 0 \<and> freed s' d p \<and> disconnected s d p s' \<or> rc = - EINVAL \<and> gview s' = gview s)"
proof -
  obtain D where D: "doms s d = Some D" using refs_okD(3) [OF sys_okD(4) [OF ok], of d p r] by auto
  show ?thesis
  proof (cases "closable D p (Some r)")
    case True
    then obtain d2 s1 where s1: "evtchn_close_pass x s d p (Some r) = Some (Some 0, d2, s1)"
        "closes s (toks d p d2 @ pend) d p s1"
      using close_pass_closable [of s d p "Some r" pend D x] ok D by auto
    from close_out_closes [OF s1(2)] obtain s2 where "evtchn_close_out s1 d2 = Some s2" "closes s pend d p s2" by blast
    then show ?thesis using s1(1) by (auto simp: evtchn_close_with_def closes_def)
  next
    case False
    obtain R where R: "doms s r = Some R" using refs_okD(4) [OF sys_okD(4) [OF ok], of d p r] by auto
    show ?thesis using close_pass_error [OF sys_okD(1) [OF ok D] D False, of x] put_domain_ok [OF ok R] R
      by (auto simp: evtchn_close_with_def evtchn_close_out_def)
  qed
qed

lemma close_wait_ok:
  assumes ok: "sys_ok s pend" and D: "doms s d = Some D"
    and w: "evtchn_close_pass x s d p None = Some (None, Some r, s')"
  shows "sys_ok s' ((d, p, r) # pend)"
proof (cases "closable D p None")
  case True
  then show ?thesis using close_pass_closable [of s d p None pend D x] ok D w by auto
next
  case False
  then show ?thesis using close_pass_error [OF sys_okD(1) [OF ok D] D False, of x] w by simp
qed

lemma xen_free_ok:
  assumes ok: "sys_ok s pend" and f: "free_xen_event_channel x s d p = Some s'"
  shows "sys_ok s' pend"
proof -
  obtain D where D: "doms s d = Some D" using f by (auto simp: free_xen_event_channel_def split: bind_splits)
  then have "is_dying D \<or> (\<exists>c. evtchn_from_port D p = Some c \<and> consumer_is_xen c)"
    using f by (auto simp: free_xen_event_channel_def split: bind_splits if_splits)
  then show ?thesis using free_xen_safe(1) [OF ok D, of p x] f by (simp add: safe_def)
qed

lemma xen_notify_ok:
  assumes ok: "sys_ok s pend" and f: "notify_via_xen_event_channel x s d p = Some s'"
  shows "sys_ok s' pend"
proof -
  obtain D where D: "doms s d = Some D" using f by (auto simp: notify_via_xen_event_channel_def split: bind_splits)
  then have "is_dying D \<or> (\<exists>c. evtchn_from_port D p = Some c \<and> consumer_is_xen c)"
    using f by (auto simp: notify_via_xen_event_channel_def split: bind_splits if_splits)
  then show ?thesis using same_Some [OF ok notify_via_xen_same [OF ok D, of p x] f] by simp
qed

lemma xen_alloc_ok:
  assumes ok: "sys_ok s pend" and v: "get_vcpu s d v \<noteq> None"
    and f: "alloc_unbound_xen_event_channel x s d v e fn = Some (rc, s')"
  shows "sys_ok s' pend"
proof -
  obtain D where D: "doms s d = Some D" "d_vcpu D v \<noteq> None" using v by (auto split: bind_splits)
  show ?thesis
  proof (cases "find_consumer (xen_consumers s) (case fn of None \<Rightarrow> Default_fn | Some f \<Rightarrow> f)")
    case None
    then have "fst (get_free_port x D) < 0 \<and> s' = put_dom s d (snd (get_free_port x D))"
      using f D(1) by (auto simp: alloc_unbound_xen_event_channel_def get_xen_consumer_def split: prod.splits if_splits)
    then show ?thesis using ok D(1) get_free_port_cases [OF sys_okD(1) [OF ok D(1)] surjective_pairing, of x] by force
  next
    case (Some r)
    then show ?thesis using alloc_unbound_xen_safe [OF ok D, of fn x e] f by (simp add: safe_def)
  qed
qed

lemma start_dying_simps [simp]:
  "d_evtchn (start_dying D) = d_evtchn D" "has_32bit_shinfo (start_dying D) = has_32bit_shinfo D"
  "d_vcpu (start_dying D) = d_vcpu D" "max_vcpus (start_dying D) = max_vcpus D"
  "poll_mask (start_dying D) = poll_mask D" "refcnt (start_dying D) = refcnt D" "is_dying (start_dying D)"
  "pirq_tree (start_dying D) = pirq_tree D" "vmap (start_dying D) = vmap D" "vhead (start_dying D) = vhead D"
  "evtchn_from_port (start_dying D) = evtchn_from_port D"
  by (simp_all add: start_dying_def)

lemma dying_ok:
  assumes ok: "sys_ok s pend" and D: "doms s d = Some D"
  shows "sys_ok (put_dom s d (start_dying D)) pend"
proof (rule sys_ok_local [OF ok D])
  note dok = sys_okD(1) [OF ok D]
  have m: "MAX_EVTCHNS (start_dying D) = MAX_EVTCHNS D" by (rule MAX_EVTCHNS_cong) simp
  have "buckets_ok (start_dying D)" using dom_okD(2) [OF dok] unfolding buckets_ok_def start_dying_simps m .
  moreover have "vcpus_ok (start_dying D)" "poll_ok (start_dying D)"
    using dom_okD(3,4) [OF dok] unfolding vcpus_ok_def poll_ok_def start_dying_simps by blast+
  ultimately have "frame_ok (start_dying D)" by (simp add: frame_ok_def)
  then show "dom_ok (start_dying D)"
    using dom_okD(5-8) [OF dok] pirq_to_evtchn_cong [of "start_dying D" D] by (simp add: dom_ok_def)
qed (simp_all add: same_io_def)

lemma virq_step_ok:
  assumes ok: "sys_ok s pend" and q: "0 \<le> q"
  shows "get_vcpu s d v \<noteq> None \<Longrightarrow> send_guest_vcpu_virq x s d v q = Some s' \<Longrightarrow> sys_ok s' pend"
    "send_global_virq x s q = Some s' \<Longrightarrow> sys_ok s' pend"
proof -
  assume v: "get_vcpu s d v \<noteq> None" and f: "send_guest_vcpu_virq x s d v q = Some s'"
  obtain D V where D: "doms s d = Some D" "d_vcpu D v = Some V" using v by (auto split: bind_splits)
  have "per_vcpu q" using f by (auto simp: send_guest_vcpu_virq_def virq_is_global_eq split: if_splits)
  from same_Some [OF ok send_guest_vcpu_virq_same [OF ok D q this] f] show "sys_ok s' pend" .
next
  assume f: "send_global_virq x s q = Some s'"
  then have "q < NR_VIRQS" "\<not> per_vcpu q" by (auto simp: send_global_virq_def virq_is_global_eq split: if_splits)
  from same_Some [OF ok send_global_virq_same [OF ok q this] f] show "sys_ok s' pend" .
qed

lemma physical_step_ok:
  assumes ok: "sys_ok s pend" and D: "doms s d = Some D" "pirq_tree D q = Some i" and f: "send_guest_pirq x s d (Some i) = Some s'"
  shows "sys_ok s' pend"
proof -
  have "pirq_evtchn i \<noteq> 0 \<or> is_hvm D" using f D(1) by (auto simp: send_guest_pirq_def split: if_splits)
  from same_Some [OF ok send_guest_pirq_same [OF ok D this] f] show ?thesis .
qed

lemma same_step_ok:
  assumes "sys_ok s pend" "get_vcpu s d v \<noteq> None"
    and "\<And>D V. doms s d = Some D \<Longrightarrow> d_vcpu D v = Some V \<Longrightarrow> \<exists>s'. r = Some s' \<and> same_ec s s'" "r = Some s'"
  shows "sys_ok s' pend"
proof -
  obtain D V where "doms s d = Some D" "d_vcpu D v = Some V" using assms(2) by (auto split: bind_splits)
  then show ?thesis using assms(3,4) same_Some [OF assms(1)] by blast
qed

lemma ec_step_ok:
  assumes "ec_step (s, pend) (s', pend')" "sys_ok s pend"
  shows "sys_ok s' pend'"
  using assms(1)
proof (cases rule: ec_step_cases)
  case (hypercall d x f t op rc r)
  then show ?thesis using do_event_channel_op_safe [OF assms(2), of d x f t op] by (simp add: safe_def)
next
  case (close_wait d x p r)
  then show ?thesis using close_wait_ok [OF assms(2)] by auto
next
  case (close_again x d p r rc ps qs)
  then show ?thesis using close_with_safe [of s d p r "ps @ qs" x] assms(2) sys_ok_closers by auto
next
  case (vcpu_virq d v q x)
  then show ?thesis using virq_step_ok(1) [OF assms(2), of q d v x s'] by simp
next
  case (global_virq q x)
  then show ?thesis using virq_step_ok(2) [OF assms(2), of q x s'] by simp
next
  case (physical d D q i x)
  then show ?thesis using physical_step_ok [OF assms(2)] by simp
next
  case (handler d q rc)
  then show ?thesis using set_global_virq_handler_safe [OF assms(2), of d _ q] by (auto simp: safe_def)
next
  case (xen_alloc d v x e fn rc)
  then show ?thesis using xen_alloc_ok [OF assms(2), of d v x e fn rc s'] by simp
next
  case (xen_free x d p)
  then show ?thesis using xen_free_ok [OF assms(2)] by simp
next
  case (xen_notify x d p)
  then show ?thesis using xen_notify_ok [OF assms(2)] by simp
next
  case (block d v x rc)
  then show ?thesis using same_step_ok [OF assms(2), of d v "st2 (do_block x s d v)" s'] do_block_same by fastforce
next
  case (poll d v x h ps n rc)
  then show ?thesis using same_step_ok [OF assms(2), of d v "st2 (do_poll x s d v h ps n)" s'] do_poll_same by fastforce
next
  case (poll_timeout d v x)
  then show ?thesis using same_step_ok [OF assms(2), of d v "poll_timer_fn x s d v" s'] poll_timer_same by fastforce
next
  case (dying d D)
  then show ?thesis using dying_ok [OF assms(2)] by simp
next
  case (destroy d D x)
  then show ?thesis using evtchn_destroy_spec [OF assms(2), of d D x] by auto
qed

section \<open>Reachable states\<close>

definition sys_inv :: "xen \<times> closer list \<Rightarrow> bool" where
  "sys_inv c = (case c of (s, pend) \<Rightarrow> sys_ok s pend)"

interpretation ec: transition_invariant ec_step sys_inv
  by unfold_locales (auto simp: sys_inv_def intro: ec_step_ok)

lemma ec_reach_ok: "ec_step\<^sup>*\<^sup>* (s, pend) (s', pend') \<Longrightarrow> sys_ok s pend \<Longrightarrow> sys_ok s' pend'"
  using ec.reach [of "(s, pend)" "(s', pend')"] by (simp add: sys_inv_def)

end
