(* ===== verification/Evtchn_Example.thy ===== *)
theory Evtchn_Example
  imports Evtchn_Step
begin

text \<open>
  A concrete state of two domains with one virtual CPU each. Port 3 of domain 1 and port 5 of domain 2
  are connected, and port 4 of domain 1 waits for domain 2.
\<close>

definition ex_caps :: iocaps where
  "ex_caps = (let r = \<lparr>range_list = [], rs_domain = None, rs_name = [], rs_flags = 0\<rparr> in
     \<lparr>iomem_caps = r, irq_caps = r\<rparr>)"

definition ex_vcpu :: vcpu where
  "ex_vcpu = \<lparr>processor = 0, pause_flags = (\<lambda>_. False), v_pause_count = 0, runstate_state = RUNSTATE_running,
     state_entry_time = 0, runstate_time = (\<lambda>_. 0), is_urgent = False, poll_evtchn = 0,
     virq_to_evtchn = (\<lambda>_. 0), pirq_evtchn_head = 0, evtchn_upcall_pending = False,
     evtchn_upcall_mask = False, evtchn_pending_sel = (\<lambda>_. False)\<rparr>"

definition ex_dom :: "(int \<Rightarrow> evtchn) \<Rightarrow> xdomain" where
  "ex_dom f = \<lparr>is_hvm = False, has_32bit_shinfo = False, is_dying = False, is_privileged = True, d_target = None,
     refcnt = 1, d_pause_count = 0, is_paused_by_controller = False, max_vcpus = 1,
     d_vcpu = (\<lambda>v. if v = 0 then Some ex_vcpu else None), poll_mask = (\<lambda>_. False),
     d_evtchn = (\<lambda>i. if i = 0 then Some f else None), evtchn_pending = (\<lambda>_. False),
     evtchn_mask = (\<lambda>_. False), nr_pirqs = 16, pirq_tree = (\<lambda>_. None), emuirq_pirq = (\<lambda>_. None),
     d_caps = ex_caps\<rparr>"

definition ex_chans1 :: "int \<Rightarrow> evtchn" where
  "ex_chans1 i =
     (if i = 0 then zero_evtchn\<lparr>ec_state := ECS_RESERVED\<rparr>
      else if i = 3 then zero_evtchn\<lparr>ec_state := ECS_INTERDOMAIN, u_dom := 2, u_lo := 5\<rparr>
      else if i = 4 then zero_evtchn\<lparr>ec_state := ECS_UNBOUND, u_lo := 2\<rparr>
      else zero_evtchn)"

definition ex_chans2 :: "int \<Rightarrow> evtchn" where
  "ex_chans2 i =
     (if i = 0 then zero_evtchn\<lparr>ec_state := ECS_RESERVED\<rparr>
      else if i = 5 then zero_evtchn\<lparr>ec_state := ECS_INTERDOMAIN, u_dom := 1, u_lo := 3\<rparr>
      else zero_evtchn)"

definition ex_xen :: xen where
  "ex_xen = \<lparr>doms = (\<lambda>d. if d = 1 then Some (ex_dom ex_chans1) else if d = 2 then Some (ex_dom ex_chans2) else None),
     xen_consumers = [None], global_virq_handlers = (\<lambda>_. None), urgent_count = (\<lambda>_. 0), effects = []\<rparr>"

definition ex_ext :: ext where
  "ex_ext = \<lparr>now = 0, nr_irqs = 16, xzalloc_ok = True, radix_insert_rc = 0, dom_before = (\<lambda>a b. a < b),
     xsm_alloc_security_evtchn = (\<lambda>_. 0), xsm_evtchn_unbound = (\<lambda>_ _ _. 0),
     xsm_evtchn_interdomain = (\<lambda>_ _ _ _. 0), xsm_evtchn_send = (\<lambda>_ _. 0), xsm_evtchn_status = (\<lambda>_ _. 0),
     xsm_evtchn_reset = (\<lambda>_ _. 0), pirq_guest_bind = (\<lambda>_ _ _. 0), hvm_local_events_need_delivery = (\<lambda>_ _. False)\<rparr>"

lemma ex_dom_from_port: "evtchn_from_port (ex_dom f) p = (if p div 128 = 0 then Some (f (p mod 128)) else None)"
  by (simp add: evtchn_from_port_def bucket_from_port_def ex_dom_def)

lemma ex_range: "(p :: int) div 128 = 0 \<longleftrightarrow> 0 \<le> p \<and> p < 128"
  by auto

lemma ex_dom_chn: "0 \<le> p \<Longrightarrow> p < 128 \<Longrightarrow> evtchn_from_port (ex_dom f) p = Some (f p)"
  by (simp add: ex_dom_from_port)

lemma ex_dom_Some: "evtchn_from_port (ex_dom f) p = Some c \<longleftrightarrow> 0 \<le> p \<and> p < 128 \<and> c = f p"
  by (auto simp: ex_dom_from_port ex_range)

lemma ex_dom_ok:
  assumes f: "\<And>i. 0 \<le> i \<Longrightarrow> i < 128 \<Longrightarrow> neutral (f i) \<and> (i = 0 \<longleftrightarrow> ec_state (f i) = ECS_RESERVED) \<and>
    xen_consumer (f i) = 0 \<and> notify_vcpu_id (f i) = 0"
  shows "dom_ok (ex_dom f)"
proof -
  have vh: "vhead (ex_dom f) = (\<lambda>v. if v = 0 then Some 0 else None)" "vmap (ex_dom f) = (\<lambda>v q. if v = 0 then Some 0 else None)"
    by (auto simp: vhead_def vmap_def ex_dom_def ex_vcpu_def fun_eq_iff)
  have vw: "view S (evtchn_from_port (ex_dom f)) = (\<lambda>_. None)" if "S = ECS_VIRQ \<or> S = ECS_PIRQ" for S
    using that f by (auto simp: view_def ex_dom_from_port ex_range neutral_def fun_eq_iff)
  have "chans_ok (evtchn_from_port (ex_dom f)) (vhead (ex_dom f))"
    using f by (auto simp: chans_ok_def ex_dom_Some chan_ok_def vh)
  moreover have "frame_ok (ex_dom f)"
    by (auto simp: frame_ok_def buckets_ok_def vcpus_ok_def poll_ok_def ex_dom_def MAX_EVTCHNS_def
        BITS_PER_EVTCHN_WORD_def)
  moreover have "lists_ok (\<lambda>_. None) (vhead (ex_dom f))"
    by (auto intro!: exI [of _ "[]"] simp: lists_ok_def vh plist_def links_def notify_of_def split: if_splits)
  moreover have "virqs_ok (\<lambda>_. None) (vmap (ex_dom f))" "pirqs_ok (\<lambda>_. None) (pirq_to_evtchn (ex_dom f))"
    unfolding virqs_ok_def pirqs_ok_def vh by (auto simp: pirq_to_evtchn_def ex_dom_def split: if_splits)
  ultimately show ?thesis by (simp add: dom_ok_def vw)
qed

lemma ex_chans_simps:
  "ec_state (ex_chans1 i) = (if i = 0 then ECS_RESERVED else if i = 3 then ECS_INTERDOMAIN else if i = 4 then ECS_UNBOUND else ECS_FREE)"
  "ec_state (ex_chans2 i) = (if i = 0 then ECS_RESERVED else if i = 5 then ECS_INTERDOMAIN else ECS_FREE)"
  "xen_consumer (ex_chans1 i) = 0" "xen_consumer (ex_chans2 i) = 0"
  "notify_vcpu_id (ex_chans1 i) = 0" "notify_vcpu_id (ex_chans2 i) = 0"
  "u_dom (ex_chans1 3) = 2" "u_lo (ex_chans1 3) = 5" "u_dom (ex_chans2 5) = 1" "u_lo (ex_chans2 5) = 3" "u_lo (ex_chans1 4) = 2"
  by (simp_all add: ex_chans1_def ex_chans2_def zero_evtchn_def)

lemma ex_doms:
  "doms ex_xen 1 = Some (ex_dom ex_chans1)" "doms ex_xen 2 = Some (ex_dom ex_chans2)"
  "doms ex_xen d = Some D \<longleftrightarrow> d = 1 \<and> D = ex_dom ex_chans1 \<or> d = 2 \<and> D = ex_dom ex_chans2"
  by (auto simp: ex_xen_def)

lemma ex_gview:
  "gview ex_xen d p = Some c \<longleftrightarrow> d = 1 \<and> p = 3 \<and> c = ex_chans1 3 \<or> d = 2 \<and> p = 5 \<and> c = ex_chans2 5"
proof (cases "doms ex_xen d")
  case None
  then show ?thesis by (auto simp: gview_def ex_doms)
next
  case (Some D)
  then show ?thesis
    by (auto simp: gview_Some [OF Some] ex_doms(3) ex_dom_Some ex_chans_simps split: if_splits)
qed

lemma ex_sys_ok: "sys_ok ex_xen []"
proof -
  have "dom_ok D" if "doms ex_xen d = Some D" for d D
    using that by (auto simp: ex_doms(3) intro!: ex_dom_ok)
      (auto simp: ex_chans_simps neutral_def split: if_splits)
  moreover have "peers_ok (gview ex_xen)"
    unfolding peers_ok_def ex_gview by (auto simp: ex_chans_simps)
  moreover have "consumers_ok ex_xen" unfolding consumers_ok_def
    by (auto simp: ex_doms(3) ex_dom_Some reg_ok_def ex_chans_simps)
  moreover have "refs_ok ex_xen []"
    by (auto simp: refs_ok_def hcount_def pcount_def ex_doms(3)) (auto simp: ex_xen_def ex_dom_def)
  ultimately show ?thesis by (simp add: sys_ok_def)
qed

lemmas ex_simps = ex_doms(1,2) ex_dom_chn ex_chans_simps

end
