(* ===== verification/Evtchn_Props.thy ===== *)
theory Evtchn_Props
  imports Evtchn_Example
begin

text \<open>
  What the event-channel code guarantees: the invariant in every reachable state and that no operation
  stops the hypervisor there, what closing, binding, sending and polling do, and the end of the loops.
\<close>

section \<open>Reachable states\<close>


lemma ex_valid: "0 \<le> p \<Longrightarrow> p < 128 \<Longrightarrow> port_is_valid (ex_dom f) p"
  by (simp add: port_is_valid_def MAX_EVTCHNS_def BITS_PER_EVTCHN_WORD_def bucket_from_port_def ex_dom_def)

lemma ex_dom_simps:
  "d_vcpu (ex_dom f) v = (if v = 0 then Some ex_vcpu else None)" "max_vcpus (ex_dom f) = 1"
  "virq_to_evtchn ex_vcpu q = 0" "is_dying (ex_dom f) = False" "is_hvm (ex_dom f) = False"
  "pirq_tree (ex_dom f) q = None" "refcnt (ex_dom f) = 1"
  by (simp_all add: ex_dom_def ex_vcpu_def)








section \<open>Closing and binding\<close>

text \<open>C4: Closing an open guest port succeeds, makes the port free and clears its pending bit. The other end of an
  interdomain channel becomes unbound and waits for this domain again.\<close>

theorem close_frees_port:
  assumes ok: "sys_ok s pend" and D: "doms s d = Some D" and c: "evtchn_from_port D p = Some c"
    and o: "ec_state c \<noteq> ECS_FREE" "ec_state c \<noteq> ECS_RESERVED" "xen_consumer c = 0"
  shows "\<exists>s' D' c'. evtchn_close x s d p = Some (0, s') \<and> doms s' d = Some D' \<and>
    evtchn_from_port D' p = Some c' \<and> ec_state c' = ECS_FREE \<and> \<not> evtchn_pending D' p \<and>
    (ec_state c = ECS_INTERDOMAIN \<longrightarrow> (\<exists>E b. doms s' (u_dom c) = Some E \<and>
       evtchn_from_port E (u_lo c) = Some b \<and> ec_state b = ECS_UNBOUND \<and> u_lo b = d))"
proof -
  have "closable D p None" using c o by (auto simp: closable_def)
  then obtain s' where s': "evtchn_close' x s d p = Some (0, s')" "freed s' d p" "disconnected s d p s'"
    using close_cases [OF ok D, of p x] by (auto simp: closes_def)
  have "gview s d p = Some c" if "ec_state c = ECS_INTERDOMAIN" using that c by (simp add: gview_Some [OF D])
  then have w: "ec_state c = ECS_INTERDOMAIN \<longrightarrow> waits_for s' (u_dom c) (u_lo c) d"
    using s'(3) by (auto simp: disconnected_def)
  from s'(2) obtain D' c' where "doms s' d = Some D'" "evtchn_from_port D' p = Some c'" "ec_state c' = ECS_FREE"
    "\<not> evtchn_pending D' p" unfolding freed_def by blast
  then show ?thesis using s'(1) w unfolding waits_for_def evtchn_close_def by blast
qed

theorem close_frees_port_witness:
  "\<exists>s' D' c'. evtchn_close ex_ext ex_xen 1 3 = Some (0, s') \<and> doms s' 1 = Some D' \<and>
    evtchn_from_port D' 3 = Some c' \<and> ec_state c' = ECS_FREE \<and>
    (\<exists>E b. doms s' 2 = Some E \<and> evtchn_from_port E 5 = Some b \<and> ec_state b = ECS_UNBOUND \<and> u_lo b = 1)"
  using close_frees_port [OF ex_sys_ok ex_doms(1), of 3 "ex_chans1 3" ex_ext] by (simp add: ex_simps) blast

text \<open>C5: A successful bind to another domain's unbound port connects exactly two ends that name each other and
  leaves every other connection alone; any error leaves all connections alone.\<close>

theorem bind_interdomain_connects:
  assumes ok: "sys_ok s pend" and L: "doms s ld = Some L" and rd: "rd = (if rdom = DOMID_SELF then ld else rdom)"
  shows "\<exists>rc out s'. evtchn_bind_interdomain x s ld rdom rp = Some (rc, out, s') \<and>
    (rc = 0 \<longrightarrow> (\<exists>lp. out = Some lp \<and> connected s ld lp rd rp s')) \<and>
    (rc \<noteq> 0 \<longrightarrow> out = None \<and> gview s' = gview s)"
  by (cases rule: bind_interdomain_cases [OF ok L rd, of x rp]) auto

lemma ex_free_port: "get_free_port ex_ext (ex_dom ex_chans2) = (1, ex_dom ex_chans2)"
proof -
  have "free_port_from (ex_dom ex_chans2) 0 = 1"
    by (simp add: free_port_from.simps [of _ 0] free_port_from.simps [of _ 1] ex_valid ex_simps)
  then show ?thesis by (simp add: get_free_port_def ex_valid) (simp add: ex_dom_def)
qed

text \<open>Domain 2 binds to the port that waits for it.\<close>

lemma ex_bind: "\<exists>s1. evtchn_bind_interdomain ex_ext ex_xen 2 1 4 = Some (0, Some 1, s1)"
proof -
  have eq: "evtchn_bind_interdomain ex_ext ex_xen 2 1 4 = bind_remote_port ex_ext ex_xen 2 1 1 4"
    by (simp add: evtchn_bind_interdomain_def rcu_lock_by_id ex_doms ex_free_port)
  show ?thesis
  proof (cases rule: bind_remote_cases [OF ex_sys_ok ex_doms(2), of 1 "ex_chans2 1" 1 _ ex_ext 4, OF _ _ ex_doms(1)])
    case (3 rc)
    then show ?thesis by (simp add: bind_remote_port_def ex_simps ex_valid ex_ext_def Let_def split: bind_splits)
  qed (simp_all add: ex_simps eq)
qed

theorem bind_interdomain_connects_witness:
  "\<exists>lp s'. evtchn_bind_interdomain ex_ext ex_xen 2 1 4 = Some (0, Some lp, s') \<and> connected ex_xen 2 lp 1 4 s'"
  using bind_interdomain_connects [OF ex_sys_ok ex_doms(2) refl, of ex_ext 1 4] ex_bind by auto

text \<open>C6: Binding to a remote port and closing the new local port again gives back the connections as they were
  before, with the remote port unbound and waiting for this domain.\<close>

theorem bind_close_roundtrip:
  assumes ok: "sys_ok s pend" and L: "doms s ld = Some L" and rd: "rd = (if rdom = DOMID_SELF then ld else rdom)"
    and b: "evtchn_bind_interdomain x s ld rdom rp = Some (0, Some lp, s1)"
  shows "\<exists>s2. evtchn_close x' s1 ld lp = Some (0, s2) \<and> gview s2 = gview s \<and> waits_for s2 rd rp ld"
proof -
  have s1: "sys_ok s1 pend" "connected s ld lp rd rp s1"
    using bind_interdomain_cases [OF ok L rd, of x rp] b by (auto simp: safe_def)
  then obtain c a where g: "gview s1 = gset (gset (gview s) ld lp (Some c)) rd rp (Some a)" "gview s ld lp = None"
      "gview s rd rp = None" "u_dom c = rd" "u_lo c = rp" "u_dom a = ld" "u_lo a = lp" "xen_consumer c = 0"
    unfolding connected_def by blast
  have "\<not> (rd = ld \<and> rp = lp)"
  proof
    assume e: "rd = ld \<and> rp = lp"
    then have "gview s1 ld lp = Some a" using g(1) by (simp add: gset_apply)
    then show False using peers_okE [OF sys_okD(2) [OF s1(1)]] g(6,7) by metis
  qed
  then have c: "gview s1 ld lp = Some c" using g(1) by (auto simp: gset_apply)
  then obtain L1 where L1: "doms s1 ld = Some L1" "evtchn_from_port L1 lp = Some c" "ec_state c = ECS_INTERDOMAIN"
    by (auto simp: gview_def split: option.splits)
  have "closable L1 lp None" using L1 g(8) by (auto simp: closable_def)
  then obtain s2 where s2: "evtchn_close' x' s1 ld lp = Some (0, s2)" "disconnected s1 ld lp s2"
    using close_cases [OF s1(1) L1(1), of lp x'] by (auto simp: closes_def)
  then have d: "gview s2 = gset (gset (gview s1) rd rp None) ld lp None" "waits_for s2 rd rp ld"
    using c g(4,5) by (auto simp: disconnected_def)
  have "gview s2 = gview s" unfolding d(1) g(1) using g(2,3) by (auto simp: gset_def fun_eq_iff)
  with s2(1) d(2) show ?thesis by (simp add: evtchn_close_def)
qed

theorem bind_close_roundtrip_witness:
  "\<exists>s1 s2. evtchn_bind_interdomain ex_ext ex_xen 2 1 4 = Some (0, Some 1, s1) \<and>
    evtchn_close ex_ext s1 2 1 = Some (0, s2) \<and> gview s2 = gview ex_xen \<and> waits_for s2 1 4 2"
proof -
  obtain s1 where b: "evtchn_bind_interdomain ex_ext ex_xen 2 1 4 = Some (0, Some 1, s1)" using ex_bind by blast
  from bind_close_roundtrip [OF ex_sys_ok ex_doms(2) refl b, of ex_ext] b show ?thesis by auto
qed

section \<open>Delivery\<close>

lemma set_pending_bit:
  assumes s: "doms s d = Some D" "d_vcpu D v = Some V" and po: "poll_ok D"
  shows "\<exists>s' E. evtchn_set_pending x s d v p = Some s' \<and> doms s' = (doms s)(d := Some E) \<and>
    evtchn_pending E = (evtchn_pending D)(p := True)"
proof (cases "evtchn_pending D p")
  case True
  then have "(evtchn_pending D)(p := True) = evtchn_pending D" by (simp add: fun_upd_idem)
  then show ?thesis using True s by (intro exI [of _ s] exI [of _ D]) (simp add: evtchn_set_pending_def fun_upd_idem)
next
  case False
  from evtchn_set_pending_spec [OF s False po, of x] obtain s' E where
    e: "evtchn_set_pending x s d v p = Some s'" "doms s' = (doms s)(d := Some E)"
      "pollers_woken (marked D v V p) p {0..<max_vcpus D} E" by blast
  then have "E = (marked D v V p)\<lparr>poll_mask := poll_mask E, d_vcpu := d_vcpu E\<rparr>" unfolding pollers_woken_def by blast
  from arg_cong [where f = evtchn_pending, OF this] have "evtchn_pending E = evtchn_pending (marked D v V p)" by simp
  then show ?thesis using e(1,2) by (auto simp: marked_def)
qed

text \<open>C7: Sending on a connected guest port returns success and sets, in the peer's domain, the pending bit of the
  peer's port and no other bit.\<close>

theorem send_reaches_peer:
  assumes ok: "sys_ok s pend" and L: "doms s d = Some L" and c: "evtchn_from_port L p = Some c"
    "ec_state c = ECS_INTERDOMAIN" "xen_consumer c = 0" "xsm_evtchn_send x d p = 0"
    and R: "doms s (u_dom c) = Some R" "evtchn_from_port R (u_lo c) = Some b" "xen_consumer b = 0"
  shows "\<exists>s' E. evtchn_send x s d p = Some (0, s') \<and> doms s' = (doms s)(u_dom c := Some E) \<and>
    evtchn_pending E = (evtchn_pending R)(u_lo c := True)"
proof -
  note rok = sys_okD(1) [OF ok R(1)]
  obtain V where V: "d_vcpu R (notify_vcpu_id b) = Some V" using dom_ok_notify [OF rok R(2)] by auto
  from set_pending_bit [OF R(1) V dom_okD(4) [OF rok], of x "u_lo c"]
  show ?thesis using L c R dom_ok_valid [OF sys_okD(1) [OF ok L], of p] by (auto simp: evtchn_send_def Let_def)
qed

theorem send_reaches_peer_witness:
  "\<exists>s' E. evtchn_send ex_ext ex_xen 1 3 = Some (0, s') \<and> doms s' 2 = Some E \<and> evtchn_pending E 5 \<and>
    \<not> evtchn_pending E 4"
proof -
  have "xsm_evtchn_send ex_ext 1 3 = 0" by (simp add: ex_ext_def)
  from send_reaches_peer [OF ex_sys_ok ex_doms(1), of 3 "ex_chans1 3" ex_ext "ex_dom ex_chans2" "ex_chans2 5", OF _ _ _ this]
  show ?thesis by (simp add: ex_simps) (auto simp: ex_dom_def)
qed



lemma poll_ports_None: "poll_ports D ports = None \<Longrightarrow> Some p \<in> set ports \<Longrightarrow> \<not> evtchn_pending D p"
  by (induction D ports rule: poll_ports.induct) (auto split: if_splits)

text \<open>A poll that blocks: the virtual CPU is in the poll mask and polls for everything or for its only port.\<close>

lemma do_poll_blocks:
  assumes D: "doms s d = Some D" "d_vcpu D v = Some V"
    and r: "do_poll x s d v True ports t = Some (0, s1)" "doms s1 d = Some D1" "poll_mask D1 v"
    and p: "Some p \<in> set ports"
  shows "\<exists>V1. D1 = put_vcpu (D\<lparr>poll_mask := (poll_mask D)(v := True)\<rparr>) v V1 \<and>
    (poll_evtchn V1 \<le> 0 \<or> poll_evtchn V1 = p) \<and> \<not> evtchn_pending D p"
proof -
  have len: "\<not> length ports > 128" using r(1) by (auto simp: do_poll_def)
  let ?V1 = "(set_flag VPF_blocked True V)\<lparr>poll_evtchn := -1\<rparr>"
  let ?D1 = "put_vcpu (D\<lparr>poll_mask := (poll_mask D)(v := True)\<rparr>) v ?V1"
  let ?V2 = "case ports of [Some q] \<Rightarrow> ?V1\<lparr>poll_evtchn := q\<rparr> | _ \<Rightarrow> ?V1"
  have n: "poll_ports ?D1 ports = None" and e: "\<not> local_events_need_delivery x ?D1 d v ?V1"
    using r len D by (auto simp: do_poll_def Let_def split: option.splits if_splits)
  have "\<not> evtchn_pending D p" using poll_ports_None [OF n p] by simp
  moreover have "poll_evtchn ?V2 \<le> 0 \<or> poll_evtchn ?V2 = p" using p by (auto split: list.splits option.splits)
  moreover have "D1 = put_vcpu (D\<lparr>poll_mask := (poll_mask D)(v := True)\<rparr>) v ?V2"
    using r(1,2) len D n e by (cases "t = 0") (auto simp: do_poll_def Let_def)
  ultimately show ?thesis by blast
qed

text \<open>C9: No wake-up is lost between polling and delivery: when a poll on a list of ports has blocked its virtual CPU, a
  notification on any of these ports unblocks it and takes it out of the poll mask.\<close>

theorem poll_then_notify_wakes:
  assumes D: "doms s d = Some D" "d_vcpu D v = Some V" "0 \<le> v" "v < max_vcpus D" "poll_ok D"
    and r: "do_poll x s d v True ports t = Some (0, s1)" "doms s1 d = Some D1" "poll_mask D1 v"
    and p: "Some p \<in> set ports" and w: "d_vcpu D1 w \<noteq> None"
  shows "\<exists>s2 E U. evtchn_set_pending x' s1 d w p = Some s2 \<and> doms s2 d = Some E \<and> \<not> poll_mask E v \<and>
    d_vcpu E v = Some U \<and> \<not> pause_flags U VPF_blocked"
proof -
  obtain V1 where D1: "D1 = put_vcpu (D\<lparr>poll_mask := (poll_mask D)(v := True)\<rparr>) v V1"
      "poll_evtchn V1 \<le> 0 \<or> poll_evtchn V1 = p" "\<not> evtchn_pending D p"
    using do_poll_blocks [OF D(1,2) r p] by blast
  have new: "\<not> evtchn_pending D1 p" and po: "poll_ok D1"
    using D1 D(5) by (auto simp: poll_ok_def)
  obtain W where W: "d_vcpu D1 w = Some W" using w by auto
  from evtchn_set_pending_spec [OF r(2) W new po, of x'] obtain s2 E where e:
    "evtchn_set_pending x' s1 d w p = Some s2" "doms s2 = (doms s1)(d := Some E)"
    "pollers_woken (marked D1 w W p) p {0..<max_vcpus D1} E" by blast
  have "interested (marked D1 w W p) p v"
    using D1(1,2) W by (auto simp: interested_def marked_def)
  moreover have "max_vcpus D1 = max_vcpus D" by (simp add: D1(1))
  ultimately obtain U where U: "\<not> poll_mask E v" "d_vcpu E v = Some U" "strip U = strip (unblocked (the (d_vcpu (marked D1 w W p) v)))"
    using pollers_wokenD [OF e(3), of v] D(3,4) by auto
  have "\<not> pause_flags U VPF_blocked" using strip_eqD(2) [OF U(3)] by (simp add: unblocked_def)
  then show ?thesis using e(1,2) U(1,2) by auto
qed

theorem poll_then_notify_wakes_witness:
  "\<exists>s1 s2 E U. do_poll ex_ext ex_xen 2 0 True [Some 5] 0 = Some (0, s1) \<and>
    evtchn_set_pending ex_ext s1 2 0 5 = Some s2 \<and> doms s2 2 = Some E \<and> d_vcpu E 0 = Some U \<and>
    \<not> pause_flags U VPF_blocked"
proof -
  let ?V = "(set_flag VPF_blocked True ex_vcpu)\<lparr>poll_evtchn := 5\<rparr>"
  let ?D1 = "put_vcpu ((ex_dom ex_chans2)\<lparr>poll_mask := (poll_mask (ex_dom ex_chans2))(0 := True)\<rparr>) 0 ?V"
  let ?s1 = "emit (put_dom ex_xen 2 ?D1) Raise_schedule_softirq"
  have v: "d_vcpu (ex_dom ex_chans2) 0 = Some ex_vcpu" "0 < max_vcpus (ex_dom ex_chans2)" "poll_ok (ex_dom ex_chans2)"
    by (simp_all add: ex_dom_def poll_ok_def)
  have r: "do_poll ex_ext ex_xen 2 0 True [Some 5] 0 = Some (0, ?s1)"
    using v(1) by (simp add: do_poll_def ex_doms Let_def local_events_need_delivery_def)
      (simp add: ex_dom_def ex_vcpu_def set_flag_def MAX_EVTCHNS_def BITS_PER_EVTCHN_WORD_def)
  from poll_then_notify_wakes [OF ex_doms(2) v(1) _ v(2,3) r, of ?D1 5 0 ex_ext] r show ?thesis by auto
qed

section \<open>Virtual interrupts and ports\<close>

lemma free_port_from_busy:
  "p \<le> q \<Longrightarrow> q < free_port_from D p \<Longrightarrow> evtchn_from_port D q = Some c \<Longrightarrow> ec_state c \<noteq> ECS_FREE"
proof (induction D p rule: free_port_from.induct)
  case (1 D p)
  let ?go = "port_is_valid D p \<and> (case evtchn_from_port D p of None \<Rightarrow> True | Some c \<Rightarrow> ec_state c \<noteq> ECS_FREE)"
  have go: ?go using 1(2,3) by (cases ?go) (auto simp: free_port_from.simps [of D p])
  then have "free_port_from D p = free_port_from D (p + 1)" by (simp add: free_port_from.simps [of D p])
  then show ?case using 1(1) [OF go] 1(2-4) go by (cases "q = p") auto
qed

text \<open>C10: The port a search returns is a free port below 4096 and the domain's limit, and every lower port is in use;
  the answer -ENOSPC means that every port the domain may have is in use.\<close>

theorem get_free_port_lowest:
  assumes ok: "dom_ok D" and g: "get_free_port x D = (p, E)"
  shows "(0 \<le> p \<longrightarrow> p < MAX_EVTCHNS D \<and> MAX_EVTCHNS D \<le> 4096 \<and>
      (\<exists>c. evtchn_from_port E p = Some c \<and> ec_state c = ECS_FREE) \<and>
      (\<forall>q c. 0 \<le> q \<and> q < p \<and> evtchn_from_port D q = Some c \<longrightarrow> ec_state c \<noteq> ECS_FREE)) \<and>
    (p = - ENOSPC \<longrightarrow>
      (\<forall>q. 0 \<le> q \<and> q < MAX_EVTCHNS D \<longrightarrow> (\<exists>c. evtchn_from_port D q = Some c \<and> ec_state c \<noteq> ECS_FREE)))"
proof (cases rule: get_free_port_cases [OF ok g])
  case 1
  have "\<exists>c. evtchn_from_port D q = Some c \<and> ec_state c \<noteq> ECS_FREE" if e: "p = - ENOSPC" "0 \<le> q" "q < MAX_EVTCHNS D" for q
  proof -
    have f: "free_port_from D 0 = MAX_EVTCHNS D"
      using g e(1) free_port_from_spec [of 0 D] by (auto simp: get_free_port_def Let_def split: if_splits)
    then have "port_is_valid D q" using free_port_from_spec [of 0 D] e(2,3) by simp
    then show ?thesis using dom_ok_valid [OF ok] free_port_from_busy [of 0 q D] e(2,3) f by fastforce
  qed
  with 1 show ?thesis by auto
next
  case (2 c)
  have "p = free_port_from D 0" using g 2(1) by (auto simp: get_free_port_def Let_def split: if_splits)
  moreover have "port_is_valid E p" using dom_ok_valid [OF 2(2)] 2(3) by simp
  moreover have "MAX_EVTCHNS E = MAX_EVTCHNS D" using grownD(2) [OF 2(5)] by (rule MAX_EVTCHNS_cong)
  ultimately show ?thesis using 2 MAX_EVTCHNS_cases [of D] free_port_from_busy [of 0 _ D] by (auto simp: port_is_valid_def)
qed

theorem get_free_port_lowest_witness:
  "ec_state (ex_chans2 1) = ECS_FREE \<and> MAX_EVTCHNS (ex_dom ex_chans2) \<le> 4096"
  using get_free_port_lowest [OF sys_okD(1) [OF ex_sys_ok ex_doms(2)] ex_free_port] by (simp add: ex_simps)

text \<open>C11: After a virtual interrupt has been bound for a virtual CPU, binding it again for the same virtual CPU is refused
  with -EEXIST and changes nothing.\<close>

theorem bind_virq_once:
  assumes ok: "sys_ok s pend" and cur: "doms s d \<noteq> None" and b: "evtchn_bind_virq x s d q v = Some (0, Some p, s1)"
  shows "evtchn_bind_virq x' s1 d q v = Some (- EEXIST, None, s1)"
proof -
  obtain D where D: "doms s d = Some D" using cur by auto
  obtain p' E where g: "get_free_port x D = (p', E)" by (cases "get_free_port x D") auto
  obtain V where q: "0 \<le> q" "q < NR_VIRQS" "per_vcpu q \<or> v = 0" "0 \<le> v" "v < max_vcpus D" "d_vcpu D v = Some V"
      "virq_to_evtchn V q = 0"
    using b D by (auto simp: evtchn_bind_virq_def virq_is_global_eq split: if_splits option.splits)
  have nq: "\<not> (\<not> per_vcpu q \<and> v \<noteq> 0)" using q(3) by blast
  show ?thesis
  proof (cases rule: get_free_port_cases [OF sys_okD(1) [OF ok D] g])
    case 1
    then show ?thesis using b D q g nq by (simp add: evtchn_bind_virq_def virq_is_global_eq)
  next
    case (2 c)
    then have "s1 = put_dom s d (put_vcpu (set_chn E p' (c\<lparr>ec_state := ECS_VIRQ, notify_vcpu_id := v, u_lo := q\<rparr>)) v
        (V\<lparr>virq_to_evtchn := (virq_to_evtchn V)(q := p')\<rparr>))"
      using b D q g by (auto simp: evtchn_bind_virq_def virq_is_global_eq upd_chn_Some [OF 2(3)])
    then show ?thesis using q nq 2(1) grownD(5) [OF 2(5)] by (simp add: evtchn_bind_virq_def virq_is_global_eq)
  qed
qed

theorem bind_virq_once_witness:
  "\<exists>s1. evtchn_bind_virq ex_ext ex_xen 2 2 0 = Some (0, Some 1, s1) \<and>
    evtchn_bind_virq ex_ext s1 2 2 0 = Some (- EEXIST, None, s1)"
proof -
  have "\<exists>s1. evtchn_bind_virq ex_ext ex_xen 2 2 0 = Some (0, Some 1, s1)"
    by (simp add: evtchn_bind_virq_def virq_is_global_eq per_vcpu_def ex_doms ex_free_port upd_chn_Some [OF ex_dom_chn]
        ex_dom_simps)
  then show ?thesis using bind_virq_once [OF ex_sys_ok, of 2 ex_ext 2 0 1] by (auto simp: ex_doms)
qed

section \<open>Many ports\<close>

text \<open>C12: A reset that the caller may perform closes every port: afterwards each port of the target domain is free, reserved
  or attached to Xen; otherwise an error is returned and nothing changes.\<close>

theorem reset_closes_all:
  assumes ok: "sys_ok s pend" and cur: "doms s cur \<noteq> None"
  shows "\<exists>rc s'. evtchn_reset x s cur dm = Some (rc, s') \<and> (rc \<noteq> 0 \<longrightarrow> s' = s) \<and>
    (rc = 0 \<longrightarrow> (\<exists>d E. rcu_lock_target_domain_by_id s cur dm = Some (Inr d) \<and> doms s' d = Some E \<and>
       (\<forall>p c. evtchn_from_port E p = Some c \<longrightarrow>
          ec_state c = ECS_FREE \<or> ec_state c = ECS_RESERVED \<or> xen_consumer c \<noteq> 0)))"
proof (cases rule: evtchn_reset_cases [OF ok cur, of x dm])
  case (2 d s' E)
  have "dom_ok E" using 2(2,4) sys_okD(1) by (auto simp: safe_def)
  then have "\<forall>p c. evtchn_from_port E p = Some c \<longrightarrow>
      ec_state c = ECS_FREE \<or> ec_state c = ECS_RESERVED \<or> xen_consumer c \<noteq> 0"
    using 2(5) dom_ok_valid [of E] by (force simp: idle_def)
  with 2 show ?thesis by (intro exI [of _ 0] exI [of _ s']) auto
qed auto

theorem reset_closes_all_witness:
  "\<exists>s' E. evtchn_reset ex_ext ex_xen 1 DOMID_SELF = Some (0, s') \<and> doms s' 1 = Some E \<and>
    (\<forall>p c. evtchn_from_port E p = Some c \<longrightarrow>
      ec_state c = ECS_FREE \<or> ec_state c = ECS_RESERVED \<or> xen_consumer c \<noteq> 0)"
proof -
  have "rcu_lock_target_domain_by_id ex_xen 1 DOMID_SELF = Some (Inr 1)" by (simp add: rcu_lock_target_domain_by_id_def)
  moreover from this have "evtchn_reset ex_ext ex_xen 1 DOMID_SELF = Some (rc, s') \<Longrightarrow> rc = 0" for rc s'
    by (auto simp: evtchn_reset_def ex_ext_def split: bind_splits)
  ultimately show ?thesis
    using reset_closes_all [OF ex_sys_ok, of 1 ex_ext DOMID_SELF] by (auto simp: ex_doms)
qed

text \<open>C13: Destroying the event channels of a dying domain returns, leaves it without channels, leaves no channel of any
  domain connected to it, and no global virtual interrupt routed to it.\<close>

theorem destroy_disconnects:
  assumes ok: "sys_ok s pend" and D: "doms s d = Some D" "is_dying D"
  shows "\<exists>s' E. evtchn_destroy x s d = Some s' \<and> sys_ok s' pend \<and>
    doms s' d = Some E \<and> evtchn_from_port E = (\<lambda>_. None) \<and>
    (\<forall>e q c. gview s' e q = Some c \<longrightarrow> u_dom c \<noteq> d) \<and>
    (\<forall>q. 0 \<le> q \<and> q < NR_VIRQS \<longrightarrow> global_virq_handlers s' q \<noteq> Some d)"
  using evtchn_destroy_spec [OF assms] by blast

theorem destroy_disconnects_witness:
  "\<exists>s' E. evtchn_destroy ex_ext (put_dom ex_xen 1 (start_dying (ex_dom ex_chans1))) 1 = Some s' \<and>
    doms s' 1 = Some E \<and> evtchn_from_port E = (\<lambda>_. None) \<and> (\<forall>e q c. gview s' e q = Some c \<longrightarrow> u_dom c \<noteq> 1)"
proof -
  let ?s = "put_dom ex_xen 1 (start_dying (ex_dom ex_chans1))"
  have ok: "sys_ok ?s []" by (rule dying_ok [OF ex_sys_ok ex_doms(1)])
  have D: "doms ?s 1 = Some (start_dying (ex_dom ex_chans1))" "is_dying (start_dying (ex_dom ex_chans1))" by simp_all
  from destroy_disconnects [OF ok D, of ex_ext] show ?thesis by blast
qed

text \<open>C14: A new domain whose event channels have been initialised, with its first virtual CPU added, is well formed:
  initialisation allocates the first bucket and reserves port 0.\<close>

theorem init_well_formed:
  assumes D: "d_evtchn D = (\<lambda>_. None)" "\<not> is_dying D"
    and x: "xzalloc_ok x" "\<And>i. xsm_alloc_security_evtchn x i = 0"
    and V: "virq_to_evtchn V = (\<lambda>_. 0)" "pirq_evtchn_head V = 0"
    and new: "d_vcpu D = (\<lambda>_. None)" "pirq_tree D = (\<lambda>_. None)" "0 < max_vcpus D"
  shows "\<exists>E. evtchn_init x True D = Some (0, E) \<and> dom_ok (put_vcpu E 0 V)"
  using assms by (rule evtchn_init_spec)

theorem init_well_formed_witness:
  "\<exists>E. evtchn_init ex_ext True ((ex_dom ex_chans1)\<lparr>d_evtchn := (\<lambda>_. None), d_vcpu := (\<lambda>_. None)\<rparr>) = Some (0, E) \<and>
    dom_ok (put_vcpu E 0 ex_vcpu)"
  by (rule init_well_formed) (simp_all add: ex_dom_def ex_ext_def ex_vcpu_def)

text \<open>C15: Moving a virtual CPU to another processor terminates, though it follows a linked list, and sets the affinity of
  every physical interrupt delivered to that virtual CPU exactly once.\<close>

theorem move_pirqs_visits_all:
  assumes ok: "dom_ok D" and D: "doms s d = Some D" and V: "d_vcpu D v = Some V"
  shows "\<exists>ps. distinct ps \<and>
    set ps = {p. \<exists>c. evtchn_from_port D p = Some c \<and> ec_state c = ECS_PIRQ \<and> notify_vcpu_id c = v} \<and>
    evtchn_move_pirqs s d v = Some (s\<lparr>effects := effects s @
      map (\<lambda>p. Pirq_set_affinity d (u_lo (the (evtchn_from_port D p))) (processor V)) ps\<rparr>)"
  using assms by (rule evtchn_move_pirqs_spec)

text \<open>A domain whose virtual CPU 0 gets physical interrupt 3 through port 1.\<close>

lemma ex_pirq_dom:
  obtains E V c where "dom_ok E" "d_vcpu E 0 = Some V" "evtchn_from_port E 1 = Some c" "ec_state c = ECS_PIRQ"
    "u_lo c = 3" "notify_vcpu_id c = 0"
proof -
  define i where "i = \<lparr>pirq_evtchn = 0, arch_irq = 3, hvm_emuirq = 0, dpci_flags = 0\<rparr>"
  define D where "D = (ex_dom ex_chans2)\<lparr>pirq_tree := (\<lambda>q. if q = 3 then Some i else None)\<rparr>"
  have "pirq_to_evtchn D = pirq_to_evtchn (ex_dom ex_chans2)"
    by (auto simp: D_def pirq_to_evtchn_def ex_dom_def i_def fun_eq_iff)
  then have ok: "dom_ok D"
    using dom_ok_pirq_tree [OF sys_okD(1) [OF ex_sys_ok ex_doms(2)]] by (simp add: D_def)
  have c: "evtchn_from_port D 1 = Some (ex_chans2 1)" "ec_state (ex_chans2 1) = ECS_FREE" by (simp_all add: D_def ex_simps)
  have t: "pirq_tree D 3 = Some i" "pirq_evtchn i = 0" by (simp_all add: D_def i_def)
  from pirq_bind_ok [OF ok c t] obtain E b where E: "dom_ok E" "rest D E" "evtchn_from_port E 1 = Some b"
    "ec_state b = ECS_PIRQ" "u_lo b = 3" by blast
  have v: "d_vcpu E v = None \<longleftrightarrow> v \<noteq> 0" for v using rest_None(2) [OF E(2), of v] by (simp add: D_def ex_dom_simps)
  have n: "notify_vcpu_id b = 0" using dom_ok_notify [OF E(1,3)] v [of "notify_vcpu_id b"] by simp
  obtain V where "d_vcpu E 0 = Some V" using v [of 0] by (cases "d_vcpu E 0") simp_all
  from that [OF E(1) this E(3-5) n] show thesis .
qed

theorem move_pirqs_visits_all_witness:
  "\<exists>E (V :: vcpu) ps. 1 \<in> set ps \<and> evtchn_move_pirqs (put_dom ex_xen 2 E) 2 0 = Some ((put_dom ex_xen 2 E)\<lparr>effects :=
    map (\<lambda>p. Pirq_set_affinity 2 (u_lo (the (evtchn_from_port E p))) (processor V)) ps\<rparr>)"
proof -
  from ex_pirq_dom obtain E V c where E: "dom_ok E" "d_vcpu E 0 = Some V" "evtchn_from_port E 1 = Some c"
    "ec_state c = ECS_PIRQ" "notify_vcpu_id c = 0" by metis
  have "doms (put_dom ex_xen 2 E) 2 = Some E" "effects (put_dom ex_xen 2 E) = []" by (simp_all add: ex_xen_def)
  from move_pirqs_visits_all [OF E(1) this(1) E(2)] this(2) obtain ps where
    "set ps = {p. \<exists>c. evtchn_from_port E p = Some c \<and> ec_state c = ECS_PIRQ \<and> notify_vcpu_id c = 0}"
    "evtchn_move_pirqs (put_dom ex_xen 2 E) 2 0 = Some ((put_dom ex_xen 2 E)\<lparr>effects :=
      map (\<lambda>p. Pirq_set_affinity 2 (u_lo (the (evtchn_from_port E p))) (processor V)) ps\<rparr>)" by auto
  moreover from this(1) have "1 \<in> set ps" using E(3-5) by simp
  ultimately show ?thesis by (intro exI [of _ E] exI [of _ V] exI [of _ ps] conjI)
qed

section \<open>References and physical interrupts\<close>

text \<open>Taking a domain out of the table of global virtual-interrupt handlers gives back exactly the references the table
  held, never the last one, and leaves no entry for it.\<close>

theorem clear_handlers_balances:
  assumes ok: "sys_ok s pend" and D: "doms s d = Some D"
  shows "\<exists>s'. clear_global_virq_handlers s d = Some s' \<and>
    doms s' = (doms s)(d := Some (D\<lparr>refcnt := refcnt D - hcount s d\<rparr>)) \<and> hcount s d < refcnt D \<and>
    (\<forall>q. 0 \<le> q \<and> q < NR_VIRQS \<longrightarrow> global_virq_handlers s' q \<noteq> Some d)"
  using clear_global_virq_handlers_safe [OF assms] refs_okD(1) [OF sys_okD(4) [OF ok] D] by auto

theorem clear_handlers_balances_witness:
  "\<exists>s1 D s'. set_global_virq_handler ex_xen 2 3 = Some (0, s1) \<and> doms s1 2 = Some D \<and> hcount s1 2 = 1 \<and> refcnt D = 2 \<and>
    clear_global_virq_handlers s1 2 = Some s' \<and> doms s' 2 = Some (D\<lparr>refcnt := 1\<rparr>)"
proof -
  let ?D = "(ex_dom ex_chans2)\<lparr>refcnt := 2\<rparr>"
  define s1 where "s1 = (put_dom ex_xen 2 ?D)\<lparr>global_virq_handlers := (\<lambda>_. None)(3 := Some 2)\<rparr>"
  have h: "global_virq_handlers ex_xen = (\<lambda>_. None)" by (simp add: ex_xen_def)
  have s: "set_global_virq_handler ex_xen 2 3 = Some (0, s1)"
    by (simp add: set_global_virq_handler_def virq_is_global_eq per_vcpu_def get_domain_def ex_doms h Let_def s1_def ex_dom_simps numeral_2_eq_2)
  have D: "doms s1 2 = Some ?D" by (simp add: s1_def)
  have "sys_ok s1 []" using set_global_virq_handler_safe [OF ex_sys_ok ex_doms(2), of 3] s by (simp add: safe_def)
  moreover have c: "hcount s1 2 = 1" by (simp add: hcount_def s1_def upto.simps)
  ultimately show ?thesis using clear_handlers_balances [OF _ D, of "[]"] s D by auto
qed



end
