(* ===== verification/Timer.thy ===== *)
theory Timer
  imports Xen_Prelude "HOL-Library.Word"
begin

text \<open>
  Timers, \<^verbatim>\<open>xen/common/timer.c\<close>. Every physical CPU has a binary heap of active timers, a sorted list of those
  that did not fit, and a list of inactive timers. A \<^verbatim>\<open>struct timer *\<close> is a number; the members of the
  union of \<^verbatim>\<open>struct timer\<close> that link the two lists are the lists themselves. Slot 0 of the heap array
  holds its size and limit as two 16-bit numbers.

  Every function that takes the lock of a CPU is one step here. The call-backs of timers and the
  hardware (\<^verbatim>\<open>NOW\<close>, \<^verbatim>\<open>reprogram_timer\<close>, the allocator) are arguments.
\<close>

section \<open>Data\<close>

type_synonym tid = nat

datatype timer_status =
    TIMER_STATUS_invalid
  | TIMER_STATUS_inactive
  | TIMER_STATUS_killed
  | TIMER_STATUS_in_heap
  | TIMER_STATUS_in_list

record timer =
  expires :: int
  heap_offset :: nat
  t_cpu :: nat
  t_status :: timer_status

record timers =
  h_size :: nat
  h_limit :: nat
  h_arr :: "nat \<Rightarrow> tid"
  t_list :: "tid list"
  t_running :: "tid option"
  t_inactive :: "tid list"

record tstate =
  tm :: "tid \<Rightarrow> timer"
  pcpu :: "nat \<Rightarrow> timers"
  timer_softirqs :: "nat list"
  timer_deadline :: "nat \<Rightarrow> int"
  timer_slop :: int

abbreviation TIMER_CPU_status_killed :: nat where "TIMER_CPU_status_killed \<equiv> 0xffff"
abbreviation STIME_MAX :: int where "STIME_MAX \<equiv> 0x7fffffffffffffff"

definition SET_HEAP_SIZE :: "timers \<Rightarrow> int \<Rightarrow> timers" where
  "SET_HEAP_SIZE h v = h\<lparr>h_size := nat (v mod 65536)\<rparr>"

definition SET_HEAP_LIMIT :: "timers \<Rightarrow> int \<Rightarrow> timers" where
  "SET_HEAP_LIMIT h v = h\<lparr>h_limit := nat (v mod 65536)\<rparr>"

text \<open>\<^verbatim>\<open>heap[pos] = t; t->heap_offset = pos\<close>\<close>

type_synonym hstate = "(nat \<Rightarrow> tid) \<times> (tid \<Rightarrow> timer)"

definition place :: "nat \<Rightarrow> tid \<Rightarrow> hstate \<Rightarrow> hstate" where
  "place pos t s = (case s of (a, m) \<Rightarrow> (a(pos := t), m(t := (m t)\<lparr>heap_offset := pos\<rparr>)))"

text \<open>\<^verbatim>\<open>write_atomic(&t->cpu, c)\<close>: the field has 16 bits.\<close>

definition write_cpu :: "nat \<Rightarrow> timer \<Rightarrow> timer" where
  "write_cpu c r = r\<lparr>t_cpu := c mod 65536\<rparr>"

section \<open>Heap operations\<close>

text \<open>The two loops return the position where the element \<open>t\<close> that moves has to go.\<close>

partial_function (option) down_loop :: "nat \<Rightarrow> tid \<Rightarrow> nat \<Rightarrow> hstate \<Rightarrow> (nat \<times> hstate) option" where
  "down_loop sz t pos s =
     (let nxt = 2 * pos in
      if nxt \<le> sz then
        let a = fst s; m = snd s;
            nxt' = (if nxt + 1 \<le> sz \<and> expires (m (a (nxt + 1))) < expires (m (a nxt)) then nxt + 1 else nxt)
        in if expires (m (a nxt')) > expires (m t) then Some (pos, s)
           else down_loop sz t nxt' (place pos (a nxt') s)
      else Some (pos, s))"

definition down_heap :: "nat \<Rightarrow> nat \<Rightarrow> hstate \<Rightarrow> hstate option" where
  "down_heap sz pos s = do {
     let t = fst s pos;
     (pos', s') \<leftarrow> down_loop sz t pos s;
     Some (place pos' t s')
   }"

function up_loop :: "tid \<Rightarrow> nat \<Rightarrow> hstate \<Rightarrow> nat \<times> hstate" where
  "up_loop t pos s =
     (if pos > 1 \<and> expires (snd s t) < expires (snd s (fst s (pos div 2)))
      then up_loop t (pos div 2) (place pos (fst s (pos div 2)) s)
      else (pos, s))"
  by pat_completeness auto
termination
  by (relation "measure (\<lambda>(t, pos, s). pos)") auto

declare up_loop.simps [simp del]

definition up_heap :: "nat \<Rightarrow> hstate \<Rightarrow> hstate" where
  "up_heap pos s = (let t = fst s pos; (pos', s') = up_loop t pos s in place pos' t s')"

definition remove_from_heap :: "timers \<Rightarrow> (tid \<Rightarrow> timer) \<Rightarrow> tid \<Rightarrow> (bool \<times> timers \<times> (tid \<Rightarrow> timer)) option" where
  "remove_from_heap h m t =
     (let sz = h_size h; pos = heap_offset (m t) in
      if pos = sz then Some (pos = 1, SET_HEAP_SIZE h (int sz - 1), m)
      else do {
        let s = place pos (h_arr h sz) (h_arr h, m);
        let h1 = SET_HEAP_SIZE h (int sz - 1);
        (a, m') \<leftarrow> (if pos > 1 \<and> expires (snd s (fst s pos)) < expires (snd s (fst s (pos div 2)))
                   then Some (up_heap pos s) else down_heap (h_size h1) pos s);
        Some (pos = 1, h1\<lparr>h_arr := a\<rparr>, m')
      })"

definition add_to_heap :: "timers \<Rightarrow> (tid \<Rightarrow> timer) \<Rightarrow> tid \<Rightarrow> bool \<times> timers \<times> (tid \<Rightarrow> timer)" where
  "add_to_heap h m t =
     (let sz = h_size h in
      if sz = h_limit h then (False, h, m)
      else
        let h1 = SET_HEAP_SIZE h (int sz + 1);
            (a, m') = up_heap (sz + 1) (place (sz + 1) t (h_arr h, m))
        in (heap_offset (m' t) = 1, h1\<lparr>h_arr := a\<rparr>, m'))"

section \<open>List operations\<close>

fun remove_from_list :: "tid list \<Rightarrow> tid \<Rightarrow> (bool \<times> tid list) option" where
  "remove_from_list [] t = None"
| "remove_from_list (c # cs) t =
     (if c = t then Some (True, cs)
      else do { (_, cs') \<leftarrow> remove_from_list cs t; Some (False, c # cs') })"

fun add_to_list :: "(tid \<Rightarrow> timer) \<Rightarrow> tid list \<Rightarrow> tid \<Rightarrow> bool \<times> tid list" where
  "add_to_list m [] t = (True, [t])"
| "add_to_list m (c # cs) t =
     (if expires (m c) \<le> expires (m t) then (False, c # snd (add_to_list m cs t)) else (True, t # c # cs))"

section \<open>Timer operations\<close>

definition upd_tm :: "tstate \<Rightarrow> tid \<Rightarrow> (timer \<Rightarrow> timer) \<Rightarrow> tstate" where
  "upd_tm s t f = s\<lparr>tm := (tm s)(t := f (tm s t))\<rparr>"

definition upd_cpu :: "tstate \<Rightarrow> nat \<Rightarrow> (timers \<Rightarrow> timers) \<Rightarrow> tstate" where
  "upd_cpu s c f = s\<lparr>pcpu := (pcpu s)(c := f (pcpu s c))\<rparr>"

definition raise_timer_softirq :: "nat \<Rightarrow> tstate \<Rightarrow> tstate" where
  "raise_timer_softirq c s = s\<lparr>timer_softirqs := timer_softirqs s @ [c]\<rparr>"

definition remove_entry :: "tstate \<Rightarrow> tid \<Rightarrow> (bool \<times> tstate) option" where
  "remove_entry s t =
     (let c = t_cpu (tm s t); ts = pcpu s c in do {
        (rc, s1) \<leftarrow> (case t_status (tm s t) of
            TIMER_STATUS_in_heap \<Rightarrow> do {
              (rc, h, m) \<leftarrow> remove_from_heap ts (tm s) t;
              Some (rc, (upd_cpu s c (\<lambda>_. h))\<lparr>tm := m\<rparr>)
            }
          | TIMER_STATUS_in_list \<Rightarrow> do {
              (rc, l) \<leftarrow> remove_from_list (t_list ts) t;
              Some (rc, upd_cpu s c (\<lambda>ts. ts\<lparr>t_list := l\<rparr>))
            }
          | _ \<Rightarrow> None);
        Some (rc, upd_tm s1 t (\<lambda>r. r\<lparr>t_status := TIMER_STATUS_invalid\<rparr>))
      })"

definition add_entry :: "tstate \<Rightarrow> tid \<Rightarrow> (bool \<times> tstate) option" where
  "add_entry s t = do {
     assert_that (t_status (tm s t) = TIMER_STATUS_invalid);
     let c = t_cpu (tm s t);
     let s1 = upd_tm s t (\<lambda>r. r\<lparr>heap_offset := 0, t_status := TIMER_STATUS_in_heap\<rparr>);
     let (rc, h, m) = add_to_heap (pcpu s1 c) (tm s1) t;
     let s2 = (upd_cpu s1 c (\<lambda>_. h))\<lparr>tm := m\<rparr>;
     if heap_offset (tm s2 t) \<noteq> 0 then Some (rc, s2)
     else do {
       let s3 = upd_tm s2 t (\<lambda>r. r\<lparr>t_status := TIMER_STATUS_in_list\<rparr>);
       let (rc, l) = add_to_list (tm s3) (t_list (pcpu s3 c)) t;
       Some (rc, upd_cpu s3 c (\<lambda>ts. ts\<lparr>t_list := l\<rparr>))
     }
   }"

definition list_del_inactive :: "tstate \<Rightarrow> nat \<Rightarrow> tid \<Rightarrow> tstate" where
  "list_del_inactive s c t = upd_cpu s c (\<lambda>ts. ts\<lparr>t_inactive := remove1 t (t_inactive ts)\<rparr>)"

definition list_add_inactive :: "tstate \<Rightarrow> nat \<Rightarrow> tid \<Rightarrow> tstate" where
  "list_add_inactive s c t = upd_cpu s c (\<lambda>ts. ts\<lparr>t_inactive := t # t_inactive ts\<rparr>)"

definition activate_timer :: "tstate \<Rightarrow> tid \<Rightarrow> tstate option" where
  "activate_timer s t = do {
     assert_that (t_status (tm s t) = TIMER_STATUS_inactive);
     let s1 = list_del_inactive (upd_tm s t (\<lambda>r. r\<lparr>t_status := TIMER_STATUS_invalid\<rparr>)) (t_cpu (tm s t)) t;
     (rc, s2) \<leftarrow> add_entry s1 t;
     Some (if rc then raise_timer_softirq (t_cpu (tm s2 t)) s2 else s2)
   }"

definition deactivate_timer :: "tstate \<Rightarrow> tid \<Rightarrow> tstate option" where
  "deactivate_timer s t = do {
     (rc, s1) \<leftarrow> remove_entry s t;
     let s2 = (if rc then raise_timer_softirq (t_cpu (tm s1 t)) s1 else s1);
     Some (list_add_inactive (upd_tm s2 t (\<lambda>r. r\<lparr>t_status := TIMER_STATUS_inactive\<rparr>)) (t_cpu (tm s2 t)) t)
   }"

text \<open>
  Whether the timer can be locked: not when it has been killed. The loop of \<^verbatim>\<open>timer_lock\<close> retries when the
  timer has moved before its lock was taken.
\<close>

definition timer_lock :: "tstate \<Rightarrow> tid \<Rightarrow> bool" where
  "timer_lock s t \<longleftrightarrow> t_cpu (tm s t) \<noteq> TIMER_CPU_status_killed"

definition active_timer :: "tstate \<Rightarrow> tid \<Rightarrow> bool option" where
  "active_timer s t = do {
     assert_that (t_status (tm s t) \<noteq> TIMER_STATUS_invalid);
     Some (t_status (tm s t) = TIMER_STATUS_in_heap \<or> t_status (tm s t) = TIMER_STATUS_in_list)
   }"

definition init_timer :: "tstate \<Rightarrow> tid \<Rightarrow> nat \<Rightarrow> tstate option" where
  "init_timer s t c = do {
     let s1 = upd_tm s t (\<lambda>_. \<lparr>expires = 0, heap_offset = 0, t_cpu = c mod 65536, t_status = TIMER_STATUS_inactive\<rparr>);
     bug_on (\<not> timer_lock s1 t);
     Some (list_add_inactive s1 c t)
   }"

definition deactivate_if_active :: "tstate \<Rightarrow> tid \<Rightarrow> tstate option" where
  "deactivate_if_active s t = do {
     act \<leftarrow> active_timer s t;
     if act then deactivate_timer s t else Some s
   }"

definition set_timer :: "tstate \<Rightarrow> tid \<Rightarrow> int \<Rightarrow> tstate option" where
  "set_timer s t e =
     (if \<not> timer_lock s t then Some s
      else do {
        s1 \<leftarrow> deactivate_if_active s t;
        activate_timer (upd_tm s1 t (\<lambda>r. r\<lparr>expires := e\<rparr>)) t
      })"

definition stop_timer :: "tstate \<Rightarrow> tid \<Rightarrow> tstate option" where
  "stop_timer s t = (if \<not> timer_lock s t then Some s else deactivate_if_active s t)"

definition migrate_timer :: "tstate \<Rightarrow> tid \<Rightarrow> nat \<Rightarrow> tstate option" where
  "migrate_timer s t new_cpu =
     (let old_cpu = t_cpu (tm s t) in
      if old_cpu = new_cpu \<or> old_cpu = TIMER_CPU_status_killed then Some s
      else do {
        act \<leftarrow> active_timer s t;
        s1 \<leftarrow> (if act then deactivate_timer s t else Some s);
        let s2 = list_add_inactive (upd_tm (list_del_inactive s1 old_cpu t) t (write_cpu new_cpu)) new_cpu t;
        if act then activate_timer s2 t else Some s2
      })"

text \<open>Killing a timer, up to the final wait for other CPUs that run its call-back.\<close>

definition kill_timer :: "nat \<Rightarrow> tstate \<Rightarrow> tid \<Rightarrow> tstate option" where
  "kill_timer this_cpu s t = do {
     bug_on (t_running (pcpu s this_cpu) = Some t);
     if \<not> timer_lock s t then Some s
     else do {
       s1 \<leftarrow> deactivate_if_active s t;
       Some (upd_tm (list_del_inactive s1 (t_cpu (tm s1 t)) t) t
               (\<lambda>r. r\<lparr>t_status := TIMER_STATUS_killed, t_cpu := TIMER_CPU_status_killed\<rparr>))
     }
   }"

section \<open>The softirq\<close>

definition execute_timer :: "(tid \<Rightarrow> tstate \<Rightarrow> tstate option) \<Rightarrow> nat \<Rightarrow> tstate \<Rightarrow> tid \<Rightarrow> tstate option" where
  "execute_timer cb c s t = do {
     let s1 = list_add_inactive (upd_tm s t (\<lambda>r. r\<lparr>t_status := TIMER_STATUS_inactive\<rparr>)) c t;
     s2 \<leftarrow> cb t (upd_cpu s1 c (\<lambda>ts. ts\<lparr>t_running := Some t\<rparr>));
     Some (upd_cpu s2 c (\<lambda>ts. ts\<lparr>t_running := None\<rparr>))
   }"

definition grow_heap :: "bool \<Rightarrow> timers \<Rightarrow> timers" where
  "grow_heap xmalloc_ok h =
     (if t_list h \<noteq> [] \<and> xmalloc_ok
      then SET_HEAP_LIMIT h ((int (h_limit h) + 1) * 16 - 1) else h)"

partial_function (option) run_heap ::
    "(tid \<Rightarrow> tstate \<Rightarrow> tstate option) \<Rightarrow> nat \<Rightarrow> int \<Rightarrow> tstate \<Rightarrow> tstate option" where
  "run_heap cb c now s =
     (let ts = pcpu s c; t = h_arr ts 1 in
      if h_size ts \<noteq> 0 \<and> expires (tm s t) < now
      then Option.bind (remove_from_heap ts (tm s) t)
        (\<lambda>(_, h, m). Option.bind (execute_timer cb c ((upd_cpu s c (\<lambda>_. h))\<lparr>tm := m\<rparr>) t)
          (\<lambda>s1. run_heap cb c now s1))
      else Some s)"

partial_function (option) run_list ::
    "(tid \<Rightarrow> tstate \<Rightarrow> tstate option) \<Rightarrow> nat \<Rightarrow> int \<Rightarrow> tstate \<Rightarrow> tstate option" where
  "run_list cb c now s =
     (case t_list (pcpu s c) of
        [] \<Rightarrow> Some s
      | t # ts \<Rightarrow>
          if expires (tm s t) < now
          then Option.bind (execute_timer cb c (upd_cpu s c (\<lambda>h. h\<lparr>t_list := ts\<rparr>)) t)
            (\<lambda>s1. run_list cb c now s1)
          else Some s)"

definition readd :: "tid \<Rightarrow> tstate \<Rightarrow> tstate option" where
  "readd t s = do {
     (_, s1) \<leftarrow> add_entry (upd_tm s t (\<lambda>r. r\<lparr>t_status := TIMER_STATUS_invalid\<rparr>)) t;
     Some s1
   }"

definition earliest :: "timers \<Rightarrow> (tid \<Rightarrow> timer) \<Rightarrow> int" where
  "earliest h m =
     (let d = (if h_size h \<noteq> 0 then expires (m (h_arr h 1)) else STIME_MAX) in
      case t_list h of [] \<Rightarrow> d | t # _ \<Rightarrow> if expires (m t) < d then expires (m t) else d)"

definition timer_softirq_action ::
    "(tid \<Rightarrow> tstate \<Rightarrow> tstate option) \<Rightarrow> bool \<Rightarrow> int \<Rightarrow> (int \<Rightarrow> bool) \<Rightarrow> nat \<Rightarrow> tstate \<Rightarrow> tstate option" where
  "timer_softirq_action cb xmalloc_ok now reprogram_timer c s = do {
     s1 \<leftarrow> run_heap cb c now (upd_cpu s c (grow_heap xmalloc_ok));
     s2 \<leftarrow> run_list cb c now s1;
     s3 \<leftarrow> foldM readd (t_list (pcpu s2 c)) (upd_cpu s2 c (\<lambda>h. h\<lparr>t_list := []\<rparr>));
     let d = earliest (pcpu s3 c) (tm s3);
     let dl = (if d = STIME_MAX then 0 else d + timer_slop s3);
     let s4 = s3\<lparr>timer_deadline := (timer_deadline s3)(c := dl)\<rparr>;
     Some (if reprogram_timer dl then s4 else raise_timer_softirq c s4)
   }"

section \<open>Aligned ticks and CPU hot-plug\<close>

text \<open>The subtraction and the remainder are of unsigned 64-bit numbers.\<close>

definition align_timer :: "64 word \<Rightarrow> 64 word \<Rightarrow> 64 word" where
  "align_timer firsttick period =
     (if period = 0 then firsttick else firsttick + (period - 1) - ((firsttick - 1) mod period))"

partial_function (option) migrate_active :: "nat \<Rightarrow> nat \<Rightarrow> bool \<Rightarrow> tstate \<Rightarrow> (bool \<times> tstate) option" where
  "migrate_active old_cpu new_cpu notify s =
     (let ts = pcpu s old_cpu in
      case (if h_size ts \<noteq> 0 then Some (h_arr ts 1) else (case t_list ts of [] \<Rightarrow> None | t # _ \<Rightarrow> Some t)) of
        None \<Rightarrow> Some (notify, s)
      | Some t \<Rightarrow>
          Option.bind (remove_entry s t) (\<lambda>(_, s1).
            Option.bind (add_entry (upd_tm s1 t (write_cpu new_cpu)) t) (\<lambda>(rc, s2).
              migrate_active old_cpu new_cpu (notify \<or> rc) s2)))"

definition migrate_inactive :: "nat \<Rightarrow> nat \<Rightarrow> tid \<Rightarrow> tstate \<Rightarrow> tstate" where
  "migrate_inactive old_cpu new_cpu t s =
     list_add_inactive (upd_tm (list_del_inactive s old_cpu t) t (write_cpu new_cpu)) new_cpu t"

definition migrate_timers_from_cpu :: "(nat \<Rightarrow> bool) \<Rightarrow> nat \<Rightarrow> nat \<Rightarrow> tstate \<Rightarrow> tstate option" where
  "migrate_timers_from_cpu online old_cpu new_cpu s = do {
     assert_that (\<not> online old_cpu \<and> online new_cpu);
     (notify, s1) \<leftarrow> migrate_active old_cpu new_cpu False s;
     let s2 = fold (migrate_inactive old_cpu new_cpu) (t_inactive (pcpu s1 old_cpu)) s1;
     Some (if notify then raise_timer_softirq new_cpu s2 else s2)
   }"

datatype cpu_action = CPU_UP_PREPARE | CPU_UP_CANCELED | CPU_DEAD | CPU_other

definition cpu_callback :: "(nat \<Rightarrow> bool) \<Rightarrow> nat \<Rightarrow> cpu_action \<Rightarrow> nat \<Rightarrow> tstate \<Rightarrow> tstate option" where
  "cpu_callback online new_cpu action c s =
     (case action of
        CPU_UP_PREPARE \<Rightarrow> Some (upd_cpu s c (\<lambda>ts. ts\<lparr>t_inactive := [], h_size := 0, h_limit := 0\<rparr>))
      | CPU_UP_CANCELED \<Rightarrow> migrate_timers_from_cpu online c new_cpu s
      | CPU_DEAD \<Rightarrow> migrate_timers_from_cpu online c new_cpu s
      | CPU_other \<Rightarrow> Some s)"

text \<open>The state \<^verbatim>\<open>timer_init\<close> leaves: no timer is initialised, every CPU has the empty dummy heap.\<close>

definition timer_init :: "int \<Rightarrow> tstate" where
  "timer_init slop =
     \<lparr>tm = (\<lambda>_. \<lparr>expires = 0, heap_offset = 0, t_cpu = 0, t_status = TIMER_STATUS_invalid\<rparr>),
      pcpu = (\<lambda>_. \<lparr>h_size = 0, h_limit = 0, h_arr = (\<lambda>_. 0), t_list = [], t_running = None, t_inactive = []\<rparr>),
      timer_softirqs = [], timer_deadline = (\<lambda>_. 0), timer_slop = slop\<rparr>"

end
