(* ===== verification/Timer_Heap.thy ===== *)
theory Timer_Heap
  imports Timer
begin

text \<open>
  Correctness of the timer heap of \<^verbatim>\<open>xen/common/timer.c\<close>: the array is a binary heap ordered by expiry and every
  element knows its own position. Both sift loops are described by the closed array, in which
  the moving element is put back where the loop stands; a round of a loop swaps two of its slots.
\<close>

section \<open>What the heap operations leave alone\<close>

definition tview :: "timer \<Rightarrow> int \<times> nat \<times> timer_status" where
  "tview r = (expires r, t_cpu r, t_status r)"

definition same_view :: "(tid \<Rightarrow> timer) \<Rightarrow> (tid \<Rightarrow> timer) \<Rightarrow> bool" where
  "same_view m m' \<longleftrightarrow> (\<forall>t. tview (m' t) = tview (m t))"

lemma same_view_refl [simp]: "same_view m m"
  by (simp add: same_view_def)

lemma same_view_trans: "same_view m m1 \<Longrightarrow> same_view m1 m2 \<Longrightarrow> same_view m m2"
  by (simp add: same_view_def)

lemma same_viewD:
  assumes "same_view m m'"
  shows "expires (m' t) = expires (m t)" "t_cpu (m' t) = t_cpu (m t)" "t_status (m' t) = t_status (m t)"
  using assms by (auto simp: same_view_def tview_def)

lemma same_view_place: "same_view m (snd (place p t (a, m)))"
  by (auto simp: same_view_def tview_def place_def)

section \<open>The heap invariant\<close>

definition heap_order :: "(tid \<Rightarrow> int) \<Rightarrow> (nat \<Rightarrow> tid) \<Rightarrow> nat \<Rightarrow> bool" where
  "heap_order ex b n \<longleftrightarrow> (\<forall>i. 2 \<le> i \<and> i \<le> n \<longrightarrow> ex (b (i div 2)) \<le> ex (b i))"

definition offsets_ok :: "hstate \<Rightarrow> nat \<Rightarrow> bool" where
  "offsets_ok s n \<longleftrightarrow> (\<forall>i. 1 \<le> i \<and> i \<le> n \<longrightarrow> heap_offset (snd s (fst s i)) = i)"

definition heap_elems :: "(nat \<Rightarrow> tid) \<Rightarrow> nat \<Rightarrow> tid set" where
  "heap_elems b n = b ` {1..n}"

text \<open>The order with one element out of place, towards the top and towards the bottom.\<close>

definition around :: "(tid \<Rightarrow> int) \<Rightarrow> (nat \<Rightarrow> tid) \<Rightarrow> nat \<Rightarrow> nat \<Rightarrow> bool" where
  "around ex b n p \<longleftrightarrow> (\<forall>i. 2 \<le> i \<and> i \<le> n \<and> 2 \<le> p \<and> i div 2 = p \<longrightarrow> ex (b (p div 2)) \<le> ex (b i))"

definition up_order :: "(tid \<Rightarrow> int) \<Rightarrow> (nat \<Rightarrow> tid) \<Rightarrow> nat \<Rightarrow> nat \<Rightarrow> bool" where
  "up_order ex b n p \<longleftrightarrow> around ex b n p \<and>
     (\<forall>i. 2 \<le> i \<and> i \<le> n \<and> i \<noteq> p \<longrightarrow> ex (b (i div 2)) \<le> ex (b i))"

definition down_order :: "(tid \<Rightarrow> int) \<Rightarrow> (nat \<Rightarrow> tid) \<Rightarrow> nat \<Rightarrow> nat \<Rightarrow> bool" where
  "down_order ex b n p \<longleftrightarrow> around ex b n p \<and>
     (\<forall>i. 2 \<le> i \<and> i \<le> n \<and> i div 2 \<noteq> p \<longrightarrow> ex (b (i div 2)) \<le> ex (b i))"

abbreviation swap :: "(nat \<Rightarrow> tid) \<Rightarrow> nat \<Rightarrow> nat \<Rightarrow> nat \<Rightarrow> tid" where
  "swap b p q \<equiv> b(p := b q, q := b p)"

lemma offsets_okD: "offsets_ok s n \<Longrightarrow> 1 \<le> i \<Longrightarrow> i \<le> n \<Longrightarrow> heap_offset (snd s (fst s i)) = i"
  by (simp add: offsets_ok_def)

lemma offsets_inj:
  assumes "offsets_ok s n" "1 \<le> i" "i \<le> n" "1 \<le> j" "j \<le> n" "fst s i = fst s j"
  shows "i = j"
  using assms offsets_okD by metis

lemma heap_elems_swap:
  assumes "p \<in> {1..n}" "q \<in> {1..n}"
  shows "heap_elems (swap b p q) n = heap_elems b n"
proof -
  have "swap b p q = b \<circ> (id(p := q, q := p))" by (auto simp: fun_eq_iff)
  moreover have "(id(p := q, q := p)) ` {1..n} = {1..n}" using assms
    by (auto simp: image_iff fun_upd_def)
  ultimately show ?thesis unfolding heap_elems_def by (metis image_comp)
qed

text \<open>The root is a minimum.\<close>

lemma heap_order_root:
  assumes "heap_order ex b n"
  shows "1 \<le> i \<Longrightarrow> i \<le> n \<Longrightarrow> ex (b 1) \<le> ex (b i)"
proof (induction i rule: less_induct)
  case (less i)
  show ?case
  proof (cases "i = 1")
    case False
    then have "ex (b 1) \<le> ex (b (i div 2))" using less by simp
    moreover have "ex (b (i div 2)) \<le> ex (b i)" using assms False less.prems by (simp add: heap_order_def)
    ultimately show ?thesis by simp
  qed simp
qed

section \<open>A round of each loop\<close>

lemma up_round:
  assumes "up_order ex b n p" and "p > 1" and "p \<le> n" and "ex (b p) < ex (b (p div 2))"
  shows "up_order ex (swap b p (p div 2)) n (p div 2)"
proof -
  define q where "q = p div 2"
  have q: "q \<noteq> p" "q div 2 \<noteq> p" "1 \<le> q" "q \<le> n" using assms(2,3) by (auto simp: q_def)
  have ord: "ex (b (i div 2)) \<le> ex (b i)" if "2 \<le> i" "i \<le> n" "i \<noteq> p" for i
    using assms(1) that by (simp add: up_order_def)
  have below: "ex (b q) \<le> ex (b i)" if "2 \<le> i" "i \<le> n" "i div 2 = p" for i
    using assms(1,2) that by (simp add: up_order_def around_def q_def)
  have lt: "ex (b p) < ex (b q)" using assms(4) by (simp add: q_def)
  have sib: "ex (b q) \<le> ex (b i)" if "2 \<le> i" "i \<le> n" "i \<noteq> p" "i div 2 = q" for i
    using ord [OF that(1-3)] that(4) by simp
  have qq: "ex (b (q div 2)) \<le> ex (b q)" if "2 \<le> q" using ord [of q] that q by simp
  show ?thesis unfolding up_order_def around_def q_def [symmetric]
  proof (intro conjI allI impI)
    fix i assume i: "2 \<le> i \<and> i \<le> n \<and> 2 \<le> q \<and> i div 2 = q"
    show "ex ((swap b p q) (q div 2)) \<le> ex ((swap b p q) i)"
      using i q qq sib [of i] by (cases "i = p") (auto simp: div_eq_0_iff)
  next
    fix i assume i: "2 \<le> i \<and> i \<le> n \<and> i \<noteq> q"
    consider "i = p" | "i \<noteq> p" "i div 2 = q" | "i \<noteq> p" "i div 2 = p" | "i \<noteq> p" "i div 2 \<noteq> p" "i div 2 \<noteq> q" by blast
    then show "ex ((swap b p q) (i div 2)) \<le> ex ((swap b p q) i)"
    proof cases
      case 1
      then show ?thesis using lt q by (simp add: q_def)
    next
      case 2
      then show ?thesis using sib [of i] i lt by simp
    next
      case 3
      then show ?thesis using below [of i] i q by simp
    next
      case 4
      then show ?thesis using ord [of i] i by simp
    qed
  qed
qed

lemma up_finish:
  assumes "up_order ex b n p" and "p = 1 \<or> ex (b (p div 2)) \<le> ex (b p)"
  shows "heap_order ex b n"
  using assms by (auto simp: up_order_def heap_order_def)

lemma down_round:
  assumes "down_order ex b n p" and p: "p \<ge> 1" and q: "q div 2 = p" "q \<le> n" "q \<ge> 2"
    and le: "ex (b q) \<le> ex (b p)"
    and least: "\<And>i. 2 \<le> i \<Longrightarrow> i \<le> n \<Longrightarrow> i div 2 = p \<Longrightarrow> ex (b q) \<le> ex (b i)"
  shows "down_order ex (swap b p q) n q"
proof -
  have pq: "p \<noteq> q" "q div 2 \<noteq> q" "p div 2 \<noteq> q" using p q by auto
  have ord: "ex (b (i div 2)) \<le> ex (b i)" if "2 \<le> i" "i \<le> n" "i div 2 \<noteq> p" for i
    using assms(1) that by (simp add: down_order_def)
  have above: "ex (b (p div 2)) \<le> ex (b q)" if "2 \<le> p"
    using assms(1) that q by (auto simp: down_order_def around_def)
  show ?thesis unfolding down_order_def around_def
  proof (intro conjI allI impI)
    fix i assume i: "2 \<le> i \<and> i \<le> n \<and> 2 \<le> q \<and> i div 2 = q"
    then show "ex ((swap b p q) (q div 2)) \<le> ex ((swap b p q) i)"
      using ord [of i] pq q by auto
  next
    fix i assume i: "2 \<le> i \<and> i \<le> n \<and> i div 2 \<noteq> q"
    consider "i = q" | "i = p" | "i \<noteq> q" "i \<noteq> p" "i div 2 = p" | "i \<noteq> q" "i \<noteq> p" "i div 2 \<noteq> p" by blast
    then show "ex ((swap b p q) (i div 2)) \<le> ex ((swap b p q) i)"
    proof cases
      case 1
      then show ?thesis using le pq q by simp
    next
      case 2
      then show ?thesis using above i pq by auto
    next
      case 3
      then show ?thesis using least [of i] i pq by simp
    next
      case 4
      then show ?thesis using ord [of i] i by simp
    qed
  qed
qed

lemma down_finish:
  assumes "down_order ex b n p"
    and "\<And>i. 2 \<le> i \<Longrightarrow> i \<le> n \<Longrightarrow> i div 2 = p \<Longrightarrow> ex (b p) \<le> ex (b i)"
  shows "heap_order ex b n"
  using assms unfolding down_order_def heap_order_def by metis

section \<open>The loops\<close>

text \<open>What a sift keeps: the view of every timer, the elements and their offsets.\<close>

definition sifts :: "nat \<Rightarrow> hstate \<Rightarrow> hstate \<Rightarrow> bool" where
  "sifts n s s' \<longleftrightarrow> same_view (snd s) (snd s') \<and> offsets_ok s' n \<and>
     heap_elems (fst s') n = heap_elems (fst s) n \<and> (\<forall>u. u \<notin> heap_elems (fst s) n \<longrightarrow> snd s' u = snd s u)"

lemma sifts_refl: "offsets_ok s n \<Longrightarrow> sifts n s s"
  by (simp add: sifts_def)

lemma sifts_trans: "sifts n s s1 \<Longrightarrow> sifts n s1 s2 \<Longrightarrow> sifts n s s2"
  unfolding sifts_def using same_view_trans by metis

text \<open>One round, seen on the closed array.\<close>

lemma place_round_fst:
  "p \<noteq> q \<Longrightarrow> fst (place q t (place p (fst s q) s)) = swap (fst (place p t s)) p q"
  by (auto simp: place_def split: prod.splits)

lemma place_round:
  assumes off: "offsets_ok (place p t s) n" and p: "1 \<le> p" "p \<le> n" and q: "1 \<le> q" "q \<le> n" and "p \<noteq> q"
  shows "sifts n (place p t s) (place q t (place p (fst s q) s))"
proof -
  obtain a m where s: "s = (a, m)" by (cases s)
  let ?s = "place p t s" and ?s' = "place q t (place p (fst s q) s)"
  have fst_s: "fst ?s = a(p := t)" and snd_s: "snd ?s = m(t := (m t)\<lparr>heap_offset := p\<rparr>)"
    by (simp_all add: s place_def)
  have inj: "i = j" if "(a(p := t)) i = (a(p := t)) j" "1 \<le> i" "i \<le> n" "1 \<le> j" "j \<le> n" for i j
    using offsets_inj [OF off] that by (simp add: fst_s)
  have ne: "a q \<noteq> t" using inj [of q p] p q \<open>p \<noteq> q\<close> by auto
  have f: "fst ?s' = swap (fst ?s) p q" by (rule place_round_fst) fact
  have m': "snd ?s' = m(a q := (m (a q))\<lparr>heap_offset := p\<rparr>, t := (m t)\<lparr>heap_offset := q\<rparr>)"
    using ne by (auto simp: s place_def)
  define a1 m1 where "a1 = fst ?s'" and "m1 = snd ?s'"
  have a1: "a1 p = a q" "a1 q = t" "\<And>i. i \<noteq> p \<Longrightarrow> i \<noteq> q \<Longrightarrow> a1 i = a i"
    using \<open>p \<noteq> q\<close> unfolding a1_def f fst_s by auto
  have m1: "heap_offset (m1 (a q)) = p" "heap_offset (m1 t) = q" "\<And>u. u \<noteq> t \<Longrightarrow> u \<noteq> a q \<Longrightarrow> m1 u = m u"
    using ne unfolding m1_def m' by auto
  have "offsets_ok (a1, m1) n" unfolding offsets_ok_def fst_conv snd_conv
  proof (intro allI impI)
    fix i assume i: "1 \<le> i \<and> i \<le> n"
    show "heap_offset (m1 (a1 i)) = i"
    proof (cases "i = p \<or> i = q")
      case True
      then show ?thesis using a1(1,2) m1(1,2) by auto
    next
      case False
      have "(a(p := t)) i \<noteq> (a(p := t)) p" "(a(p := t)) i \<noteq> (a(p := t)) q"
        using inj [of i p] inj [of i q] i p q False by blast+
      then have ne': "a i \<noteq> t" "a i \<noteq> a q" using False \<open>p \<noteq> q\<close> by auto
      have "heap_offset (m (a i)) = i"
        using offsets_okD [OF off] i False ne'(1) unfolding fst_s snd_s by (metis fun_upd_other)
      then show ?thesis using False a1(3) m1(3) [OF ne'] by simp
    qed
  qed
  then have "offsets_ok ?s' n" by (simp add: a1_def m1_def)
  moreover have "heap_elems (fst ?s') n = heap_elems (fst ?s) n"
    unfolding f using p q by (intro heap_elems_swap) auto
  moreover have "same_view (snd ?s) (snd ?s')"
    by (auto simp: same_view_def tview_def m' snd_s)
  moreover have "snd ?s' u = snd ?s u" if "u \<notin> heap_elems (fst ?s) n" for u
  proof -
    have "t \<in> heap_elems (fst ?s) n" "a q \<in> heap_elems (fst ?s) n"
      using p q \<open>p \<noteq> q\<close> unfolding heap_elems_def fst_s by (auto simp: image_iff)
    then show ?thesis using that by (auto simp: m' snd_s)
  qed
  ultimately show ?thesis unfolding sifts_def by blast
qed

lemma expires_place [simp]: "expires (snd (place p t s) u) = expires (snd s u)"
  by (cases s) (simp add: place_def)

lemma fst_place [simp]: "fst (place p t s) = (fst s)(p := t)"
  by (cases s) (simp add: place_def)

lemma up_loop_ok:
  assumes "offsets_ok (place p t s) n" "1 \<le> p" "p \<le> n" "up_order (\<lambda>u. expires (snd s u)) ((fst s)(p := t)) n p"
    and "up_loop t p s = (p', s')"
  shows "sifts n (place p t s) (place p' t s') \<and> heap_order (\<lambda>u. expires (snd s u)) ((fst s')(p' := t)) n"
  using assms
proof (induction t p s rule: up_loop.induct)
  case (1 t p s)
  define b where "b = (fst s)(p := t)"
  show ?case
  proof (cases "p > 1 \<and> expires (snd s t) < expires (snd s (fst s (p div 2)))")
    case True
    define q s1 where "q = p div 2" and "s1 = place p (fst s q) s"
    have q: "1 \<le> q" "q \<le> n" "p \<noteq> q" using True "1.prems"(2,3) by (auto simp: q_def)
    have b1: "(fst s1)(q := t) = swap b p q" using q by (auto simp: s1_def b_def)
    have r: "sifts n (place p t s) (place q t s1)"
      unfolding s1_def using "1.prems"(1-3) q by (intro place_round)
    have loop: "up_loop t q s1 = (p', s')" using "1.prems"(5) True by (simp add: up_loop.simps [of t p s] q_def s1_def)
    have "up_order (\<lambda>u. expires (snd s u)) (swap b p q) n q"
      unfolding q_def
    proof (rule up_round)
      show "up_order (\<lambda>u. expires (snd s u)) b n p" unfolding b_def by (fact "1.prems"(4))
      show "expires (snd s (b p)) < expires (snd s (b (p div 2)))" using True q by (simp add: b_def q_def)
    qed (use True "1.prems"(3) in simp_all)
    then have "up_order (\<lambda>u. expires (snd s1 u)) ((fst s1)(q := t)) n q" by (simp only: b1) (simp add: s1_def)
    then have "sifts n (place q t s1) (place p' t s') \<and> heap_order (\<lambda>u. expires (snd s1 u)) ((fst s')(p' := t)) n"
      using "1.IH" [OF True] loop q r unfolding sifts_def q_def s1_def by blast
    moreover have "(\<lambda>u. expires (snd s1 u)) = (\<lambda>u. expires (snd s u))" by (simp add: s1_def)
    ultimately show ?thesis using r sifts_trans by metis
  next
    case False
    then have "p' = p" "s' = s" using "1.prems"(5) by (auto simp: up_loop.simps [of t p s])
    moreover have "heap_order (\<lambda>u. expires (snd s u)) b n"
    proof (rule up_finish)
      show "up_order (\<lambda>u. expires (snd s u)) b n p" unfolding b_def by (fact "1.prems"(4))
      show "p = 1 \<or> expires (snd s (b (p div 2))) \<le> expires (snd s (b p))"
        using False "1.prems"(2) by (auto simp: b_def)
    qed
    ultimately show ?thesis using sifts_refl [OF "1.prems"(1)] unfolding b_def by blast
  qed
qed

lemma down_loop_ok:
  assumes "offsets_ok (place p t s) n" "1 \<le> p" "p \<le> n" "down_order (\<lambda>u. expires (snd s u)) ((fst s)(p := t)) n p"
  shows "\<exists>p' s'. down_loop n t p s = Some (p', s') \<and>
    sifts n (place p t s) (place p' t s') \<and> heap_order (\<lambda>u. expires (snd s u)) ((fst s')(p' := t)) n"
  using assms
proof (induction "n - p" arbitrary: p s rule: less_induct)
  case less
  define b ex where "b = (fst s)(p := t)" and "ex = (\<lambda>u. expires (snd s u))"
  define q where "q = (if 2 * p + 1 \<le> n \<and> ex (fst s (2 * p + 1)) < ex (fst s (2 * p)) then 2 * p + 1 else 2 * p)"
  have unf: "down_loop n t p s = (if 2 * p \<le> n then if ex (fst s q) > ex t then Some (p, s)
      else down_loop n t q (place p (fst s q) s) else Some (p, s))"
    by (subst down_loop.simps) (simp add: Let_def ex_def q_def)
  have kids: "i = 2 * p \<or> i = 2 * p + 1" if "i div 2 = p" for i using that by auto
  have q: "q div 2 = p" "p \<noteq> q" "2 \<le> q" using less.prems(2) by (auto simp: q_def)
  have least: "ex (b q) \<le> ex (b i)" if "2 \<le> i" "i \<le> n" "i div 2 = p" for i
    using kids [OF that(3)] that(2) less.prems(2) by (auto simp: q_def b_def)
  have stop: ?case if "down_loop n t p s = Some (p, s)" "\<And>i. 2 \<le> i \<Longrightarrow> i \<le> n \<Longrightarrow> i div 2 = p \<Longrightarrow> ex (b p) \<le> ex (b i)"
  proof -
    have "heap_order ex b n" using less.prems(4) that(2) unfolding b_def ex_def by (rule down_finish)
    then show ?thesis using that(1) sifts_refl [OF less.prems(1)] unfolding b_def ex_def by blast
  qed
  show ?case
  proof (cases "2 * p \<le> n \<and> ex (fst s q) \<le> ex t")
    case True
    define s1 where "s1 = place p (fst s q) s"
    have qn: "q \<le> n" "1 \<le> q" "n - q < n - p" using True q less.prems(2,3) by (auto simp: q_def)
    have b1: "(fst s1)(q := t) = swap b p q" using q by (auto simp: s1_def b_def)
    have r: "sifts n (place p t s) (place q t s1)"
      unfolding s1_def using less.prems(1-3) q qn by (intro place_round) auto
    have "down_order ex (swap b p q) n q"
    proof (rule down_round)
      show "down_order ex b n p" unfolding b_def ex_def by (fact less.prems(4))
      show "ex (b q) \<le> ex (b p)" using True q by (simp add: b_def)
    qed (use less.prems(2) q qn least in simp_all)
    then have "down_order (\<lambda>u. expires (snd s1 u)) ((fst s1)(q := t)) n q" by (simp only: b1) (simp add: s1_def ex_def)
    from less.hyps [OF qn(3) _ qn(2,1) this] r obtain p' s' where
      "down_loop n t q s1 = Some (p', s')" "sifts n (place q t s1) (place p' t s')"
      "heap_order (\<lambda>u. expires (snd s1 u)) ((fst s')(p' := t)) n" unfolding sifts_def by blast
    moreover have "(\<lambda>u. expires (snd s1 u)) = (\<lambda>u. expires (snd s u))" by (simp add: s1_def)
    moreover have "down_loop n t p s = down_loop n t q s1" using True unf by (simp add: s1_def)
    ultimately show ?thesis using r sifts_trans by metis
  next
    case False
    have "ex (b p) \<le> ex (b i)" if "2 \<le> i" "i \<le> n" "i div 2 = p" for i
    proof -
      have "2 * p \<le> n" using kids [OF that(3)] that(2) by auto
      then show ?thesis using least [OF that] False q by (simp add: b_def)
    qed
    moreover have "down_loop n t p s = Some (p, s)" using False unf by auto
    ultimately show ?thesis using stop by blast
  qed
qed

lemma heap_offset_self: "heap_offset (r :: timer) = p \<Longrightarrow> r\<lparr>heap_offset := p\<rparr> = r"
  by auto

lemma place_self:
  assumes "offsets_ok s n" "1 \<le> p" "p \<le> n"
  shows "place p (fst s p) s = s"
  using offsets_okD [OF assms] by (cases s) (simp add: place_def heap_offset_self)

lemma up_heap_ok:
  assumes "offsets_ok s n" "1 \<le> p" "p \<le> n" "up_order (\<lambda>u. expires (snd s u)) (fst s) n p"
  shows "sifts n s (up_heap p s)" "heap_order (\<lambda>u. expires (snd s u)) (fst (up_heap p s)) n"
proof -
  obtain p' s' where l: "up_loop (fst s p) p s = (p', s')" by (rule prod.exhaust)
  have "sifts n s (place p' (fst s p) s') \<and> heap_order (\<lambda>u. expires (snd s u)) (fst (place p' (fst s p) s')) n"
    using up_loop_ok [OF _ assms(2,3) _ l] assms by (simp add: place_self)
  then show "sifts n s (up_heap p s)" "heap_order (\<lambda>u. expires (snd s u)) (fst (up_heap p s)) n"
    by (simp_all add: up_heap_def l)
qed

lemma down_heap_ok:
  assumes "offsets_ok s n" "1 \<le> p" "p \<le> n" "down_order (\<lambda>u. expires (snd s u)) (fst s) n p"
  shows "\<exists>s'. down_heap n p s = Some s' \<and> sifts n s s' \<and> heap_order (\<lambda>u. expires (snd s u)) (fst s') n"
proof -
  obtain p' s' where "down_loop n (fst s p) p s = Some (p', s')" "sifts n s (place p' (fst s p) s')"
    "heap_order (\<lambda>u. expires (snd s u)) ((fst s')(p' := fst s p)) n"
    using down_loop_ok [of p "fst s p" s n] assms by (auto simp: place_self)
  then show ?thesis by (simp add: down_heap_def)
qed

section \<open>Adding and removing\<close>

text \<open>A limit is one less than a power of sixteen, as the growth of the heap makes it.\<close>

definition limit_ok :: "nat \<Rightarrow> bool" where
  "limit_ok l \<longleftrightarrow> l \<in> {0, 15, 255, 4095, 65535}"

lemma limit_ok_le [dest]: "limit_ok l \<Longrightarrow> l \<le> 65535"
  by (auto simp: limit_ok_def)

definition heap_ok :: "timers \<Rightarrow> (tid \<Rightarrow> timer) \<Rightarrow> bool" where
  "heap_ok h m \<longleftrightarrow> h_size h \<le> h_limit h \<and> limit_ok (h_limit h) \<and>
     offsets_ok (h_arr h, m) (h_size h) \<and> heap_order (\<lambda>u. expires (m u)) (h_arr h) (h_size h)"

definition heap_set :: "timers \<Rightarrow> tid set" where
  "heap_set h = heap_elems (h_arr h) (h_size h)"

text \<open>The lists, the running timer and the limit are not touched by the heap operations.\<close>

definition rest_same :: "timers \<Rightarrow> timers \<Rightarrow> bool" where
  "rest_same h h' \<longleftrightarrow> h_limit h' = h_limit h \<and> t_list h' = t_list h \<and> t_inactive h' = t_inactive h \<and> t_running h' = t_running h"

lemma SET_HEAP_SIZE_in:
  "n < 65535 \<Longrightarrow> SET_HEAP_SIZE h (int n + 1) = h\<lparr>h_size := Suc n\<rparr>"
  "1 \<le> n \<Longrightarrow> n \<le> 65535 \<Longrightarrow> SET_HEAP_SIZE h (int n - 1) = h\<lparr>h_size := n - 1\<rparr>"
  by (simp_all add: SET_HEAP_SIZE_def nat_add_distrib nat_diff_distrib)

lemma heap_order_subset: "heap_order ex b n \<Longrightarrow> k \<le> n \<Longrightarrow> heap_order ex b k"
  by (simp add: heap_order_def)

lemma offsets_subset: "offsets_ok s n \<Longrightarrow> k \<le> n \<Longrightarrow> offsets_ok s k"
  by (simp add: offsets_ok_def)

lemma heap_elems_Suc: "heap_elems b (Suc n) = insert (b (Suc n)) (heap_elems b n)"
  by (simp add: heap_elems_def atLeastAtMostSuc_conv)

lemma heap_elems_upd: "n < p \<Longrightarrow> heap_elems (b(p := t)) n = heap_elems b n"
  unfolding heap_elems_def by (intro image_cong) auto

lemma same_view_expires: "same_view m m' \<Longrightarrow> (\<lambda>u. expires (m' u)) = (\<lambda>u. expires (m u))"
  by (simp add: same_viewD)

lemma heap_setE:
  assumes "t \<in> heap_set h" "offsets_ok (h_arr h, m) (h_size h)"
  shows "1 \<le> heap_offset (m t)" "heap_offset (m t) \<le> h_size h" "h_arr h (heap_offset (m t)) = t"
proof -
  obtain i where "1 \<le> i" "i \<le> h_size h" "t = h_arr h i"
    using assms(1) by (auto simp: heap_set_def heap_elems_def)
  moreover from this have "heap_offset (m t) = i" using offsets_okD [OF assms(2), of i] by simp
  ultimately show "1 \<le> heap_offset (m t)" "heap_offset (m t) \<le> h_size h" "h_arr h (heap_offset (m t)) = t"
    by simp_all
qed

lemma add_to_heap_full: "h_size h = h_limit h \<Longrightarrow> add_to_heap h m t = (False, h, m)"
  by (simp add: add_to_heap_def)

lemma add_to_heap_ok:
  assumes ok: "heap_ok h m" and room: "h_size h < h_limit h" and new: "t \<notin> heap_set h"
    and add: "add_to_heap h m t = (rc, h', m')"
  shows "heap_ok h' m'" "heap_set h' = insert t (heap_set h)" "same_view m m'" "rest_same h h'"
    "heap_offset (m' t) \<noteq> 0" "rc \<longleftrightarrow> h_arr h' 1 = t"
    "\<And>u. u \<notin> insert t (heap_set h) \<Longrightarrow> m' u = m u"
proof -
  let ?n = "h_size h"
  define s where "s = place (Suc ?n) t (h_arr h, m)"
  define s' where "s' = up_heap (Suc ?n) s"
  have "SET_HEAP_SIZE h (int ?n + 1) = h\<lparr>h_size := Suc ?n\<rparr>"
    using ok room by (intro SET_HEAP_SIZE_in) (auto simp: heap_ok_def)
  then have r: "h' = h\<lparr>h_size := Suc ?n, h_arr := fst s'\<rparr>" "m' = snd s'" "rc \<longleftrightarrow> heap_offset (m' t) = 1"
    using add room by (auto simp: add_to_heap_def s'_def s_def Let_def split: prod.splits)
  have s: "fst s = (h_arr h)(Suc ?n := t)" "snd s = m(t := (m t)\<lparr>heap_offset := Suc ?n\<rparr>)"
    by (simp_all add: s_def place_def)
  have other: "h_arr h i \<noteq> t" if "1 \<le> i" "i \<le> ?n" for i
    using new that by (auto simp: heap_set_def heap_elems_def)
  have off: "offsets_ok s (Suc ?n)" unfolding offsets_ok_def s
    using ok other by (auto simp: heap_ok_def offsets_ok_def le_Suc_eq)
  have el: "heap_elems (fst s) (Suc ?n) = insert t (heap_set h)"
    by (simp add: s heap_elems_Suc heap_elems_upd heap_set_def)
  have "up_order (\<lambda>u. expires (snd s u)) (fst s) (Suc ?n) (Suc ?n)"
    using ok unfolding up_order_def around_def s heap_ok_def heap_order_def by (auto simp: le_Suc_eq)
  note u = up_heap_ok [OF off _ _ this, folded s'_def, simplified]
  have view: "same_view m (snd s)" by (auto simp: same_view_def tview_def s)
  then show same: "same_view m m'" using u(1) same_view_trans unfolding sifts_def r by blast
  have ho: "heap_order (\<lambda>u. expires (m' u)) (fst s') (Suc ?n)"
    using u(2) unfolding same_view_expires [OF same] same_view_expires [OF view] .
  have off': "offsets_ok (fst s', m') (Suc ?n)" using u(1) by (simp add: sifts_def r)
  show "heap_ok h' m'" unfolding heap_ok_def using ok room ho off' by (simp add: r(1) heap_ok_def)
  show hs: "heap_set h' = insert t (heap_set h)" using u(1) el by (simp add: heap_set_def r(1) sifts_def)
  show "rest_same h h'" by (simp add: rest_same_def r(1))
  have t: "t \<in> heap_set h'" using hs by simp
  note tE = heap_setE [OF t, of m']
  have off'': "offsets_ok (h_arr h', m') (h_size h')" using off' by (simp add: r(1))
  show "heap_offset (m' t) \<noteq> 0" using tE(1) off'' by simp
  show "rc \<longleftrightarrow> h_arr h' 1 = t" using tE off'' offsets_okD [OF off'', of 1] by (auto simp: r(3))
  show "m' u = m u" if "u \<notin> insert t (heap_set h)" for u
    using u(1) el that unfolding sifts_def r(2) s by auto
qed

lemma remove_order:
  assumes ord: "heap_order ex a n" and p: "1 \<le> p" "p < n" and b: "b = a(p := a n)"
  shows "p > 1 \<Longrightarrow> ex (b p) < ex (b (p div 2)) \<Longrightarrow> up_order ex b (n - 1) p"
    and "\<not> (p > 1 \<and> ex (b p) < ex (b (p div 2))) \<Longrightarrow> down_order ex b (n - 1) p"
proof -
  have o: "ex (a (i div 2)) \<le> ex (a i)" if "2 \<le> i" "i \<le> n" for i using ord that by (simp add: heap_order_def)
  have near: "ex (a (p div 2)) \<le> ex (a i)" if "2 \<le> i" "i \<le> n" "2 \<le> p" "i div 2 = p" for i
    using o [of i] o [of p] that p by simp
  have ar: "around ex b (n - 1) p" unfolding around_def b using near by auto
  show "up_order ex b (n - 1) p" if "p > 1" "ex (b p) < ex (b (p div 2))"
    unfolding up_order_def
  proof (intro conjI ar allI impI)
    fix i assume i: "2 \<le> i \<and> i \<le> n - 1 \<and> i \<noteq> p"
    show "ex (b (i div 2)) \<le> ex (b i)"
    proof (cases "i div 2 = p")
      case True
      have "p div 2 \<noteq> p" using that(1) by simp
      then have "ex (b p) < ex (a (p div 2))" using that(2) by (simp add: b)
      also have "\<dots> \<le> ex (a i)" using near [of i] that(1) i True by auto
      finally show ?thesis using True i by (simp add: b)
    next
      case False
      then show ?thesis using o [of i] i by (auto simp: b)
    qed
  qed
  show "down_order ex b (n - 1) p" if "\<not> (p > 1 \<and> ex (b p) < ex (b (p div 2)))"
    unfolding down_order_def
  proof (intro conjI ar allI impI)
    fix i assume i: "2 \<le> i \<and> i \<le> n - 1 \<and> i div 2 \<noteq> p"
    show "ex (b (i div 2)) \<le> ex (b i)"
    proof (cases "i = p")
      case True
      then show ?thesis using that i by auto
    next
      case False
      then show ?thesis using o [of i] i by (auto simp: b)
    qed
  qed
qed

lemma last_moved:
  assumes p: "1 \<le> p" "p < n"
    and inj: "\<And>i j. 1 \<le> i \<Longrightarrow> i \<le> n \<Longrightarrow> 1 \<le> j \<Longrightarrow> j \<le> n \<Longrightarrow> a i = a j \<Longrightarrow> i = j"
  shows "heap_elems (a(p := a n)) (n - 1) = heap_elems a n - {a p}"
proof
  show "heap_elems (a(p := a n)) (n - 1) \<subseteq> heap_elems a n - {a p}"
  proof
    fix u assume "u \<in> heap_elems (a(p := a n)) (n - 1)"
    then obtain i where i: "1 \<le> i" "i \<le> n - 1" "u = (a(p := a n)) i" by (auto simp: heap_elems_def)
    define j where "j = (if i = p then n else i)"
    have j: "1 \<le> j" "j \<le> n" "j \<noteq> p" "u = a j" using i p by (auto simp: j_def)
    then have "a j \<noteq> a p" using inj [of j p] p by auto
    then show "u \<in> heap_elems a n - {a p}" using j by (auto simp: heap_elems_def)
  qed
  show "heap_elems a n - {a p} \<subseteq> heap_elems (a(p := a n)) (n - 1)"
  proof
    fix u assume "u \<in> heap_elems a n - {a p}"
    then obtain i where i: "1 \<le> i" "i \<le> n" "u = a i" "u \<noteq> a p" by (auto simp: heap_elems_def)
    then have "i \<noteq> p" by auto
    have "u = (a(p := a n)) (if i = n then p else i)" using i \<open>i \<noteq> p\<close> by auto
    moreover have "(if i = n then p else i) \<in> {1..n - 1}" using i p by auto
    ultimately show "u \<in> heap_elems (a(p := a n)) (n - 1)" unfolding heap_elems_def by blast
  qed
qed

lemma moved_offsets:
  assumes off: "offsets_ok (a, m) n" and p: "1 \<le> p" "p < n"
  shows "offsets_ok (place p (a n) (a, m)) (n - 1)"
  unfolding offsets_ok_def
proof (intro allI impI)
  fix i assume i: "1 \<le> i \<and> i \<le> n - 1"
  then have "a i \<noteq> a n" using offsets_inj [OF off, of i n, unfolded fst_conv] p by linarith
  then show "heap_offset (snd (place p (a n) (a, m)) (fst (place p (a n) (a, m)) i)) = i"
    using offsets_okD [OF off, of i] i by (auto simp: place_def)
qed

lemma resift:
  assumes off: "offsets_ok s (n - 1)" and p: "1 \<le> p" "p < n"
    and ord: "heap_order (\<lambda>u. expires (snd s u)) a n" and fs: "fst s = a(p := a n)"
  shows "\<exists>s'. (if p > 1 \<and> expires (snd s (fst s p)) < expires (snd s (fst s (p div 2)))
      then Some (up_heap p s) else down_heap (n - 1) p s) = Some s' \<and> sifts (n - 1) s s' \<and>
    heap_order (\<lambda>u. expires (snd s u)) (fst s') (n - 1)"
proof (cases "p > 1 \<and> expires (snd s (fst s p)) < expires (snd s (fst s (p div 2)))")
  case True
  then have "up_order (\<lambda>u. expires (snd s u)) (fst s) (n - 1) p" using remove_order(1) [OF ord p fs] by blast
  moreover have "p \<le> n - 1" using p by simp
  ultimately show ?thesis unfolding if_P [OF True] using up_heap_ok [OF off p(1)] by blast
next
  case False
  then have "down_order (\<lambda>u. expires (snd s u)) (fst s) (n - 1) p" using remove_order(2) [OF ord p fs] by blast
  moreover have "p \<le> n - 1" using p by simp
  ultimately show ?thesis unfolding if_not_P [OF False] using down_heap_ok [OF off p(1)] by blast
qed

lemma remove_from_heap_ok:
  assumes ok: "heap_ok h m" and t: "t \<in> heap_set h"
  shows "\<exists>rc h' m'. remove_from_heap h m t = Some (rc, h', m') \<and> heap_ok h' m' \<and> heap_set h' = heap_set h - {t} \<and>
    same_view m m' \<and> rest_same h h' \<and> rc = (t = h_arr h 1) \<and> (\<forall>u. u \<notin> heap_set h - {t} \<longrightarrow> m' u = m u)"
proof -
  define n p where "n = h_size h" and "p = heap_offset (m t)"
  have off: "offsets_ok (h_arr h, m) n" and ord: "heap_order (\<lambda>u. expires (m u)) (h_arr h) n"
    and lim: "n \<le> h_limit h" "limit_ok (h_limit h)" using ok by (simp_all add: heap_ok_def n_def)
  have p: "1 \<le> p" "p \<le> n" "h_arr h p = t" using heap_setE [OF t] off by (simp_all add: n_def p_def)
  have size: "SET_HEAP_SIZE h (int n - 1) = h\<lparr>h_size := n - 1\<rparr>"
    using p lim by (intro SET_HEAP_SIZE_in) auto
  have inj: "i = j" if "1 \<le> i" "i \<le> n" "1 \<le> j" "j \<le> n" "h_arr h i = h_arr h j" for i j
    using offsets_inj [OF off] that by simp
  have top: "p = 1 \<longleftrightarrow> t = h_arr h 1" using p inj [of p 1] by auto
  have n: "Suc (n - 1) = n" using p by simp
  have el: "heap_set h = insert (h_arr h n) (heap_elems (h_arr h) (n - 1))"
    using heap_elems_Suc [of "h_arr h" "n - 1"] unfolding heap_set_def n_def [symmetric] n .
  have last: "h_arr h n \<notin> heap_elems (h_arr h) (n - 1)"
  proof
    assume "h_arr h n \<in> heap_elems (h_arr h) (n - 1)"
    then obtain i where "1 \<le> i" "i \<le> n - 1" "h_arr h n = h_arr h i" by (auto simp: heap_elems_def)
    with inj [of n i] p show False by linarith
  qed
  show ?thesis
  proof (cases "p = n")
    case True
    have "remove_from_heap h m t = Some (p = 1, h\<lparr>h_size := n - 1\<rparr>, m)"
      using True size by (simp add: remove_from_heap_def Let_def n_def p_def)
    moreover have "heap_ok (h\<lparr>h_size := n - 1\<rparr>) m"
      using off ord lim by (auto simp: heap_ok_def intro: offsets_subset heap_order_subset)
    moreover have "heap_set (h\<lparr>h_size := n - 1\<rparr>) = heap_set h - {t}"
      using el last p True by (auto simp: heap_set_def)
    ultimately show ?thesis using top by (auto simp: rest_same_def)
  next
    case False
    then have pn: "p < n" using p by simp
    define s where "s = place p (h_arr h n) (h_arr h, m)"
    have fs: "fst s = (h_arr h)(p := h_arr h n)" by (simp add: s_def)
    have view: "same_view m (snd s)" unfolding s_def by (rule same_view_place)
    have ms: "snd s u = m u" if "u \<noteq> h_arr h n" for u using that by (simp add: s_def place_def)
    have off1: "offsets_ok s (n - 1)" unfolding s_def using off p(1) pn by (rule moved_offsets)
    have el1: "heap_elems (fst s) (n - 1) = heap_set h - {t}"
      unfolding fs p(3) [symmetric] heap_set_def n_def [symmetric]
      using last_moved [OF p(1) pn inj] by simp
    have "heap_order (\<lambda>u. expires (snd s u)) (h_arr h) n"
      unfolding same_viewD(1) [OF view] by (rule ord)
    from resift [OF off1 p(1) pn this fs] obtain s' where s': "(if p > 1 \<and> expires (snd s (fst s p)) < expires (snd s (fst s (p div 2)))
        then Some (up_heap p s) else down_heap (n - 1) p s) = Some s'" "sifts (n - 1) s s'"
        "heap_order (\<lambda>u. expires (snd s u)) (fst s') (n - 1)" by blast
    have "remove_from_heap h m t = Some (p = 1, h\<lparr>h_size := n - 1, h_arr := fst s'\<rparr>, snd s')"
      using False s'(1) by (cases s')
        (auto simp: remove_from_heap_def Let_def p_def [symmetric] n_def [symmetric] size s_def [symmetric] split: if_splits)
    moreover have same: "same_view m (snd s')" using view s'(2) same_view_trans unfolding sifts_def by blast
    moreover have "heap_ok (h\<lparr>h_size := n - 1, h_arr := fst s'\<rparr>) (snd s')"
      using s'(2,3) lim same_view_expires [OF same] same_view_expires [OF view]
      by (simp add: heap_ok_def sifts_def)
    moreover have "heap_set (h\<lparr>h_size := n - 1, h_arr := fst s'\<rparr>) = heap_set h - {t}"
      using s'(2) el1 by (simp add: heap_set_def sifts_def)
    moreover have "snd s' u = m u" if "u \<notin> heap_set h - {t}" for u
    proof -
      have "h_arr h n \<in> heap_set h - {t}" using inj [of n p] p pn el by auto
      then show ?thesis using s'(2) el1 ms that unfolding sifts_def by metis
    qed
    ultimately show ?thesis using top by (auto simp: rest_same_def)
  qed
qed

end
