(* ===== verification/Timer_Inv.thy ===== *)
theory Timer_Inv
  imports Timer_Heap
begin

text \<open>
  The invariant of the timers of all CPUs: the status and CPU of a timer say in which structure of
  which CPU it is, the heaps and the overflow lists are ordered, a timer is killed exactly when its CPU field
  says so, and no expiry exceeds the largest time. The lemmas show that the entry operations keep it.
\<close>

section \<open>The invariant\<close>

definition sel :: "(tid \<Rightarrow> timer) \<Rightarrow> timer_status \<Rightarrow> nat \<Rightarrow> tid set" where
  "sel m st c = {t. t_status (m t) = st \<and> t_cpu (m t) = c}"

definition list_ok :: "(tid \<Rightarrow> timer) \<Rightarrow> tid list \<Rightarrow> bool" where
  "list_ok m l \<longleftrightarrow> distinct l \<and> sorted (map (\<lambda>t. expires (m t)) l)"

definition cpu_ok :: "(tid \<Rightarrow> timer) \<Rightarrow> nat \<Rightarrow> timers \<Rightarrow> bool" where
  "cpu_ok m c h \<longleftrightarrow>
     heap_ok h m \<and> heap_set h = sel m TIMER_STATUS_in_heap c \<and>
     list_ok m (t_list h) \<and> set (t_list h) = sel m TIMER_STATUS_in_list c \<and>
     distinct (t_inactive h) \<and> set (t_inactive h) = sel m TIMER_STATUS_inactive c"

definition timers_ok :: "tstate \<Rightarrow> bool" where
  "timers_ok s \<longleftrightarrow> (\<forall>c. cpu_ok (tm s) c (pcpu s c)) \<and>
     (\<forall>t. t_status (tm s t) = TIMER_STATUS_killed \<longleftrightarrow> t_cpu (tm s t) = TIMER_CPU_status_killed) \<and>
     (\<forall>t. expires (tm s t) \<le> STIME_MAX)"

lemma mem_sel [simp]: "t \<in> sel m st c \<longleftrightarrow> t_status (m t) = st \<and> t_cpu (m t) = c"
  by (simp add: sel_def)

lemma sel_same_view: "same_view m m' \<Longrightarrow> sel m' st c = sel m st c"
  by (simp add: sel_def same_viewD)

lemma sel_upd: "sel (m(t := r)) st c = (if t_status r = st \<and> t_cpu r = c then insert t (sel m st c) else sel m st c - {t})"
  by (auto simp: sel_def)

lemma list_ok_cong: "\<forall>t \<in> set l. expires (m' t) = expires (m t) \<Longrightarrow> list_ok m' l = list_ok m l"
  by (simp add: list_ok_def cong: map_cong)

lemma heap_ok_cong:
  assumes "\<forall>t \<in> heap_set h. expires (m' t) = expires (m t) \<and> heap_offset (m' t) = heap_offset (m t)"
  shows "heap_ok h m' = heap_ok h m"
proof -
  have el: "h_arr h i \<in> heap_set h" if "1 \<le> i" "i \<le> h_size h" for i
    using that by (auto simp: heap_set_def heap_elems_def)
  have "expires (m' (h_arr h i)) = expires (m (h_arr h i)) \<and> heap_offset (m' (h_arr h i)) = heap_offset (m (h_arr h i))"
    if "1 \<le> i" "i \<le> h_size h" for i using assms el [OF that] by blast
  moreover have "1 \<le> i div 2 \<and> i div 2 \<le> h_size h" if "2 \<le> i" "i \<le> h_size h" for i using that by auto
  ultimately show ?thesis unfolding heap_ok_def offsets_ok_def heap_order_def by simp
qed

lemma heap_ok_fields [simp]:
  "heap_ok (h\<lparr>t_list := l\<rparr>) m = heap_ok h m" "heap_ok (h\<lparr>t_inactive := l\<rparr>) m = heap_ok h m"
  "heap_ok (h\<lparr>t_running := r\<rparr>) m = heap_ok h m"
  "heap_set (h\<lparr>t_list := l\<rparr>) = heap_set h" "heap_set (h\<lparr>t_inactive := l\<rparr>) = heap_set h"
  "heap_set (h\<lparr>t_running := r\<rparr>) = heap_set h"
  by (simp_all add: heap_ok_def heap_set_def)

lemma cpu_ok_frame:
  assumes "cpu_ok m c h"
    and "\<And>t. t_cpu (m t) = c \<or> t_cpu (m' t) = c \<Longrightarrow> m' t = m t"
  shows "cpu_ok m' c h"
proof -
  have sel: "sel m' st c = sel m st c" for st
  proof (rule set_eqI)
    show "t \<in> sel m' st c \<longleftrightarrow> t \<in> sel m st c" for t
    proof (cases "t_cpu (m t) = c \<or> t_cpu (m' t) = c")
      case True
      from assms(2) [OF this] show ?thesis by simp
    qed simp
  qed
  have "m' t = m t" if "t \<in> heap_set h \<union> set (t_list h)" for t
  proof (rule assms(2))
    show "t_cpu (m t) = c \<or> t_cpu (m' t) = c" using that assms(1) by (auto simp: cpu_ok_def)
  qed
  then have "heap_ok h m' = heap_ok h m" "list_ok m' (t_list h) = list_ok m (t_list h)"
    by (auto intro!: heap_ok_cong list_ok_cong)
  then show ?thesis using assms(1) by (simp add: cpu_ok_def sel)
qed

section \<open>The overflow list\<close>

lemma remove_from_list_ok:
  "t \<in> set l \<Longrightarrow> remove_from_list l t = Some (hd l = t, remove1 t l)"
  by (induction l t rule: remove_from_list.induct) auto

lemma list_ok_remove1: "list_ok m l \<Longrightarrow> list_ok m (remove1 t l)"
  unfolding list_ok_def
  by (induction l) (auto simp: sorted_wrt_map dest: notin_set_remove1 set_remove1_subset [THEN subsetD])

lemma add_to_list_set: "set (snd (add_to_list m l t)) = insert t (set l)"
  by (induction m l t rule: add_to_list.induct) auto

lemma add_to_list_ok: "list_ok m l \<Longrightarrow> t \<notin> set l \<Longrightarrow> list_ok m (snd (add_to_list m l t))"
  by (induction m l t rule: add_to_list.induct) (auto simp: list_ok_def add_to_list_set)

lemma add_to_list_rc: "t \<notin> set l \<Longrightarrow> fst (add_to_list m l t) \<longleftrightarrow> hd (snd (add_to_list m l t)) = t"
  by (induction m l t rule: add_to_list.induct) auto

text \<open>The active timers of a CPU, and the first entries of its heap and its list.\<close>

definition armed :: "(tid \<Rightarrow> timer) \<Rightarrow> nat \<Rightarrow> tid set" where
  "armed m c = sel m TIMER_STATUS_in_heap c \<union> sel m TIMER_STATUS_in_list c"

lemma heap_root:
  assumes "heap_ok h m" "heap_set h \<noteq> {}"
  shows "h_arr h 1 \<in> heap_set h" "\<forall>t \<in> heap_set h. expires (m (h_arr h 1)) \<le> expires (m t)"
proof -
  have "1 \<le> h_size h" using assms(2) by (cases "h_size h") (auto simp: heap_set_def heap_elems_def)
  then show "h_arr h 1 \<in> heap_set h" by (auto simp: heap_set_def heap_elems_def)
  show "\<forall>t \<in> heap_set h. expires (m (h_arr h 1)) \<le> expires (m t)"
    using assms(1) heap_order_root [of "\<lambda>u. expires (m u)" "h_arr h" "h_size h"]
    by (auto simp: heap_ok_def heap_set_def heap_elems_def)
qed

lemma list_head:
  assumes "list_ok m l" "l \<noteq> []"
  shows "hd l \<in> set l" "\<forall>t \<in> set l. expires (m (hd l)) \<le> expires (m t)"
  using assms by (auto simp: list_ok_def neq_Nil_conv)

text \<open>The contract of a queue ordered by expiry, which the heap and the overflow list both meet.\<close>

locale expiry_queue =
  fixes ok :: "(tid \<Rightarrow> timer) \<Rightarrow> 'q \<Rightarrow> bool" and elems :: "'q \<Rightarrow> tid set" and front :: "'q \<Rightarrow> tid"
  assumes front_in: "ok m q \<Longrightarrow> elems q \<noteq> {} \<Longrightarrow> front q \<in> elems q"
    and front_least: "ok m q \<Longrightarrow> t \<in> elems q \<Longrightarrow> expires (m (front q)) \<le> expires (m t)"
begin

lemma front_ok: "ok m q \<Longrightarrow> t \<in> elems q \<Longrightarrow> front q \<in> elems q \<and> expires (m (front q)) \<le> expires (m t)"
  using front_in front_least by blast

lemma none_expired:
  assumes "ok m q" "elems q = {} \<or> now \<le> expires (m (front q))"
  shows "{t \<in> elems q. expires (m t) < now} = {}"
  using front_least [OF assms(1)] assms(2) by fastforce

end

interpretation hq: expiry_queue "\<lambda>m h. heap_ok h m" heap_set "\<lambda>h. h_arr h 1"
  using heap_root by unfold_locales blast+

interpretation lq: expiry_queue list_ok set hd
  using list_head by unfold_locales (metis empty_iff list.set(1))+

lemma armed_root:
  "cpu_ok m c h \<Longrightarrow> t \<in> heap_set h \<Longrightarrow> h_arr h 1 \<in> armed m c \<and> expires (m (h_arr h 1)) \<le> expires (m t)"
  using hq.front_ok [of h m t] unfolding cpu_ok_def armed_def by blast

lemma armed_head:
  "cpu_ok m c h \<Longrightarrow> t \<in> set (t_list h) \<Longrightarrow> hd (t_list h) \<in> armed m c \<and> expires (m (hd (t_list h))) \<le> expires (m t)"
  using lq.front_ok [of m "t_list h" t] unfolding cpu_ok_def armed_def by blast

section \<open>Removing and adding an entry\<close>

text \<open>
  What one of the entry operations does to the rest of the state: the timer \<open>t\<close> gets a new status, the others keep
  their expiry, CPU and status, and only the heap and the list of the CPU of \<open>t\<close> change.
\<close>

definition restatus :: "tstate \<Rightarrow> tid \<Rightarrow> timer_status \<Rightarrow> tstate \<Rightarrow> bool" where
  "restatus s t st s' \<longleftrightarrow>
     (\<forall>u. tview (tm s' u) = (if u = t then (expires (tm s t), t_cpu (tm s t), st) else tview (tm s u))) \<and>
     (\<forall>d. t_running (pcpu s' d) = t_running (pcpu s d) \<and> h_limit (pcpu s' d) = h_limit (pcpu s d)) \<and>
     (\<forall>d. d \<noteq> t_cpu (tm s t) \<longrightarrow> pcpu s' d = pcpu s d) \<and>
     timer_slop s' = timer_slop s \<and> timer_deadline s' = timer_deadline s"

lemma timers_okD: "timers_ok s \<Longrightarrow> cpu_ok (tm s) c (pcpu s c)"
  by (simp add: timers_ok_def)

text \<open>The operations below change timers of one CPU only.\<close>

lemma cpu_killed:
  "timers_ok s \<Longrightarrow> t_cpu (tm s t) = TIMER_CPU_status_killed \<longleftrightarrow> t_status (tm s t) = TIMER_STATUS_killed"
  by (simp add: timers_ok_def)

lemma restatusD:
  assumes "restatus s t st s'"
  shows "expires (tm s' u) = expires (tm s u)" "t_cpu (tm s' u) = t_cpu (tm s u)"
    "t_status (tm s' t) = st" "u \<noteq> t \<Longrightarrow> t_status (tm s' u) = t_status (tm s u)"
    "d \<noteq> t_cpu (tm s t) \<Longrightarrow> pcpu s' d = pcpu s d" "t_running (pcpu s' d) = t_running (pcpu s d)"
    "h_limit (pcpu s' d) = h_limit (pcpu s d)" "timer_slop s' = timer_slop s" "timer_deadline s' = timer_deadline s"
  using assms by (auto simp: restatus_def tview_def split: if_splits)

lemma timers_ok_upd:
  assumes ok: "timers_ok s" and re: "restatus s t st s'"
    and killed: "t_status (tm s t) \<noteq> TIMER_STATUS_killed" "st \<noteq> TIMER_STATUS_killed"
    and cpu: "cpu_ok (tm s') (t_cpu (tm s t)) (pcpu s' (t_cpu (tm s t)))"
    and same: "\<And>u. u \<noteq> t \<Longrightarrow> t_cpu (tm s u) \<noteq> t_cpu (tm s t) \<Longrightarrow> tm s' u = tm s u"
  shows "timers_ok s'"
  unfolding timers_ok_def
proof (intro conjI allI)
  fix d show "cpu_ok (tm s') d (pcpu s' d)"
  proof (cases "d = t_cpu (tm s t)")
    case False
    show ?thesis unfolding restatusD(5) [OF re False]
    proof (rule cpu_ok_frame [OF timers_okD [OF ok]])
      show "tm s' u = tm s u" if "t_cpu (tm s u) = d \<or> t_cpu (tm s' u) = d" for u
        using that False restatusD(2) [OF re, of u] by (intro same) auto
    qed
  qed (use cpu in simp)
  fix u show "t_status (tm s' u) = TIMER_STATUS_killed \<longleftrightarrow> t_cpu (tm s' u) = TIMER_CPU_status_killed"
    using cpu_killed [OF ok] killed by (cases "u = t") (simp_all add: restatusD(2-4) [OF re])
  show "expires (tm s' u) \<le> STIME_MAX" using ok by (simp add: restatusD(1) [OF re] timers_ok_def)
qed

lemma remove_heap_cpu_ok:
  assumes ok: "cpu_ok m c h" and t: "t_status (m t) = TIMER_STATUS_in_heap" "t_cpu (m t) = c"
    and r: "heap_ok h' m'" "heap_set h' = heap_set h - {t}" "same_view m m'" "rest_same h h'"
  shows "cpu_ok (m'(t := (m' t)\<lparr>t_status := TIMER_STATUS_invalid\<rparr>)) c h'"
proof -
  let ?m = "m'(t := (m' t)\<lparr>t_status := TIMER_STATUS_invalid\<rparr>)"
  have "heap_ok h' ?m = heap_ok h' m'" using r(2) by (intro heap_ok_cong) auto
  moreover have "list_ok ?m (t_list h') = list_ok m (t_list h)"
    using r(4) by (simp add: rest_same_def) (intro list_ok_cong, simp add: same_viewD(1) [OF r(3)])
  ultimately show ?thesis using ok r t
    by (auto simp: cpu_ok_def rest_same_def sel_upd sel_same_view [OF r(3)])
qed

lemma remove_list_cpu_ok:
  assumes ok: "cpu_ok m c h" and t: "t_status (m t) = TIMER_STATUS_in_list" "t_cpu (m t) = c"
  shows "cpu_ok (m(t := (m t)\<lparr>t_status := TIMER_STATUS_invalid\<rparr>)) c (h\<lparr>t_list := remove1 t (t_list h)\<rparr>)"
proof -
  let ?m = "m(t := (m t)\<lparr>t_status := TIMER_STATUS_invalid\<rparr>)"
  have "heap_ok h ?m = heap_ok h m" by (rule heap_ok_cong) simp
  moreover have "list_ok ?m (remove1 t (t_list h))"
    using ok list_ok_cong [of "remove1 t (t_list h)" ?m m] by (auto simp: cpu_ok_def list_ok_remove1)
  moreover have "distinct (t_list h)" using ok by (simp add: cpu_ok_def list_ok_def)
  ultimately show ?thesis using ok t by (auto simp: cpu_ok_def sel_upd set_remove1_eq)
qed

lemma remove_entry_ok:
  assumes ok: "timers_ok s" and act: "t_status (tm s t) = TIMER_STATUS_in_heap \<or> t_status (tm s t) = TIMER_STATUS_in_list"
  obtains rc s' where "remove_entry s t = Some (rc, s')" "timers_ok s'" "restatus s t TIMER_STATUS_invalid s'"
    "timer_softirqs s' = timer_softirqs s" "\<And>d. t_inactive (pcpu s' d) = t_inactive (pcpu s d)"
    "rc \<or> (\<exists>r \<in> armed (tm s) (t_cpu (tm s t)) - {t}. expires (tm s r) \<le> expires (tm s t))"
proof -
  define c where "c = t_cpu (tm s t)"
  have cok: "cpu_ok (tm s) c (pcpu s c)" using ok by (rule timers_okD)
  show ?thesis
  proof (cases "t_status (tm s t) = TIMER_STATUS_in_heap")
    case True
    then have "t \<in> heap_set (pcpu s c)" using cok by (simp add: cpu_ok_def c_def)
    then obtain rc h m where r: "remove_from_heap (pcpu s c) (tm s) t = Some (rc, h, m)" "heap_ok h m"
      "heap_set h = heap_set (pcpu s c) - {t}" "same_view (tm s) m" "rest_same (pcpu s c) h"
      "rc = (t = h_arr (pcpu s c) 1)" "\<forall>u. u \<notin> heap_set (pcpu s c) - {t} \<longrightarrow> m u = tm s u"
      using remove_from_heap_ok [of "pcpu s c" "tm s" t] cok by (auto simp: cpu_ok_def)
    define s' where "s' = upd_tm ((upd_cpu s c (\<lambda>_. h))\<lparr>tm := m\<rparr>) t (\<lambda>r. r\<lparr>t_status := TIMER_STATUS_invalid\<rparr>)"
    have f: "tm s' = m(t := (m t)\<lparr>t_status := TIMER_STATUS_invalid\<rparr>)" "pcpu s' = (pcpu s)(c := h)"
      by (simp_all add: s'_def upd_tm_def upd_cpu_def)
    note v = same_viewD [OF r(4)]
    have re: "restatus s t TIMER_STATUS_invalid s'"
      using v r(5) by (auto simp: restatus_def f tview_def rest_same_def c_def s'_def upd_tm_def upd_cpu_def)
    have "remove_entry s t = Some (rc, s')"
      using True r(1) by (simp add: remove_entry_def Let_def c_def s'_def)
    moreover have "timers_ok s'"
    proof (rule timers_ok_upd [OF ok re])
      show "cpu_ok (tm s') (t_cpu (tm s t)) (pcpu s' (t_cpu (tm s t)))"
        using remove_heap_cpu_ok [OF cok True _ r(2-5)] by (simp add: f c_def)
      show "tm s' u = tm s u" if "u \<noteq> t" "t_cpu (tm s u) \<noteq> t_cpu (tm s t)" for u
        using r(7) cok that by (simp add: f cpu_ok_def c_def)
    qed (use True in simp_all)
    moreover note re
    moreover have "timer_softirqs s' = timer_softirqs s" by (simp add: s'_def upd_tm_def upd_cpu_def)
    moreover have "t_inactive (pcpu s' d) = t_inactive (pcpu s d)" for d
      using r(5) by (simp add: f rest_same_def)
    moreover have "rc \<or> (\<exists>r \<in> armed (tm s) (t_cpu (tm s t)) - {t}. expires (tm s r) \<le> expires (tm s t))"
      using armed_root [OF cok \<open>t \<in> heap_set (pcpu s c)\<close>] unfolding c_def [symmetric] r(6) by (metis DiffI singletonD)
    ultimately show thesis by (rule that)
  next
    case False
    then have il: "t_status (tm s t) = TIMER_STATUS_in_list" using act by simp
    then have t: "t \<in> set (t_list (pcpu s c))" using cok by (simp add: cpu_ok_def c_def)
    note r = remove_from_list_ok [OF t]
    define h where "h = (pcpu s c)\<lparr>t_list := remove1 t (t_list (pcpu s c))\<rparr>"
    define s' where "s' = upd_tm (upd_cpu s c (\<lambda>_. h)) t (\<lambda>r. r\<lparr>t_status := TIMER_STATUS_invalid\<rparr>)"
    have f: "tm s' = (tm s)(t := (tm s t)\<lparr>t_status := TIMER_STATUS_invalid\<rparr>)" "pcpu s' = (pcpu s)(c := h)"
      by (simp_all add: s'_def upd_tm_def upd_cpu_def)
    have re: "restatus s t TIMER_STATUS_invalid s'"
      by (auto simp: restatus_def f tview_def h_def c_def s'_def upd_tm_def upd_cpu_def)
    have "remove_entry s t = Some (hd (t_list (pcpu s c)) = t, s')"
      using il r by (simp add: remove_entry_def Let_def c_def s'_def h_def upd_cpu_def)
    moreover have "timers_ok s'"
    proof (rule timers_ok_upd [OF ok re])
      show "cpu_ok (tm s') (t_cpu (tm s t)) (pcpu s' (t_cpu (tm s t)))"
        using remove_list_cpu_ok [OF cok il] by (simp add: f c_def h_def)
    qed (use il in \<open>simp_all add: f\<close>)
    moreover note re
    moreover have "timer_softirqs s' = timer_softirqs s" by (simp add: s'_def upd_tm_def upd_cpu_def)
    moreover have "t_inactive (pcpu s' d) = t_inactive (pcpu s d)" for d by (simp add: f h_def)
    moreover have "hd (t_list (pcpu s c)) = t \<or> (\<exists>r \<in> armed (tm s) (t_cpu (tm s t)) - {t}. expires (tm s r) \<le> expires (tm s t))"
      using armed_head [OF cok t] unfolding c_def [symmetric] by (metis DiffI singletonD)
    ultimately show thesis by (rule that)
  qed
qed

lemma add_heap_cpu_ok:
  assumes ok: "cpu_ok m c h" and t: "t_status (m t) = TIMER_STATUS_invalid" "t_cpu (m t) = c"
    and r: "heap_ok h' m'" "heap_set h' = insert t (heap_set h)" "rest_same h h'"
      "same_view (m(t := (m t)\<lparr>heap_offset := 0, t_status := TIMER_STATUS_in_heap\<rparr>)) m'"
  shows "cpu_ok m' c h'"
proof -
  have "expires (m' u) = expires (m u)" for u using same_viewD(1) [OF r(4), of u] by (cases "u = t") auto
  then have "list_ok m' (t_list h') = list_ok m (t_list h)"
    using r(3) list_ok_cong [of "t_list h" m' m] by (simp add: rest_same_def)
  then show ?thesis using ok r(1-3) t
    by (auto simp: cpu_ok_def rest_same_def sel_same_view [OF r(4)] sel_upd)
qed

lemma add_list_cpu_ok:
  assumes ok: "cpu_ok m c h" and t: "t_status (m t) = TIMER_STATUS_invalid" "t_cpu (m t) = c"
    and m': "m' = m(t := (m t)\<lparr>heap_offset := 0, t_status := TIMER_STATUS_in_list\<rparr>)"
  shows "cpu_ok m' c (h\<lparr>t_list := snd (add_to_list m' (t_list h) t)\<rparr>)"
proof -
  have nt: "t \<notin> set (t_list h)" "t \<notin> heap_set h" using ok t by (auto simp: cpu_ok_def)
  have "heap_ok h m' = heap_ok h m" using nt by (intro heap_ok_cong) (auto simp: m')
  moreover have "list_ok m' (t_list h) = list_ok m (t_list h)" by (intro list_ok_cong) (simp add: m')
  ultimately show ?thesis using ok t nt add_to_list_ok [of m' "t_list h" t]
    by (auto simp: cpu_ok_def add_to_list_set m' sel_upd)
qed

lemma add_entry_ok:
  assumes ok: "timers_ok s" and inv: "t_status (tm s t) = TIMER_STATUS_invalid"
  obtains rc s' st where "add_entry s t = Some (rc, s')" "timers_ok s'"
    "st = TIMER_STATUS_in_heap \<or> st = TIMER_STATUS_in_list" "restatus s t st s'"
    "timer_softirqs s' = timer_softirqs s" "\<And>d. t_inactive (pcpu s' d) = t_inactive (pcpu s d)"
    "rc \<or> (\<exists>r \<in> armed (tm s) (t_cpu (tm s t)). expires (tm s r) \<le> expires (tm s t))"
proof -
  define c where "c = t_cpu (tm s t)"
  define m1 where "m1 = (tm s)(t := (tm s t)\<lparr>heap_offset := 0, t_status := TIMER_STATUS_in_heap\<rparr>)"
  have cok: "cpu_ok (tm s) c (pcpu s c)" using ok by (rule timers_okD)
  have nt: "t \<notin> heap_set (pcpu s c)" "t \<notin> set (t_list (pcpu s c))" using cok inv by (auto simp: cpu_ok_def)
  show ?thesis
  proof (cases "h_size (pcpu s c) = h_limit (pcpu s c)")
    case False
    obtain rc h m where a: "add_to_heap (pcpu s c) m1 t = (rc, h, m)" by (metis prod.exhaust)
    have "heap_ok (pcpu s c) m1 = heap_ok (pcpu s c) (tm s)" using nt(1) by (intro heap_ok_cong) (auto simp: m1_def)
    then have "heap_ok (pcpu s c) m1" "h_size (pcpu s c) < h_limit (pcpu s c)"
      using cok False by (simp_all add: cpu_ok_def heap_ok_def)
    note r = add_to_heap_ok [OF this nt(1) a]
    define s' where "s' = (upd_cpu s c (\<lambda>_. h))\<lparr>tm := m\<rparr>"
    have f: "tm s' = m" "pcpu s' = (pcpu s)(c := h)" by (simp_all add: s'_def upd_cpu_def)
    have v: "expires (m u) = expires (tm s u)" "t_cpu (m u) = t_cpu (tm s u)"
      "t_status (m u) = (if u = t then TIMER_STATUS_in_heap else t_status (tm s u))" for u
      using same_viewD [OF r(3), of u] by (auto simp: m1_def)
    have cok': "cpu_ok m c h" using add_heap_cpu_ok [OF cok inv _ r(1,2,4) r(3) [unfolded m1_def]] by (simp add: c_def)
    have re: "restatus s t TIMER_STATUS_in_heap s'"
      using r(4) v by (auto simp: restatus_def f tview_def rest_same_def s'_def upd_cpu_def c_def)
    have "add_entry s t = Some (rc, s')"
      using inv a r(5) by (simp add: add_entry_def Let_def upd_tm_def upd_cpu_def s'_def c_def m1_def)
    moreover have "timers_ok s'"
    proof (rule timers_ok_upd [OF ok re])
      show "cpu_ok (tm s') (t_cpu (tm s t)) (pcpu s' (t_cpu (tm s t)))" using cok' by (simp add: f c_def)
      show "tm s' u = tm s u" if "u \<noteq> t" "t_cpu (tm s u) \<noteq> t_cpu (tm s t)" for u
        using r(7) [of u] cok that by (auto simp: f cpu_ok_def c_def m1_def)
    qed (use inv in simp_all)
    moreover have "TIMER_STATUS_in_heap = TIMER_STATUS_in_heap \<or> TIMER_STATUS_in_heap = TIMER_STATUS_in_list" by simp
    moreover note re
    moreover have "timer_softirqs s' = timer_softirqs s" by (simp add: s'_def upd_cpu_def)
    moreover have "t_inactive (pcpu s' d) = t_inactive (pcpu s d)" for d using r(4) by (simp add: f rest_same_def)
    moreover have "rc \<or> (\<exists>r \<in> armed (tm s) (t_cpu (tm s t)). expires (tm s r) \<le> expires (tm s t))"
      using heap_root [OF r(1)] r(2,6) cok by (auto simp: v armed_def cpu_ok_def c_def)
    ultimately show thesis by (rule that)
  next
    case True
    define m' where "m' = (tm s)(t := (tm s t)\<lparr>heap_offset := 0, t_status := TIMER_STATUS_in_list\<rparr>)"
    obtain rc l where a: "add_to_list m' (t_list (pcpu s c)) t = (rc, l)" by (metis prod.exhaust)
    define s' where "s' = (upd_cpu s c (\<lambda>h. h\<lparr>t_list := l\<rparr>))\<lparr>tm := m'\<rparr>"
    have f: "tm s' = m'" "pcpu s' = (pcpu s)(c := (pcpu s c)\<lparr>t_list := l\<rparr>)" by (simp_all add: s'_def upd_cpu_def)
    have v: "expires (m' u) = expires (tm s u)" for u by (simp add: m'_def)
    have cok': "cpu_ok m' c ((pcpu s c)\<lparr>t_list := l\<rparr>)" using add_list_cpu_ok [OF cok inv _ m'_def] a by (simp add: c_def)
    have re: "restatus s t TIMER_STATUS_in_list s'"
      by (auto simp: restatus_def f tview_def s'_def upd_cpu_def c_def m'_def)
    have "add_entry s t = Some (rc, s')"
      using inv a by (simp add: add_entry_def Let_def upd_tm_def upd_cpu_def s'_def c_def [symmetric] m'_def
          add_to_heap_full [OF True])
    moreover have "timers_ok s'"
    proof (rule timers_ok_upd [OF ok re])
      show "cpu_ok (tm s') (t_cpu (tm s t)) (pcpu s' (t_cpu (tm s t)))" using cok' by (simp add: f c_def)
    qed (use inv in \<open>simp_all add: f m'_def\<close>)
    moreover have "TIMER_STATUS_in_list = TIMER_STATUS_in_heap \<or> TIMER_STATUS_in_list = TIMER_STATUS_in_list" by simp
    moreover note re
    moreover have "timer_softirqs s' = timer_softirqs s" by (simp add: s'_def upd_cpu_def)
    moreover have "t_inactive (pcpu s' d) = t_inactive (pcpu s d)" for d by (simp add: f)
    moreover have "rc \<or> (\<exists>r \<in> armed (tm s) (t_cpu (tm s t)). expires (tm s r) \<le> expires (tm s t))"
    proof -
      have l: "set l = insert t (set (t_list (pcpu s c)))" using add_to_list_set [of m' "t_list (pcpu s c)" t] a by simp
      then have "l \<noteq> []" by auto
      then have "hd l \<in> set l" "expires (tm s (hd l)) \<le> expires (tm s t)"
        using list_head [of m' l] cok' l by (auto simp: v cpu_ok_def)
      then show ?thesis using add_to_list_rc [OF nt(2), of m'] a l cok by (auto simp: armed_def cpu_ok_def c_def)
    qed
    ultimately show thesis by (rule that)
  qed
qed

end
