(* ===== verification/Timer_Ops.thy ===== *)
theory Timer_Ops
  imports Timer_Inv
begin

text \<open>
  The interface of the timers of \<^verbatim>\<open>xen/common/timer.c\<close> against an abstract specification in which a timer is not initialised,
  idle on a CPU, armed on a CPU for a time, or killed. Every call returns, keeps the invariant and
  changes the abstract timers as specified; a CPU whose earliest deadline changes has its softirq raised.
\<close>

section \<open>Abstract timers\<close>

datatype atimer = Uninit | Idle nat | Armed nat int | Killed

fun abs_view :: "int \<times> nat \<times> timer_status \<Rightarrow> atimer" where
  "abs_view (e, c, TIMER_STATUS_invalid) = Uninit"
| "abs_view (e, c, TIMER_STATUS_inactive) = Idle c"
| "abs_view (e, c, TIMER_STATUS_killed) = Killed"
| "abs_view (e, c, TIMER_STATUS_in_heap) = Armed c e"
| "abs_view (e, c, TIMER_STATUS_in_list) = Armed c e"

definition abs_timers :: "tstate \<Rightarrow> tid \<Rightarrow> atimer" where
  "abs_timers s t = abs_view (tview (tm s t))"

definition first_deadline :: "tstate \<Rightarrow> nat \<Rightarrow> int" where
  "first_deadline s c = earliest (pcpu s c) (tm s)"

text \<open>A timer changes its view; nothing else that the clients see does, except that softirqs may be raised.\<close>

definition review :: "tstate \<Rightarrow> tid \<Rightarrow> int \<times> nat \<times> timer_status \<Rightarrow> tstate \<Rightarrow> bool" where
  "review s t v s' \<longleftrightarrow>
     (\<forall>u. tview (tm s' u) = (if u = t then v else tview (tm s u))) \<and>
     (\<forall>d. t_running (pcpu s' d) = t_running (pcpu s d) \<and> h_limit (pcpu s' d) = h_limit (pcpu s d)) \<and>
     timer_slop s' = timer_slop s \<and> timer_deadline s' = timer_deadline s \<and>
     set (timer_softirqs s) \<subseteq> set (timer_softirqs s')"

definition noted :: "tstate \<Rightarrow> tstate \<Rightarrow> bool" where
  "noted s s' \<longleftrightarrow> (\<forall>c. first_deadline s' c = first_deadline s c \<or> c \<in> set (timer_softirqs s'))"

lemma review_trans: "review s t v s1 \<Longrightarrow> review s1 t w s2 \<Longrightarrow> review s t w s2"
  unfolding review_def by auto

lemma noted_trans: "noted s s1 \<Longrightarrow> noted s1 s2 \<Longrightarrow> review s1 t v s2 \<Longrightarrow> noted s s2"
  unfolding noted_def review_def by (metis subsetD)

lemma reviewD:
  assumes "review s t (e, c, st) s'"
  shows "expires (tm s' t) = e" "t_cpu (tm s' t) = c" "t_status (tm s' t) = st"
  using assms by (auto simp: review_def tview_def dest: spec [of _ t])

lemma review_abs: "review s t v s' \<Longrightarrow> abs_timers s' = (abs_timers s)(t := abs_view v)"
  by (auto simp: review_def abs_timers_def)

lemma review_restatus:
  "restatus s t st s' \<Longrightarrow> timer_softirqs s' = timer_softirqs s \<Longrightarrow> review s t (expires (tm s t), t_cpu (tm s t), st) s'"
  by (auto simp: restatus_def review_def)

section \<open>The earliest deadline\<close>

lemma finite_armed: "cpu_ok m c h \<Longrightarrow> finite (armed m c)"
  unfolding armed_def cpu_ok_def heap_set_def heap_elems_def by (metis finite_UnI finite_atLeastAtMost finite_imageI finite_set)

lemma earliest_Min:
  assumes ok: "cpu_ok m c h" and bound: "\<And>t. expires (m t) \<le> STIME_MAX"
  shows "earliest h m = Min (insert STIME_MAX ((\<lambda>t. expires (m t)) ` armed m c))"
proof (rule Min_eqI [symmetric])
  have arm: "armed m c = heap_set h \<union> set (t_list h)" using ok by (simp add: armed_def cpu_ok_def)
  have hp: "heap_set h = {} \<longleftrightarrow> h_size h = 0" by (auto simp: heap_set_def heap_elems_def)
  have e: "earliest h m = (let d = (if heap_set h \<noteq> {} then expires (m (h_arr h 1)) else STIME_MAX)
      in if t_list h \<noteq> [] then min d (expires (m (hd (t_list h)))) else d)"
    unfolding earliest_def hp by (auto simp: Let_def split: list.splits)
  show "finite (insert STIME_MAX ((\<lambda>t. expires (m t)) ` armed m c))" using finite_armed [OF ok] by simp
  show "earliest h m \<le> y" if "y \<in> insert STIME_MAX ((\<lambda>t. expires (m t)) ` armed m c)" for y
    using that
  proof
    assume "y = STIME_MAX"
    then show ?thesis using bound by (simp add: e Let_def min_le_iff_disj)
  next
    assume "y \<in> (\<lambda>t. expires (m t)) ` armed m c"
    then obtain t where t: "y = expires (m t)" "t \<in> heap_set h \<or> t \<in> set (t_list h)" by (auto simp: arm)
    from t(2) show ?thesis
    proof
      assume th: "t \<in> heap_set h"
      then have "expires (m (h_arr h 1)) \<le> y" "heap_set h \<noteq> {}" using armed_root [OF ok th] t(1) by auto
      then show ?thesis by (simp add: e Let_def min_le_iff_disj)
    next
      assume tl: "t \<in> set (t_list h)"
      then have "expires (m (hd (t_list h))) \<le> y" "t_list h \<noteq> []" using armed_head [OF ok tl] t(1) by auto
      then show ?thesis by (simp add: e Let_def min_le_iff_disj)
    qed
  qed
  have "heap_set h \<noteq> {} \<Longrightarrow> h_arr h 1 \<in> armed m c" "t_list h \<noteq> [] \<Longrightarrow> hd (t_list h) \<in> armed m c"
    using heap_root(1) [of h m] ok unfolding arm by (auto simp: cpu_ok_def)
  then show "earliest h m \<in> insert STIME_MAX ((\<lambda>t. expires (m t)) ` armed m c)"
    unfolding e Let_def min_def by (simp split: if_split)
qed

lemma first_deadline_Min:
  "timers_ok s \<Longrightarrow> first_deadline s c = Min (insert STIME_MAX ((\<lambda>t. expires (tm s t)) ` armed (tm s) c))"
  unfolding first_deadline_def by (rule earliest_Min [OF timers_okD]) (auto simp: timers_ok_def)

text \<open>An element that is not the only smallest one does not matter for the minimum.\<close>

lemma Min_dominated:
  assumes "finite A" "r \<in> A" "f r \<le> f t"
  shows "Min (insert (z :: int) (f ` insert t A)) = Min (insert z (f ` A))"
proof (rule Min_eqI)
  have fin: "finite (insert z (f ` A))" using assms(1) by simp
  show "finite (insert z (f ` insert t A))" using assms(1) by simp
  show "Min (insert z (f ` A)) \<le> y" if "y \<in> insert z (f ` insert t A)" for y
  proof (cases "y = f t")
    case True
    have "Min (insert z (f ` A)) \<le> f r" using fin assms(2) by (intro Min_le) auto
    then show ?thesis using True assms(3) by simp
  next
    case False
    then show ?thesis using fin that by (intro Min_le) auto
  qed
  show "Min (insert z (f ` A)) \<in> insert z (f ` insert t A)" using Min_in [OF fin] by auto
qed

section \<open>Timers that are not queued\<close>

definition queues_same :: "timers \<Rightarrow> timers \<Rightarrow> bool" where
  "queues_same h h' \<longleftrightarrow> h_size h' = h_size h \<and> h_limit h' = h_limit h \<and> h_arr h' = h_arr h \<and> t_list h' = t_list h"

lemma queues_sameD:
  assumes "queues_same h h'"
  shows "heap_ok h' m = heap_ok h m" "heap_set h' = heap_set h" "t_list h' = t_list h"
  using assms by (simp_all add: queues_same_def heap_ok_def heap_set_def)

text \<open>A change of one timer that is queued neither before nor after, with the new inactive lists.\<close>

lemma timers_ok_idle:
  assumes ok: "timers_ok s"
    and other: "\<And>u. u \<noteq> t \<Longrightarrow> tm s' u = tm s u"
    and st: "t_status (tm s t) \<notin> {TIMER_STATUS_in_heap, TIMER_STATUS_in_list}"
      "t_status (tm s' t) \<notin> {TIMER_STATUS_in_heap, TIMER_STATUS_in_list}"
    and t: "t_status (tm s' t) = TIMER_STATUS_killed \<longleftrightarrow> t_cpu (tm s' t) = TIMER_CPU_status_killed" "expires (tm s' t) \<le> STIME_MAX"
    and cpu: "\<And>d. queues_same (pcpu s d) (pcpu s' d)"
      "\<And>d. distinct (t_inactive (pcpu s' d)) \<and> set (t_inactive (pcpu s' d)) = sel (tm s') TIMER_STATUS_inactive d"
  shows "timers_ok s'" "first_deadline s' = first_deadline s"
proof -
  have sel: "sel (tm s') st d = sel (tm s) st d" if "st = TIMER_STATUS_in_heap \<or> st = TIMER_STATUS_in_list" for st d
  proof (rule set_eqI)
    show "u \<in> sel (tm s') st d \<longleftrightarrow> u \<in> sel (tm s) st d" for u
      using other [of u] st that by (cases "u = t") auto
  qed
  have cok: "cpu_ok (tm s) d (pcpu s d)" for d using ok by (rule timers_okD)
  have nt: "t \<notin> heap_set (pcpu s d)" "t \<notin> set (t_list (pcpu s d))" for d
    using cok [of d] st by (auto simp: cpu_ok_def)
  have eq: "tm s' u = tm s u" if "u \<in> heap_set (pcpu s d) \<or> u \<in> set (t_list (pcpu s d))" for u d
    using nt [of d] that by (intro other) auto
  have hp: "heap_ok (pcpu s d) (tm s') = heap_ok (pcpu s d) (tm s)" for d
    by (intro heap_ok_cong) (simp add: eq [of _ d])
  have ls: "list_ok (tm s') (t_list (pcpu s d)) = list_ok (tm s) (t_list (pcpu s d))" for d
    by (intro list_ok_cong) (simp add: eq [of _ d])
  have cok': "cpu_ok (tm s') d (pcpu s' d)" for d
    using cok [of d] cpu(2) [of d] by (simp add: cpu_ok_def queues_sameD [OF cpu(1)] hp ls sel)
  show ok': "timers_ok s'" unfolding timers_ok_def
  proof (intro conjI allI cok')
    show "t_status (tm s' u) = TIMER_STATUS_killed \<longleftrightarrow> t_cpu (tm s' u) = TIMER_CPU_status_killed" for u
      using t(1) other [of u] cpu_killed [OF ok, of u] by (cases "u = t") auto
    show "expires (tm s' u) \<le> STIME_MAX" for u
      using t(2) other [of u] ok by (cases "u = t") (auto simp: timers_ok_def)
  qed
  show "first_deadline s' = first_deadline s"
  proof
    fix c
    have "armed (tm s') c = armed (tm s) c" by (simp add: armed_def sel)
    moreover have "(\<lambda>u. expires (tm s' u)) ` armed (tm s) c = (\<lambda>u. expires (tm s u)) ` armed (tm s) c"
      using cok [of c] by (intro image_cong) (auto simp: armed_def cpu_ok_def eq [of _ c])
    ultimately show "first_deadline s' c = first_deadline s c"
      by (simp add: first_deadline_Min [OF ok] first_deadline_Min [OF ok'])
  qed
qed

text \<open>The status of the inactive timers and the list they are on.\<close>

lemma inactive_ok: "timers_ok s \<Longrightarrow> distinct (t_inactive (pcpu s d)) \<and> set (t_inactive (pcpu s d)) = sel (tm s) TIMER_STATUS_inactive d"
  using timers_okD [of s d] by (simp add: cpu_ok_def)

lemmas state_upd = upd_tm_def upd_cpu_def list_add_inactive_def list_del_inactive_def raise_timer_softirq_def

lemma inactivate_ok:
  assumes ok: "timers_ok s" and inv: "t_status (tm s t) = TIMER_STATUS_invalid"
    and s': "s' = list_add_inactive (upd_tm s t (\<lambda>r. r\<lparr>t_status := TIMER_STATUS_inactive\<rparr>)) (t_cpu (tm s t)) t"
  shows "timers_ok s'" "first_deadline s' = first_deadline s" "review s t (expires (tm s t), t_cpu (tm s t), TIMER_STATUS_inactive) s'"
proof -
  define c where "c = t_cpu (tm s t)"
  have m: "tm s' = (tm s)(t := (tm s t)\<lparr>t_status := TIMER_STATUS_inactive\<rparr>)"
    and p: "pcpu s' = (pcpu s)(c := (pcpu s c)\<lparr>t_inactive := t # t_inactive (pcpu s c)\<rparr>)"
    by (simp_all add: s' state_upd c_def)
  have k: "c \<noteq> TIMER_CPU_status_killed" using cpu_killed [OF ok, of t] inv by (simp add: c_def)
  have b: "expires (tm s t) \<le> STIME_MAX" using ok by (simp add: timers_ok_def)
  have "distinct (t_inactive (pcpu s' d)) \<and> set (t_inactive (pcpu s' d)) = sel (tm s') TIMER_STATUS_inactive d" for d
    using inactive_ok [OF ok, of d] inv by (auto simp: m p sel_upd c_def)
  then show "timers_ok s'" "first_deadline s' = first_deadline s"
    using k b inv by (auto intro!: timers_ok_idle [OF ok, of t s'] simp: m p c_def queues_same_def)
  show "review s t (expires (tm s t), t_cpu (tm s t), TIMER_STATUS_inactive) s'"
    by (auto simp: review_def m p tview_def s' state_upd)
qed

lemma inactive_del:
  assumes ok: "timers_ok s" and sel: "sel m TIMER_STATUS_inactive d = sel (tm s) TIMER_STATUS_inactive d - {t}"
    and p: "P = (pcpu s)(t_cpu (tm s t) := (pcpu s (t_cpu (tm s t)))\<lparr>t_inactive := remove1 t (t_inactive (pcpu s (t_cpu (tm s t))))\<rparr>)"
  shows "distinct (t_inactive (P d)) \<and> set (t_inactive (P d)) = sel m TIMER_STATUS_inactive d"
proof (cases "d = t_cpu (tm s t)")
  case True
  then show ?thesis using inactive_ok [OF ok, of d] unfolding sel by (simp add: p)
next
  case False
  then have "t \<notin> sel (tm s) TIMER_STATUS_inactive d" by simp
  then show ?thesis using inactive_ok [OF ok, of d] False unfolding sel by (simp add: p)
qed

lemma unlist_ok:
  assumes ok: "timers_ok s" and st: "t_status (tm s t) = TIMER_STATUS_inactive"
    and s': "s' = list_del_inactive (upd_tm s t (\<lambda>r. r\<lparr>t_status := TIMER_STATUS_invalid\<rparr>)) (t_cpu (tm s t)) t"
  shows "timers_ok s'" "first_deadline s' = first_deadline s" "review s t (expires (tm s t), t_cpu (tm s t), TIMER_STATUS_invalid) s'"
proof -
  have m: "tm s' = (tm s)(t := (tm s t)\<lparr>t_status := TIMER_STATUS_invalid\<rparr>)"
    and p: "pcpu s' = (pcpu s)(t_cpu (tm s t) := (pcpu s (t_cpu (tm s t)))\<lparr>t_inactive := remove1 t (t_inactive (pcpu s (t_cpu (tm s t))))\<rparr>)"
    by (simp_all add: s' state_upd)
  have k: "t_cpu (tm s t) \<noteq> TIMER_CPU_status_killed" using cpu_killed [OF ok, of t] st by simp
  have b: "expires (tm s t) \<le> STIME_MAX" using ok by (simp add: timers_ok_def)
  have "distinct (t_inactive (pcpu s' d)) \<and> set (t_inactive (pcpu s' d)) = sel (tm s') TIMER_STATUS_inactive d" for d
    by (rule inactive_del [OF ok _ p]) (auto simp: m sel_def)
  then show "timers_ok s'" "first_deadline s' = first_deadline s"
    using k b st by (auto intro!: timers_ok_idle [OF ok, of t s'] simp: m p queues_same_def)
  show "review s t (expires (tm s t), t_cpu (tm s t), TIMER_STATUS_invalid) s'"
    by (auto simp: review_def m p tview_def s' state_upd)
qed

lemma set_expires_ok:
  assumes ok: "timers_ok s" and st: "t_status (tm s t) = TIMER_STATUS_inactive" and e: "e \<le> STIME_MAX"
    and s': "s' = upd_tm s t (\<lambda>r. r\<lparr>expires := e\<rparr>)"
  shows "timers_ok s'" "first_deadline s' = first_deadline s" "review s t (e, t_cpu (tm s t), TIMER_STATUS_inactive) s'"
proof -
  have m: "tm s' = (tm s)(t := (tm s t)\<lparr>expires := e\<rparr>)" and p: "pcpu s' = pcpu s" by (simp_all add: s' state_upd)
  have k: "t_cpu (tm s t) \<noteq> TIMER_CPU_status_killed" using cpu_killed [OF ok, of t] st by simp
  have "distinct (t_inactive (pcpu s' d)) \<and> set (t_inactive (pcpu s' d)) = sel (tm s') TIMER_STATUS_inactive d" for d
  proof -
    have "sel (tm s') TIMER_STATUS_inactive d = sel (tm s) TIMER_STATUS_inactive d" by (auto simp: sel_def m)
    then show ?thesis using inactive_ok [OF ok, of d] by (simp add: p)
  qed
  then show "timers_ok s'" "first_deadline s' = first_deadline s"
    using k e st by (auto intro!: timers_ok_idle [OF ok, of t s'] simp: m p queues_same_def)
  show "review s t (e, t_cpu (tm s t), TIMER_STATUS_inactive) s'"
    using st by (auto simp: review_def m p tview_def s' state_upd)
qed

text \<open>Moving an inactive timer to another CPU.\<close>

lemma rehome_ok:
  assumes ok: "timers_ok s" and st: "t_status (tm s t) = TIMER_STATUS_inactive"
    and c: "c < TIMER_CPU_status_killed" "c \<noteq> t_cpu (tm s t)"
    and s': "s' = migrate_inactive (t_cpu (tm s t)) c t s"
  shows "timers_ok s'" "first_deadline s' = first_deadline s" "review s t (expires (tm s t), c, TIMER_STATUS_inactive) s'"
proof -
  define o' where "o' = t_cpu (tm s t)"
  have m: "tm s' = (tm s)(t := (tm s t)\<lparr>t_cpu := c\<rparr>)"
    and p: "pcpu s' = (pcpu s)(o' := (pcpu s o')\<lparr>t_inactive := remove1 t (t_inactive (pcpu s o'))\<rparr>,
      c := (pcpu s c)\<lparr>t_inactive := t # t_inactive (pcpu s c)\<rparr>)"
    using c by (auto simp: s' state_upd migrate_inactive_def write_cpu_def o'_def)
  have b: "expires (tm s t) \<le> STIME_MAX" using ok by (simp add: timers_ok_def)
  have "distinct (t_inactive (pcpu s' d)) \<and> set (t_inactive (pcpu s' d)) = sel (tm s') TIMER_STATUS_inactive d" for d
    using inactive_ok [OF ok, of d] inactive_ok [OF ok, of c] st c by (auto simp: m p sel_upd o'_def)
  then show "timers_ok s'" "first_deadline s' = first_deadline s"
    using c b st by (auto intro!: timers_ok_idle [OF ok, of t s'] simp: m p queues_same_def)
  show "review s t (expires (tm s t), c, TIMER_STATUS_inactive) s'"
    using st c by (auto simp: review_def m p tview_def s' state_upd migrate_inactive_def write_cpu_def)
qed

lemma kill_idle_ok:
  assumes ok: "timers_ok s" and st: "t_status (tm s t) = TIMER_STATUS_inactive"
    and s': "s' = upd_tm (list_del_inactive s (t_cpu (tm s t)) t) t
               (\<lambda>r. r\<lparr>t_status := TIMER_STATUS_killed, t_cpu := TIMER_CPU_status_killed\<rparr>)"
  shows "timers_ok s'" "first_deadline s' = first_deadline s"
    "review s t (expires (tm s t), TIMER_CPU_status_killed, TIMER_STATUS_killed) s'"
proof -
  have m: "tm s' = (tm s)(t := (tm s t)\<lparr>t_status := TIMER_STATUS_killed, t_cpu := TIMER_CPU_status_killed\<rparr>)"
    and p: "pcpu s' = (pcpu s)(t_cpu (tm s t) := (pcpu s (t_cpu (tm s t)))\<lparr>t_inactive := remove1 t (t_inactive (pcpu s (t_cpu (tm s t))))\<rparr>)"
    by (simp_all add: s' state_upd)
  have b: "expires (tm s t) \<le> STIME_MAX" using ok by (simp add: timers_ok_def)
  have "distinct (t_inactive (pcpu s' d)) \<and> set (t_inactive (pcpu s' d)) = sel (tm s') TIMER_STATUS_inactive d" for d
    by (rule inactive_del [OF ok _ p]) (auto simp: m sel_def)
  then show "timers_ok s'" "first_deadline s' = first_deadline s"
    using b st by (auto intro!: timers_ok_idle [OF ok, of t s'] simp: m p queues_same_def)
  show "review s t (expires (tm s t), TIMER_CPU_status_killed, TIMER_STATUS_killed) s'"
    by (auto simp: review_def m p tview_def s' state_upd)
qed

section \<open>Activating and deactivating\<close>

lemma raise_ok [simp]:
  "timers_ok (raise_timer_softirq c s) = timers_ok s" "tm (raise_timer_softirq c s) = tm s"
  "pcpu (raise_timer_softirq c s) = pcpu s" "first_deadline (raise_timer_softirq c s) = first_deadline s"
  "timer_softirqs (raise_timer_softirq c s) = timer_softirqs s @ [c]"
  by (auto simp: timers_ok_def raise_timer_softirq_def first_deadline_def fun_eq_iff)

lemma review_raise: "review s t v s' \<Longrightarrow> review s t v (if b then raise_timer_softirq c s' else s')"
  by (auto simp: review_def raise_timer_softirq_def)

lemma armed_review:
  assumes "review s t (e, c, st) s'"
  shows "armed (tm s') d = (if c = d \<and> (st = TIMER_STATUS_in_heap \<or> st = TIMER_STATUS_in_list)
    then insert t (armed (tm s) d) else armed (tm s) d - {t})"
proof (rule set_eqI)
  fix u
  have "tview (tm s' u) = (if u = t then (e, c, st) else tview (tm s u))" using assms by (simp add: review_def)
  then show "u \<in> armed (tm s') d \<longleftrightarrow> u \<in> (if c = d \<and> (st = TIMER_STATUS_in_heap \<or> st = TIMER_STATUS_in_list)
    then insert t (armed (tm s) d) else armed (tm s) d - {t})"
    by (cases "u = t") (auto simp: armed_def tview_def)
qed

lemma expires_review: "review s t (expires (tm s t), c, st) s' \<Longrightarrow> expires (tm s' u) = expires (tm s u)"
  by (cases "u = t") (auto simp: review_def tview_def dest: spec [of _ u])

lemma deadline_dominated:
  assumes ok: "timers_ok s" "timers_ok s'" and ex: "\<And>u. expires (tm s' u) = expires (tm s u)"
    and "armed (tm s') d = armed (tm s) d \<or>
      armed (tm s') d = insert t (armed (tm s) d) \<and> (\<exists>r \<in> armed (tm s) d. expires (tm s r) \<le> expires (tm s t))"
  shows "first_deadline s d = first_deadline s' d"
  using assms(4)
proof
  assume "armed (tm s') d = armed (tm s) d"
  then show ?thesis by (simp add: first_deadline_Min [OF ok(1)] first_deadline_Min [OF ok(2)] ex)
next
  assume a: "armed (tm s') d = insert t (armed (tm s) d) \<and> (\<exists>r \<in> armed (tm s) d. expires (tm s r) \<le> expires (tm s t))"
  then obtain r where "r \<in> armed (tm s) d" "expires (tm s r) \<le> expires (tm s t)" by blast
  with finite_armed [OF timers_okD [OF ok(1)]]
  have "Min (insert STIME_MAX ((\<lambda>u. expires (tm s u)) ` insert t (armed (tm s) d))) =
      Min (insert STIME_MAX ((\<lambda>u. expires (tm s u)) ` armed (tm s) d))" by (rule Min_dominated)
  then show ?thesis using a by (simp add: first_deadline_Min [OF ok(1)] first_deadline_Min [OF ok(2)] ex)
qed

lemma deactivate_timer_ok:
  assumes ok: "timers_ok s" and act: "t_status (tm s t) = TIMER_STATUS_in_heap \<or> t_status (tm s t) = TIMER_STATUS_in_list"
  obtains s' where "deactivate_timer s t = Some s'" "timers_ok s'" "noted s s'"
    "review s t (expires (tm s t), t_cpu (tm s t), TIMER_STATUS_inactive) s'"
proof -
  define c where "c = t_cpu (tm s t)"
  obtain rc s1 where r: "remove_entry s t = Some (rc, s1)" "timers_ok s1" "restatus s t TIMER_STATUS_invalid s1"
    "timer_softirqs s1 = timer_softirqs s" "\<And>d. t_inactive (pcpu s1 d) = t_inactive (pcpu s d)"
    "rc \<or> (\<exists>r \<in> armed (tm s) (t_cpu (tm s t)) - {t}. expires (tm s r) \<le> expires (tm s t))"
    by (fact remove_entry_ok [OF ok act])
  have v1: "review s t (expires (tm s t), c, TIMER_STATUS_invalid) s1"
    unfolding c_def using r(3,4) by (rule review_restatus)
  have t1: "t_status (tm s1 t) = TIMER_STATUS_invalid" "t_cpu (tm s1 t) = c" "expires (tm s1 t) = expires (tm s t)"
    using reviewD [OF v1] by simp_all
  define s2 where "s2 = (if rc then raise_timer_softirq c s1 else s1)"
  have s2: "timers_ok s2" "tm s2 = tm s1" "first_deadline s2 = first_deadline s1" using r(2) by (simp_all add: s2_def)
  define s' where "s' = list_add_inactive (upd_tm s2 t (\<lambda>r. r\<lparr>t_status := TIMER_STATUS_inactive\<rparr>)) (t_cpu (tm s2 t)) t"
  note i = inactivate_ok [OF s2(1) _ s'_def]
  have v2: "review s t (expires (tm s t), c, TIMER_STATUS_invalid) s2" unfolding s2_def using v1 by (rule review_raise)
  have "deactivate_timer s t = Some s'" using r(1) t1 by (simp add: deactivate_timer_def Let_def s'_def s2_def)
  moreover have "timers_ok s'" using i(1) t1 s2(2) by simp
  moreover have "noted s s'" unfolding noted_def
  proof
    fix d
    have "first_deadline s1 d = first_deadline s d" if nrc: "\<not> rc \<or> d \<noteq> c"
    proof (rule deadline_dominated [OF r(2) ok, of _ t])
      show "armed (tm s) d = armed (tm s1) d \<or> armed (tm s) d = insert t (armed (tm s1) d) \<and>
          (\<exists>r' \<in> armed (tm s1) d. expires (tm s1 r') \<le> expires (tm s1 t))"
      proof (cases "d = c")
        case True
        then have "t \<in> armed (tm s) d" using act by (auto simp: armed_def c_def)
        moreover have "\<exists>r' \<in> armed (tm s) d - {t}. expires (tm s r') \<le> expires (tm s t)" using r(6) nrc True by (simp add: c_def)
        ultimately show ?thesis by (simp add: armed_review [OF v1] insert_absorb expires_review [OF v1])
      next
        case False
        then have "t \<notin> armed (tm s) d" by (auto simp: armed_def c_def)
        then show ?thesis by (simp add: armed_review [OF v1])
      qed
    qed (simp add: expires_review [OF v1])
    moreover have "c \<in> set (timer_softirqs s')" if rc using that by (simp add: s'_def s2_def state_upd)
    moreover have "first_deadline s' = first_deadline s1" using i(2) t1 s2 by simp
    ultimately show "first_deadline s' d = first_deadline s d \<or> d \<in> set (timer_softirqs s')" by metis
  qed
  moreover have "review s t (expires (tm s t), t_cpu (tm s t), TIMER_STATUS_inactive) s'"
    using review_trans [OF v2 i(3)] t1 s2(2) by (simp add: c_def)
  ultimately show thesis by (rule that)
qed

lemma activate_timer_ok:
  assumes ok: "timers_ok s" and st: "t_status (tm s t) = TIMER_STATUS_inactive"
  obtains s' st where "activate_timer s t = Some s'" "timers_ok s'" "noted s s'"
    "st = TIMER_STATUS_in_heap \<or> st = TIMER_STATUS_in_list" "review s t (expires (tm s t), t_cpu (tm s t), st) s'"
proof -
  define c where "c = t_cpu (tm s t)"
  define s1 where "s1 = list_del_inactive (upd_tm s t (\<lambda>r. r\<lparr>t_status := TIMER_STATUS_invalid\<rparr>)) (t_cpu (tm s t)) t"
  note u = unlist_ok [OF ok st s1_def]
  have t1: "t_status (tm s1 t) = TIMER_STATUS_invalid" "t_cpu (tm s1 t) = c" "expires (tm s1 t) = expires (tm s t)"
    using reviewD [OF u(3)] by (simp_all add: c_def)
  obtain rc s2 st where a: "add_entry s1 t = Some (rc, s2)" "timers_ok s2"
    "st = TIMER_STATUS_in_heap \<or> st = TIMER_STATUS_in_list" "restatus s1 t st s2"
    "timer_softirqs s2 = timer_softirqs s1" "\<And>d. t_inactive (pcpu s2 d) = t_inactive (pcpu s1 d)"
    "rc \<or> (\<exists>r \<in> armed (tm s1) (t_cpu (tm s1 t)). expires (tm s1 r) \<le> expires (tm s1 t))"
    by (fact add_entry_ok [OF u(1) t1(1)])
  have v2: "review s1 t (expires (tm s1 t), c, st) s2"
    using review_restatus [OF a(4,5)] t1 by simp
  define s' where "s' = (if rc then raise_timer_softirq c s2 else s2)"
  have f: "timers_ok s'" "first_deadline s' = first_deadline s2" using a(2) by (simp_all add: s'_def)
  have "activate_timer s t = Some s'"
    using st a(1) reviewD(2) [OF v2] by (simp add: activate_timer_def s1_def [symmetric] s'_def)
  moreover note f(1)
  moreover have "noted s s'" unfolding noted_def
  proof
    fix d
    have "first_deadline s1 d = first_deadline s2 d" if nrc: "\<not> rc \<or> d \<noteq> c"
    proof (rule deadline_dominated [OF u(1) a(2), of _ t])
      show "armed (tm s2) d = armed (tm s1) d \<or> armed (tm s2) d = insert t (armed (tm s1) d) \<and>
          (\<exists>r' \<in> armed (tm s1) d. expires (tm s1 r') \<le> expires (tm s1 t))"
      proof (cases "d = c")
        case True
        then show ?thesis using a(3,7) nrc t1 by (simp add: armed_review [OF v2])
      next
        case False
        moreover have "t \<notin> armed (tm s1) d" using t1 by (simp add: armed_def)
        ultimately show ?thesis by (simp add: armed_review [OF v2])
      qed
    qed (simp add: expires_review [OF v2])
    moreover have "c \<in> set (timer_softirqs s')" if rc using that by (simp add: s'_def)
    ultimately show "first_deadline s' d = first_deadline s d \<or> d \<in> set (timer_softirqs s')"
      unfolding f(2) using u(2) by metis
  qed
  moreover note a(3)
  moreover have "review s t (expires (tm s t), t_cpu (tm s t), st) s'"
    unfolding s'_def using review_trans [OF u(3) v2] t1(3) by (intro review_raise) (simp add: c_def)
  ultimately show thesis by (rule that)
qed

section \<open>The calls\<close>

datatype timer_call = Init tid nat | Set tid int | Stop tid | Migrate tid nat | Kill tid nat

fun do_call :: "timer_call \<Rightarrow> tstate \<Rightarrow> tstate option" where
  "do_call (Init t c) s = init_timer s t c"
| "do_call (Set t e) s = set_timer s t e"
| "do_call (Stop t) s = stop_timer s t"
| "do_call (Migrate t c) s = migrate_timer s t c"
| "do_call (Kill t this_cpu) s = kill_timer this_cpu s t"

text \<open>
  What the comments of \<^verbatim>\<open>timer.h\<close> ask of a caller: only a new or a killed timer is initialised, and only an initialised one
  is used; CPU numbers are below the reserved one; a call-back does not kill its own timer.
\<close>

fun may_call :: "timer_call \<Rightarrow> tstate \<Rightarrow> bool" where
  "may_call (Init t c) s \<longleftrightarrow> abs_timers s t \<in> {Uninit, Killed} \<and> c < TIMER_CPU_status_killed"
| "may_call (Set t e) s \<longleftrightarrow> abs_timers s t \<noteq> Uninit \<and> e \<le> STIME_MAX"
| "may_call (Stop t) s \<longleftrightarrow> abs_timers s t \<noteq> Uninit"
| "may_call (Migrate t c) s \<longleftrightarrow> abs_timers s t \<noteq> Uninit \<and> c < TIMER_CPU_status_killed"
| "may_call (Kill t this_cpu) s \<longleftrightarrow> abs_timers s t \<noteq> Uninit \<and> t_running (pcpu s this_cpu) \<noteq> Some t"

text \<open>The effect of a call on the one timer it names.\<close>

fun spec_call :: "timer_call \<Rightarrow> (tid \<Rightarrow> atimer) \<Rightarrow> tid \<Rightarrow> atimer" where
  "spec_call (Init t c) A = A(t := Idle c)"
| "spec_call (Set t e) A = A(t := (case A t of Idle c \<Rightarrow> Armed c e | Armed c _ \<Rightarrow> Armed c e | a \<Rightarrow> a))"
| "spec_call (Stop t) A = A(t := (case A t of Armed c _ \<Rightarrow> Idle c | a \<Rightarrow> a))"
| "spec_call (Migrate t d) A = A(t := (case A t of Idle _ \<Rightarrow> Idle d | Armed _ e \<Rightarrow> Armed d e | a \<Rightarrow> a))"
| "spec_call (Kill t _) A = A(t := Killed)"

lemma abs_timers_eq:
  "abs_timers s t = Uninit \<longleftrightarrow> t_status (tm s t) = TIMER_STATUS_invalid"
  "abs_timers s t = Killed \<longleftrightarrow> t_status (tm s t) = TIMER_STATUS_killed"
  "abs_timers s t = Idle c \<longleftrightarrow> t_status (tm s t) = TIMER_STATUS_inactive \<and> t_cpu (tm s t) = c"
  "abs_timers s t = Armed c e \<longleftrightarrow> (t_status (tm s t) = TIMER_STATUS_in_heap \<or> t_status (tm s t) = TIMER_STATUS_in_list) \<and>
     t_cpu (tm s t) = c \<and> expires (tm s t) = e"
  by (cases "t_status (tm s t)"; auto simp: abs_timers_def tview_def)+

text \<open>What a call has to establish.\<close>

definition refines :: "tstate \<Rightarrow> (tid \<Rightarrow> atimer) \<Rightarrow> tstate option \<Rightarrow> bool" where
  "refines s A r \<longleftrightarrow> (\<exists>s'. r = Some s' \<and> timers_ok s' \<and> noted s s' \<and> abs_timers s' = A)"

lemma refines_same: "timers_ok s \<Longrightarrow> A = abs_timers s \<Longrightarrow> refines s A (Some s)"
  by (simp add: refines_def noted_def)

lemma noted_same: "first_deadline s' = first_deadline s \<Longrightarrow> noted s s'"
  by (simp add: noted_def)

lemma killed_unlocked: "timers_ok s \<Longrightarrow> timer_lock s t \<longleftrightarrow> abs_timers s t \<noteq> Killed"
  by (simp add: timer_lock_def cpu_killed abs_timers_eq)

lemma deactivate_if_active_ok:
  assumes ok: "timers_ok s" and st: "abs_timers s t \<noteq> Uninit" "abs_timers s t \<noteq> Killed"
  obtains s' where "deactivate_if_active s t = Some s'" "timers_ok s'" "noted s s'"
    "review s t (expires (tm s t), t_cpu (tm s t), TIMER_STATUS_inactive) s'"
proof (cases "t_status (tm s t) = TIMER_STATUS_in_heap \<or> t_status (tm s t) = TIMER_STATUS_in_list")
  case True
  from ok this obtain s' where d: "deactivate_timer s t = Some s'" "timers_ok s'" "noted s s'"
    "review s t (expires (tm s t), t_cpu (tm s t), TIMER_STATUS_inactive) s'" by (rule deactivate_timer_ok)
  have "deactivate_if_active s t = Some s'"
    using True d(1) by (auto simp: deactivate_if_active_def active_timer_def)
  then show thesis using d(2-4) by (rule that)
next
  case False
  then have "t_status (tm s t) = TIMER_STATUS_inactive"
    using st by (cases "t_status (tm s t)") (auto simp: abs_timers_eq)
  then show thesis using ok by (intro that [of s])
    (auto simp: deactivate_if_active_def active_timer_def noted_def review_def tview_def)
qed

lemma set_timer_ok:
  assumes ok: "timers_ok s" and st: "abs_timers s t \<noteq> Uninit" and e: "e \<le> STIME_MAX"
  shows "refines s (spec_call (Set t e) (abs_timers s)) (set_timer s t e)"
proof (cases "abs_timers s t = Killed")
  case True
  then show ?thesis using ok killed_unlocked [OF ok, of t] by (auto simp: set_timer_def intro!: refines_same)
next
  case False
  from ok st False obtain s1 where d: "deactivate_if_active s t = Some s1" "timers_ok s1" "noted s s1"
    "review s t (expires (tm s t), t_cpu (tm s t), TIMER_STATUS_inactive) s1" by (rule deactivate_if_active_ok)
  define s2 where "s2 = upd_tm s1 t (\<lambda>r. r\<lparr>expires := e\<rparr>)"
  note x = set_expires_ok [OF d(2) reviewD(3) [OF d(4)] e s2_def]
  from x(1) reviewD(3) [OF x(3)] obtain s' st where a: "activate_timer s2 t = Some s'" "timers_ok s'" "noted s2 s'"
    "st = TIMER_STATUS_in_heap \<or> st = TIMER_STATUS_in_list" "review s2 t (expires (tm s2 t), t_cpu (tm s2 t), st) s'"
    by (rule activate_timer_ok)
  have "noted s s'"
    using noted_trans [OF noted_trans [OF d(3) noted_same [OF x(2)] x(3)] a(3,5)] .
  moreover have "review s t (e, t_cpu (tm s t), st) s'"
    using review_trans [OF review_trans [OF d(4) x(3)] a(5)] reviewD [OF x(3)] reviewD [OF d(4)] by simp
  then have "abs_timers s' = (abs_timers s)(t := Armed (t_cpu (tm s t)) e)"
    using a(4) by (auto simp: review_abs)
  moreover have "set_timer s t e = Some s'"
    using False d(1) a(1) by (simp add: set_timer_def killed_unlocked [OF ok] s2_def)
  moreover have "spec_call (Set t e) (abs_timers s) = (abs_timers s)(t := Armed (t_cpu (tm s t)) e)"
    using st False by (cases "t_status (tm s t)") (auto simp: abs_timers_def tview_def)
  ultimately show ?thesis using a(2) by (simp add: refines_def)
qed

lemma stop_timer_ok:
  assumes ok: "timers_ok s" and st: "abs_timers s t \<noteq> Uninit"
  shows "refines s (spec_call (Stop t) (abs_timers s)) (stop_timer s t)"
proof (cases "abs_timers s t = Killed")
  case True
  then show ?thesis using ok killed_unlocked [OF ok, of t] by (auto simp: stop_timer_def intro!: refines_same)
next
  case False
  from ok st False obtain s' where d: "deactivate_if_active s t = Some s'" "timers_ok s'" "noted s s'"
    "review s t (expires (tm s t), t_cpu (tm s t), TIMER_STATUS_inactive) s'" by (rule deactivate_if_active_ok)
  have "spec_call (Stop t) (abs_timers s) = (abs_timers s)(t := Idle (t_cpu (tm s t)))"
    using st False by (cases "t_status (tm s t)") (auto simp: abs_timers_def tview_def)
  then show ?thesis using d review_abs [OF d(4)] False by (simp add: refines_def stop_timer_def killed_unlocked [OF ok])
qed

lemma kill_timer_ok:
  assumes ok: "timers_ok s" and st: "abs_timers s t \<noteq> Uninit" and run: "t_running (pcpu s this) \<noteq> Some t"
  shows "refines s (spec_call (Kill t this) (abs_timers s)) (kill_timer this s t)"
proof (cases "abs_timers s t = Killed")
  case True
  then show ?thesis using ok run killed_unlocked [OF ok, of t] by (auto simp: kill_timer_def intro!: refines_same)
next
  case False
  from ok st False obtain s1 where d: "deactivate_if_active s t = Some s1" "timers_ok s1" "noted s s1"
    "review s t (expires (tm s t), t_cpu (tm s t), TIMER_STATUS_inactive) s1" by (rule deactivate_if_active_ok)
  define s' where "s' = upd_tm (list_del_inactive s1 (t_cpu (tm s1 t)) t) t
      (\<lambda>r. r\<lparr>t_status := TIMER_STATUS_killed, t_cpu := TIMER_CPU_status_killed\<rparr>)"
  note k = kill_idle_ok [OF d(2) reviewD(3) [OF d(4)] s'_def]
  have "kill_timer this s t = Some s'"
    using False run d(1) by (simp add: kill_timer_def killed_unlocked [OF ok] s'_def)
  moreover have "noted s s'" using d(3) noted_same [OF k(2)] k(3) by (rule noted_trans)
  moreover have "abs_timers s' = spec_call (Kill t this) (abs_timers s)"
    using review_abs [OF review_trans [OF d(4) k(3)]] by simp
  ultimately show ?thesis using k(1) by (simp add: refines_def)
qed

lemma init_timer_ok:
  assumes ok: "timers_ok s" and st: "abs_timers s t \<in> {Uninit, Killed}" and c: "c < TIMER_CPU_status_killed"
  shows "refines s (spec_call (Init t c) (abs_timers s)) (init_timer s t c)"
proof -
  define s' where "s' = list_add_inactive (upd_tm s t (\<lambda>_. \<lparr>expires = 0, heap_offset = 0, t_cpu = c mod 65536, t_status = TIMER_STATUS_inactive\<rparr>)) c t"
  have m: "tm s' = (tm s)(t := \<lparr>expires = 0, heap_offset = 0, t_cpu = c, t_status = TIMER_STATUS_inactive\<rparr>)"
    and p: "pcpu s' = (pcpu s)(c := (pcpu s c)\<lparr>t_inactive := t # t_inactive (pcpu s c)\<rparr>)"
    using c by (simp_all add: s'_def state_upd)
  have st': "t_status (tm s t) = TIMER_STATUS_invalid \<or> t_status (tm s t) = TIMER_STATUS_killed"
    using st by (auto simp: abs_timers_eq)
  have "sel (tm s') TIMER_STATUS_inactive d = (if d = c then insert t (sel (tm s) TIMER_STATUS_inactive d) else sel (tm s) TIMER_STATUS_inactive d)" for d
    using st' by (auto simp: sel_def m)
  moreover have "t \<notin> sel (tm s) TIMER_STATUS_inactive d" for d using st' by auto
  ultimately have "distinct (t_inactive (pcpu s' d)) \<and> set (t_inactive (pcpu s' d)) = sel (tm s') TIMER_STATUS_inactive d" for d
    using inactive_ok [OF ok, of d] st' by (cases "d = c") (auto simp: p)
  then have "timers_ok s'" "first_deadline s' = first_deadline s"
    using c st' by (auto intro!: timers_ok_idle [OF ok, of t s'] simp: m p queues_same_def)
  moreover have "abs_timers s' = (abs_timers s)(t := Idle c)" by (auto simp: abs_timers_def m tview_def)
  moreover have "init_timer s t c = Some s'" using c by (simp add: init_timer_def timer_lock_def Let_def s'_def upd_tm_def)
  ultimately show ?thesis by (simp add: refines_def noted_same)
qed

lemma migrate_timer_ok:
  assumes ok: "timers_ok s" and st: "abs_timers s t \<noteq> Uninit" and c: "c < TIMER_CPU_status_killed"
  shows "refines s (spec_call (Migrate t c) (abs_timers s)) (migrate_timer s t c)"
proof (cases "t_cpu (tm s t) = c \<or> t_cpu (tm s t) = TIMER_CPU_status_killed")
  case True
  then have "spec_call (Migrate t c) (abs_timers s) = abs_timers s"
    using cpu_killed [OF ok, of t] by (cases "t_status (tm s t)") (auto simp: abs_timers_def tview_def)
  then show ?thesis using True ok by (auto simp: migrate_timer_def Let_def intro!: refines_same)
next
  case False
  define act where "act \<longleftrightarrow> t_status (tm s t) = TIMER_STATUS_in_heap \<or> t_status (tm s t) = TIMER_STATUS_in_list"
  have nk: "abs_timers s t \<noteq> Killed" using False cpu_killed [OF ok, of t] by (simp add: abs_timers_eq)
  from ok st nk obtain s1 where d: "deactivate_if_active s t = Some s1" "timers_ok s1" "noted s s1"
    "review s t (expires (tm s t), t_cpu (tm s t), TIMER_STATUS_inactive) s1" by (rule deactivate_if_active_ok)
  define s2 where "s2 = migrate_inactive (t_cpu (tm s1 t)) c t s1"
  note r = rehome_ok [OF d(2) reviewD(3) [OF d(4)] c _ s2_def]
  have ne: "c \<noteq> t_cpu (tm s1 t)" using False reviewD(2) [OF d(4)] by simp
  have v2: "review s t (expires (tm s t), c, TIMER_STATUS_inactive) s2" "noted s s2"
    using review_trans [OF d(4) r(3) [OF ne]] reviewD(1) [OF d(4)] noted_trans [OF d(3) noted_same [OF r(2) [OF ne]] r(3) [OF ne]] by simp_all
  have mig: "migrate_timer s t c = (if act then activate_timer s2 t else Some s2)"
    using False d(1) st reviewD(2) [OF d(4)]
    by (auto simp: migrate_timer_def Let_def deactivate_if_active_def active_timer_def act_def s2_def migrate_inactive_def abs_timers_eq)
  show ?thesis
  proof (cases act)
    case True
    from r(1) [OF ne] reviewD(3) [OF v2(1)] obtain s' st where a: "activate_timer s2 t = Some s'" "timers_ok s'" "noted s2 s'"
      "st = TIMER_STATUS_in_heap \<or> st = TIMER_STATUS_in_list" "review s2 t (expires (tm s2 t), t_cpu (tm s2 t), st) s'"
      by (rule activate_timer_ok)
    have "review s t (expires (tm s t), c, st) s'" using review_trans [OF v2(1) a(5)] reviewD [OF v2(1)] by simp
    then have "abs_timers s' = (abs_timers s)(t := Armed c (expires (tm s t)))" using a(4) by (auto simp: review_abs)
    moreover have "spec_call (Migrate t c) (abs_timers s) = (abs_timers s)(t := Armed c (expires (tm s t)))"
      using True by (cases "t_status (tm s t)") (auto simp: abs_timers_def tview_def act_def)
    moreover have "noted s s'" using v2(2) a(3,5) by (rule noted_trans)
    ultimately show ?thesis using a(1,2) True by (simp add: refines_def mig)
  next
    case False
    then have "spec_call (Migrate t c) (abs_timers s) = (abs_timers s)(t := Idle c)"
      using st nk by (cases "t_status (tm s t)") (auto simp: abs_timers_def tview_def act_def)
    then show ?thesis using False v2 r(1) [OF ne] review_abs [OF v2(1)] by (simp add: refines_def mig)
  qed
qed

lemma do_call_ok:
  assumes "timers_ok s" "may_call k s"
  shows "refines s (spec_call k (abs_timers s)) (do_call k s)"
proof (cases k)
  case (Init t c)
  then show ?thesis using init_timer_ok [of s t c] assms by simp
next
  case (Set t e)
  then show ?thesis using set_timer_ok [of s t e] assms by simp
next
  case (Stop t)
  then show ?thesis using stop_timer_ok [of s t] assms by simp
next
  case (Migrate t c)
  then show ?thesis using migrate_timer_ok [of s t c] assms by simp
next
  case (Kill t this)
  then show ?thesis using kill_timer_ok [of s t this] assms by simp
qed

end
