(* ===== verification/Timer_Softirq.thy ===== *)
theory Timer_Softirq
  imports Timer_Ops
begin

text \<open>
  The timer softirq. It keeps the invariant whatever the call-backs do that keeps it;
  with call-backs that leave the timers alone it returns, has run exactly the timers that expired, each queue in
  the order of expiry, and programs the earliest deadline that is left.
\<close>

section \<open>Growing the heap\<close>

lemma grow_heap_fields [simp]:
  "h_size (grow_heap b h) = h_size h" "h_arr (grow_heap b h) = h_arr h" "t_list (grow_heap b h) = t_list h"
  "t_inactive (grow_heap b h) = t_inactive h" "t_running (grow_heap b h) = t_running h"
  by (simp_all add: grow_heap_def SET_HEAP_LIMIT_def)

lemma grow_heap_limit:
  "limit_ok (h_limit h) \<Longrightarrow> limit_ok (h_limit (grow_heap b h)) \<and> h_limit h \<le> h_limit (grow_heap b h)"
  by (auto simp: grow_heap_def SET_HEAP_LIMIT_def limit_ok_def)

lemma grow_heap_ok:
  assumes "timers_ok s"
  shows "timers_ok (upd_cpu s c (grow_heap b))"
proof -
  have "heap_ok (grow_heap b h) m" if "heap_ok h m" for h m
    using that grow_heap_limit [of h b] by (auto simp: heap_ok_def)
  moreover have "heap_set (grow_heap b h) = heap_set h" for h by (simp add: heap_set_def)
  ultimately have "cpu_ok m d (grow_heap b h)" if "cpu_ok m d h" for m d h using that by (simp add: cpu_ok_def)
  then show ?thesis using assms by (simp add: timers_ok_def upd_cpu_def)
qed

section \<open>Running a timer\<close>

lemma timers_ok_running [simp]:
  "timers_ok (upd_cpu s c (\<lambda>ts. ts\<lparr>t_running := r\<rparr>)) = timers_ok s"
  by (auto simp: timers_ok_def upd_cpu_def cpu_ok_def)

text \<open>The state in which the call-back of \<open>t\<close> starts, with \<open>t\<close> taken from its queue.\<close>

definition started :: "tstate \<Rightarrow> nat \<Rightarrow> tid \<Rightarrow> tstate" where
  "started s c t = list_add_inactive (upd_tm s t (\<lambda>r. r\<lparr>t_status := TIMER_STATUS_inactive\<rparr>)) c t"

lemma execute_timer_eq:
  "execute_timer cb c s t = do {
     s2 \<leftarrow> cb t (upd_cpu (started s c t) c (\<lambda>ts. ts\<lparr>t_running := Some t\<rparr>));
     Some (upd_cpu s2 c (\<lambda>ts. ts\<lparr>t_running := None\<rparr>)) }"
  by (simp add: execute_timer_def started_def Let_def)

definition has_run :: "tstate \<Rightarrow> tid set \<Rightarrow> tstate \<Rightarrow> bool" where
  "has_run s T s' \<longleftrightarrow>
     (\<forall>u. tview (tm s' u) = (if u \<in> T then (expires (tm s u), t_cpu (tm s u), TIMER_STATUS_inactive) else tview (tm s u))) \<and>
     timer_slop s' = timer_slop s"

lemma has_run_refl [simp]: "has_run s {} s"
  by (simp add: has_run_def)

lemma has_run_trans: "has_run s T s1 \<Longrightarrow> has_run s1 U s2 \<Longrightarrow> has_run s (T \<union> U) s2"
  by (auto simp: has_run_def tview_def split: if_splits)

lemma has_runD:
  assumes "has_run s T s'"
  shows "expires (tm s' u) = expires (tm s u)" "t_cpu (tm s' u) = t_cpu (tm s u)"
    "t_status (tm s' u) = (if u \<in> T then TIMER_STATUS_inactive else t_status (tm s u))" "timer_slop s' = timer_slop s"
  using assms by (auto simp: has_run_def tview_def split: if_splits dest: spec [of _ u])

text \<open>Taking a timer from its queue and starting it, as the two loops of the softirq do.\<close>

lemma started_ok:
  assumes ok: "timers_ok s" and t: "t_cpu (tm s t) = c" "t_status (tm s t) = TIMER_STATUS_in_heap \<or> t_status (tm s t) = TIMER_STATUS_in_list"
    and rem: "remove_entry s t = Some (rc, upd_tm s0 t (\<lambda>r. r\<lparr>t_status := TIMER_STATUS_invalid\<rparr>))"
  shows "timers_ok (started s0 c t)" "has_run s {t} (started s0 c t)"
    "t_inactive (pcpu (started s0 c t) c) = t # t_inactive (pcpu s c)"
proof -
  define s1 where "s1 = upd_tm s0 t (\<lambda>r. r\<lparr>t_status := TIMER_STATUS_invalid\<rparr>)"
  obtain rc' s' where r: "remove_entry s t = Some (rc', s')" "timers_ok s'" "restatus s t TIMER_STATUS_invalid s'"
    "timer_softirqs s' = timer_softirqs s" "\<And>d. t_inactive (pcpu s' d) = t_inactive (pcpu s d)"
    "rc' \<or> (\<exists>r \<in> armed (tm s) (t_cpu (tm s t)) - {t}. expires (tm s r) \<le> expires (tm s t))"
    by (fact remove_entry_ok [OF ok t(2)])
  have s': "s' = s1" using r(1) rem by (simp add: s1_def)
  note v = restatusD [OF r(3), unfolded s']
  have st: "started s0 c t = list_add_inactive (upd_tm s1 t (\<lambda>r. r\<lparr>t_status := TIMER_STATUS_inactive\<rparr>)) (t_cpu (tm s1 t)) t"
    using v(2) [of t] t(1) by (simp add: started_def s1_def state_upd)
  note i = inactivate_ok [OF r(2) [unfolded s'] v(3) st]
  show "timers_ok (started s0 c t)" by (rule i(1))
  show "has_run s {t} (started s0 c t)"
    using i(3) v by (auto simp: review_def has_run_def tview_def)
  show "t_inactive (pcpu (started s0 c t) c) = t # t_inactive (pcpu s c)"
    using r(5) [of c] v(2) [of t] t(1) unfolding st s' by (simp add: state_upd)
qed

lemma pop_heap_ok:
  assumes ok: "timers_ok s" and ne: "h_size (pcpu s c) \<noteq> 0"
  obtains s0 rc h m where "remove_from_heap (pcpu s c) (tm s) (h_arr (pcpu s c) 1) = Some (rc, h, m)"
    "s0 = (upd_cpu s c (\<lambda>_. h))\<lparr>tm := m\<rparr>" "timers_ok (started s0 c (h_arr (pcpu s c) 1))"
    "has_run s {h_arr (pcpu s c) 1} (started s0 c (h_arr (pcpu s c) 1))"
    "t_inactive (pcpu (started s0 c (h_arr (pcpu s c) 1)) c) = h_arr (pcpu s c) 1 # t_inactive (pcpu s c)"
    "t_list (pcpu (started s0 c (h_arr (pcpu s c) 1)) c) = t_list (pcpu s c)"
proof -
  let ?t = "h_arr (pcpu s c) 1"
  have cok: "cpu_ok (tm s) c (pcpu s c)" using ok by (rule timers_okD)
  have "heap_set (pcpu s c) \<noteq> {}" using ne by (auto simp: heap_set_def heap_elems_def)
  moreover have hok: "heap_ok (pcpu s c) (tm s)" and hs: "heap_set (pcpu s c) = sel (tm s) TIMER_STATUS_in_heap c"
    using cok unfolding cpu_ok_def by blast+
  ultimately have th: "?t \<in> heap_set (pcpu s c)" by (intro heap_root(1))
  then have t: "t_cpu (tm s ?t) = c" "t_status (tm s ?t) = TIMER_STATUS_in_heap" unfolding hs by simp_all
  obtain rc h m where r: "remove_from_heap (pcpu s c) (tm s) ?t = Some (rc, h, m)" "rest_same (pcpu s c) h"
    using remove_from_heap_ok [OF hok th] by blast
  have rem: "remove_entry s ?t = Some (rc, upd_tm ((upd_cpu s c (\<lambda>_. h))\<lparr>tm := m\<rparr>) ?t (\<lambda>r. r\<lparr>t_status := TIMER_STATUS_invalid\<rparr>))"
    using t r(1) by (simp add: remove_entry_def)
  note st = started_ok [OF ok t(1) disjI1 [OF t(2)] rem]
  have "t_list (pcpu (started ((upd_cpu s c (\<lambda>_. h))\<lparr>tm := m\<rparr>) c ?t) c) = t_list (pcpu s c)"
    using r(2) by (simp add: started_def state_upd rest_same_def)
  with r(1) refl st show thesis by (rule that)
qed

lemma pop_list_ok:
  assumes ok: "timers_ok s" and l: "t_list (pcpu s c) = t # ts"
  shows "timers_ok (started (upd_cpu s c (\<lambda>h. h\<lparr>t_list := ts\<rparr>)) c t)"
    "has_run s {t} (started (upd_cpu s c (\<lambda>h. h\<lparr>t_list := ts\<rparr>)) c t)"
    "t_inactive (pcpu (started (upd_cpu s c (\<lambda>h. h\<lparr>t_list := ts\<rparr>)) c t) c) = t # t_inactive (pcpu s c)"
    "t_list (pcpu (started (upd_cpu s c (\<lambda>h. h\<lparr>t_list := ts\<rparr>)) c t) c) = ts"
proof -
  have cok: "cpu_ok (tm s) c (pcpu s c)" using ok by (rule timers_okD)
  have "t \<in> sel (tm s) TIMER_STATUS_in_list c" using cok l by (auto simp: cpu_ok_def)
  then have t: "t_cpu (tm s t) = c" "t_status (tm s t) = TIMER_STATUS_in_list" by auto
  have rem: "remove_entry s t = Some (True, upd_tm (upd_cpu s c (\<lambda>h. h\<lparr>t_list := ts\<rparr>)) t (\<lambda>r. r\<lparr>t_status := TIMER_STATUS_invalid\<rparr>))"
    using t l by (simp add: remove_entry_def)
  note st = started_ok [OF ok t(1) disjI2 [OF t(2)] rem]
  show "timers_ok (started (upd_cpu s c (\<lambda>h. h\<lparr>t_list := ts\<rparr>)) c t)"
    "has_run s {t} (started (upd_cpu s c (\<lambda>h. h\<lparr>t_list := ts\<rparr>)) c t)"
    "t_inactive (pcpu (started (upd_cpu s c (\<lambda>h. h\<lparr>t_list := ts\<rparr>)) c t) c) = t # t_inactive (pcpu s c)"
    by (fact st)+
  show "t_list (pcpu (started (upd_cpu s c (\<lambda>h. h\<lparr>t_list := ts\<rparr>)) c t) c) = ts"
    by (simp add: started_def state_upd)
qed

section \<open>Any call-backs\<close>

text \<open>Call-backs use the timers through their interface, so they keep the invariant.\<close>

definition cb_keeps :: "(tid \<Rightarrow> tstate \<Rightarrow> tstate option) \<Rightarrow> bool" where
  "cb_keeps cb \<longleftrightarrow> (\<forall>t s s'. timers_ok s \<longrightarrow> cb t s = Some s' \<longrightarrow> timers_ok s')"

lemma execute_timer_keeps:
  "cb_keeps cb \<Longrightarrow> timers_ok (started s c t) \<Longrightarrow> execute_timer cb c s t = Some s' \<Longrightarrow> timers_ok s'"
  unfolding execute_timer_eq bind_eq_Some_conv cb_keeps_def by (metis option.inject timers_ok_running)

lemmas run_heap_induct = run_heap.raw_induct [rotated, consumes 1, case_names step]
lemmas run_list_induct = run_list.raw_induct [rotated, consumes 1, case_names step]

lemma run_heap_keeps:
  "run_heap cb c now s = Some s' \<Longrightarrow> cb_keeps cb \<Longrightarrow> timers_ok s \<Longrightarrow> timers_ok s'"
proof (induction rule: run_heap_induct)
  case (step run cb c now s s')
  show ?case
  proof (cases "h_size (pcpu s c) \<noteq> 0 \<and> expires (tm s (h_arr (pcpu s c) 1)) < now")
    case True
    from step.prems(2) conjunct1 [OF True] obtain s0 rc h m where
      r: "remove_from_heap (pcpu s c) (tm s) (h_arr (pcpu s c) 1) = Some (rc, h, m)"
      "s0 = (upd_cpu s c (\<lambda>_. h))\<lparr>tm := m\<rparr>" "timers_ok (started s0 c (h_arr (pcpu s c) 1))"
      "has_run s {h_arr (pcpu s c) 1} (started s0 c (h_arr (pcpu s c) 1))"
      "t_inactive (pcpu (started s0 c (h_arr (pcpu s c) 1)) c) = h_arr (pcpu s c) 1 # t_inactive (pcpu s c)"
      "t_list (pcpu (started s0 c (h_arr (pcpu s c) 1)) c) = t_list (pcpu s c)" by (rule pop_heap_ok)
    from r(1,2) step(2) True obtain s1 where
      "execute_timer cb c s0 (h_arr (pcpu s c) 1) = Some s1" "run cb c now s1 = Some s'"
      by (auto simp: Let_def bind_eq_Some_conv)
    then show ?thesis using step(1) execute_timer_keeps [OF step.prems(1) r(3)] step.prems(1) by blast
  next
    case False
    then have "s' = s" using step(2) by (simp only: Let_def if_False option.inject)
    then show ?thesis using step.prems(2) by simp
  qed
qed

lemma run_list_keeps:
  "run_list cb c now s = Some s' \<Longrightarrow> cb_keeps cb \<Longrightarrow> timers_ok s \<Longrightarrow> timers_ok s'"
proof (induction rule: run_list_induct)
  case (step run cb c now s s')
  show ?case
  proof (cases "t_list (pcpu s c)")
    case (Cons t ts)
    show ?thesis
    proof (cases "expires (tm s t) < now")
      case True
      with step(2) Cons obtain s1 where
        "execute_timer cb c (upd_cpu s c (\<lambda>h. h\<lparr>t_list := ts\<rparr>)) t = Some s1" "run cb c now s1 = Some s'"
        by (auto simp: bind_eq_Some_conv)
      then show ?thesis using step(1) execute_timer_keeps [OF step.prems(1) pop_list_ok(1) [OF step.prems(2) Cons]] step.prems(1)
        by blast
    qed (use step Cons in simp)
  qed (use step in simp)
qed

section \<open>Moving the list back to the heap\<close>

text \<open>
  While the list is re-added its remaining timers are in no queue although their status says so. The loop is described by the
  state in which their status is marked invalid; the queue operations do not read the status of other timers.
\<close>

definition mark :: "tid set \<Rightarrow> (tid \<Rightarrow> timer) \<Rightarrow> tid \<Rightarrow> timer" where
  "mark X m u = (if u \<in> X then (m u)\<lparr>t_status := TIMER_STATUS_invalid\<rparr> else m u)"

definition marked :: "tid set \<Rightarrow> tstate \<Rightarrow> tstate" where
  "marked X s = s\<lparr>tm := mark X (tm s)\<rparr>"

lemma mark_fields [simp]:
  "expires (mark X m u) = expires (m u)" "t_cpu (mark X m u) = t_cpu (m u)" "heap_offset (mark X m u) = heap_offset (m u)"
  by (simp_all add: mark_def)

lemma mark_empty [simp]: "marked {} s = s"
proof -
  have "mark {} (tm s) = tm s" by (simp add: fun_eq_iff mark_def)
  then show ?thesis by (cases s) (simp add: marked_def)
qed

lemma place_mark: "place p t (a, mark X m) = (fst (place p t (a, m)), mark X (snd (place p t (a, m))))"
  by (auto simp: place_def mark_def)

lemma up_loop_mark:
  "up_loop t p (a, mark X m) = (case up_loop t p (a, m) of (p', a', m') \<Rightarrow> (p', a', mark X m'))"
proof (induction t p "(a, m)" arbitrary: a m rule: up_loop.induct)
  case (1 t p a m)
  show ?case
  proof (cases "p > 1 \<and> expires (m t) < expires (m (a (p div 2)))")
    case True
    obtain a1 m1 where 2: "place p (a (p div 2)) (a, m) = (a1, m1)" by (rule prod.exhaust)
    then have 3: "place p (a (p div 2)) (a, mark X m) = (a1, mark X m1)" by (simp add: place_mark)
    have "up_loop t (p div 2) (a1, mark X m1) = (case up_loop t (p div 2) (a1, m1) of (p', a', m') \<Rightarrow> (p', a', mark X m'))"
      using 1 True 2 by simp
    then show ?thesis using True 2 3 by (simp add: up_loop.simps [of t p])
  qed (auto simp: up_loop.simps [of t p])
qed

lemma up_heap_mark: "up_heap p (a, mark X m) = (fst (up_heap p (a, m)), mark X (snd (up_heap p (a, m))))"
proof -
  obtain p' a' m' where "up_loop (a p) p (a, m) = (p', a', m')" by (metis prod.exhaust)
  then show ?thesis by (simp add: up_heap_def Let_def up_loop_mark place_mark)
qed

lemma add_to_heap_mark:
  "add_to_heap h (mark X m) t = (case add_to_heap h m t of (rc, h', m') \<Rightarrow> (rc, h', mark X m'))"
proof -
  let ?n = "Suc (h_size h)"
  obtain a1 m1 where 1: "place ?n t (h_arr h, m) = (a1, m1)" by (rule prod.exhaust)
  obtain a2 m2 where 2: "up_heap ?n (a1, m1) = (a2, m2)" by (rule prod.exhaust)
  have 3: "place ?n t (h_arr h, mark X m) = (a1, mark X m1)" unfolding place_mark 1 by simp
  have 4: "up_heap ?n (a1, mark X m1) = (a2, mark X m2)" unfolding up_heap_mark 2 by simp
  show ?thesis by (simp add: add_to_heap_def Let_def 1 2 3 4)
qed

lemma add_to_list_mark: "add_to_list (mark X m) l t = add_to_list m l t"
  by (induction m l t rule: add_to_list.induct) auto

lemma mark_upd: "t \<notin> X \<Longrightarrow> (mark X m)(t := f (mark X m t)) = mark X (m(t := f (m t)))"
  by (auto simp: mark_def)

lemma add_entry_mark:
  assumes t: "t \<notin> X"
  shows "add_entry (marked X s) t = map_option (\<lambda>(rc, s'). (rc, marked X s')) (add_entry s t)"
proof (cases "t_status (tm s t) = TIMER_STATUS_invalid")
  case True
  have st: "t_status (tm (marked X s) t) = t_status (tm s t)" using t by (simp add: marked_def mark_def)
  let ?f = "\<lambda>r. r\<lparr>heap_offset := 0, t_status := TIMER_STATUS_in_heap\<rparr>"
  obtain rc h m where a: "add_to_heap (pcpu s (t_cpu (tm s t))) ((tm s)(t := ?f (tm s t))) t = (rc, h, m)" by (metis prod.exhaust)
  have a': "add_to_heap (pcpu s (t_cpu (tm s t))) ((mark X (tm s))(t := ?f (mark X (tm s) t))) t = (rc, h, mark X m)"
    unfolding mark_upd [OF t, of "tm s" ?f] add_to_heap_mark a by simp
  note m' = mark_upd [OF t, of m "\<lambda>r. r\<lparr>t_status := TIMER_STATUS_in_list\<rparr>"]
  show ?thesis
    using True st a a' by (auto simp: add_entry_def Let_def upd_tm_def upd_cpu_def marked_def m' add_to_list_mark split: prod.splits)
next
  case False
  then show ?thesis using t by (simp add: add_entry_def marked_def mark_def)
qed

definition readded :: "tstate \<Rightarrow> tid set \<Rightarrow> tstate \<Rightarrow> bool" where
  "readded s X s' \<longleftrightarrow>
     (\<forall>u. expires (tm s' u) = expires (tm s u) \<and> t_cpu (tm s' u) = t_cpu (tm s u) \<and>
       (if u \<in> X then t_status (tm s' u) = TIMER_STATUS_in_heap \<or> t_status (tm s' u) = TIMER_STATUS_in_list
        else t_status (tm s' u) = t_status (tm s u))) \<and>
     timer_slop s' = timer_slop s \<and> (\<forall>d. t_inactive (pcpu s' d) = t_inactive (pcpu s d))"

lemma readd_loop:
  assumes "timers_ok (marked (set xs) s)" "distinct xs"
  shows "\<exists>s'. foldM readd xs s = Some s' \<and> timers_ok s' \<and> readded s (set xs) s'"
  using assms
proof (induction xs arbitrary: s)
  case Nil
  then show ?case by (simp add: readded_def)
next
  case (Cons x xs)
  define s0 where "s0 = upd_tm s x (\<lambda>r. r\<lparr>t_status := TIMER_STATUS_invalid\<rparr>)"
  have x: "x \<notin> set xs" and d: "distinct xs" using Cons.prems(2) by auto
  have eq: "marked (set xs) s0 = marked (set (x # xs)) s" by (auto simp: marked_def mark_def s0_def upd_tm_def fun_eq_iff)
  have mk: "timers_ok (marked (set xs) s0)" "t_status (tm (marked (set xs) s0) x) = TIMER_STATUS_invalid"
    unfolding eq using Cons.prems(1) by (auto simp: marked_def mark_def)
  obtain rc s1' st where a: "add_entry (marked (set xs) s0) x = Some (rc, s1')" "timers_ok s1'"
    "st = TIMER_STATUS_in_heap \<or> st = TIMER_STATUS_in_list" "restatus (marked (set xs) s0) x st s1'"
    "timer_softirqs s1' = timer_softirqs (marked (set xs) s0)"
    "\<And>d. t_inactive (pcpu s1' d) = t_inactive (pcpu (marked (set xs) s0) d)"
    "rc \<or> (\<exists>r \<in> armed (tm (marked (set xs) s0)) (t_cpu (tm (marked (set xs) s0) x)). expires (tm (marked (set xs) s0) r) \<le> expires (tm (marked (set xs) s0) x))"
    by (fact add_entry_ok [OF mk])
  from a(1) obtain s1 where s1: "add_entry s0 x = Some (rc, s1)" "s1' = marked (set xs) s1"
    unfolding add_entry_mark [OF x] by auto
  have "timers_ok (marked (set xs) s1)" using a(2) s1(2) by simp
  from Cons.IH [OF this d] obtain s' where s': "foldM readd xs s1 = Some s'" "timers_ok s'" "readded s1 (set xs) s'" by blast
  have "foldM readd (x # xs) s = Some s'" using s1(1) s'(1) by (simp add: readd_def s0_def)
  moreover have "readded s (set (x # xs)) s'"
  proof -
    note v = restatusD [OF a(4), unfolded s1(2) marked_def s0_def upd_tm_def, simplified]
    have "expires (tm s1 u) = expires (tm s u)" "t_cpu (tm s1 u) = t_cpu (tm s u)" for u
      using v(1,2) [of u] by (auto split: if_splits)
    moreover have "t_status (tm s1 x) = st" using v(3) x by (simp add: mark_def)
    moreover have "t_status (tm s1 u) = t_status (tm s u)" if "u \<notin> set (x # xs)" for u
      using v(4) [of u] that by (simp add: mark_def)
    moreover have "timer_slop s1 = timer_slop s" using v(8) by simp
    moreover have "t_inactive (pcpu s1 d) = t_inactive (pcpu s d)" for d
      using a(6) [of d] by (simp add: s1(2) marked_def s0_def upd_tm_def)
    ultimately show ?thesis using s'(3) a(3) x unfolding readded_def by simp
  qed
  ultimately show ?case using s'(2) by blast
qed

lemma unqueue_ok:
  assumes ok: "timers_ok s"
  shows "timers_ok (marked (set (t_list (pcpu s c))) (upd_cpu s c (\<lambda>h. h\<lparr>t_list := []\<rparr>)))"
proof -
  define l m where "l = t_list (pcpu s c)" and "m = mark (set l) (tm s)"
  have cok: "cpu_ok (tm s) d (pcpu s d)" for d using ok by (rule timers_okD)
  have l: "set l = sel (tm s) TIMER_STATUS_in_list c" using cok [of c] by (simp add: cpu_ok_def l_def)
  have st: "t_status (m u) = (if u \<in> sel (tm s) TIMER_STATUS_in_list c then TIMER_STATUS_invalid else t_status (tm s u))" for u
    by (simp add: m_def mark_def l)
  have sel: "sel m TIMER_STATUS_in_heap c = sel (tm s) TIMER_STATUS_in_heap c" "sel m TIMER_STATUS_in_list c = {}"
    "sel m TIMER_STATUS_inactive c = sel (tm s) TIMER_STATUS_inactive c"
    using st by (auto simp: sel_def m_def split: if_splits)
  have hp: "heap_ok h m = heap_ok h (tm s)" for h by (rule heap_ok_cong) (simp add: m_def)
  have new: "cpu_ok m c ((pcpu s c)\<lparr>t_list := []\<rparr>)"
    using cok [of c] unfolding cpu_ok_def by (simp add: sel hp list_ok_def)
  have old: "cpu_ok m d (pcpu s d)" if "d \<noteq> c" for d
  proof (rule cpu_ok_frame [OF cok])
    show "m t = tm s t" if t: "t_cpu (tm s t) = d \<or> t_cpu (m t) = d" for t
    proof -
      have "t \<notin> set l" using t \<open>d \<noteq> c\<close> unfolding l by (auto simp: m_def)
      then show ?thesis by (simp add: m_def mark_def)
    qed
  qed
  have "t_status (m t) = TIMER_STATUS_killed \<longleftrightarrow> t_cpu (m t) = TIMER_CPU_status_killed" "expires (m t) \<le> STIME_MAX" for t
    using cpu_killed [OF ok, of t] ok by (auto simp: st) (auto simp: m_def timers_ok_def)
  with new old show ?thesis
    by (auto simp: timers_ok_def marked_def upd_cpu_def l_def [symmetric] m_def [symmetric])
qed

lemma softirq_tail:
  assumes ok: "timers_ok s"
  obtains s' where "foldM readd (t_list (pcpu s c)) (upd_cpu s c (\<lambda>h. h\<lparr>t_list := []\<rparr>)) = Some s'" "timers_ok s'"
    "readded s (set (t_list (pcpu s c))) s'"
proof -
  have "distinct (t_list (pcpu s c))" using timers_okD [OF ok, of c] by (simp add: cpu_ok_def list_ok_def)
  from readd_loop [OF unqueue_ok [OF ok] this] obtain s' where
    "foldM readd (t_list (pcpu s c)) (upd_cpu s c (\<lambda>h. h\<lparr>t_list := []\<rparr>)) = Some s'" "timers_ok s'"
    "readded (upd_cpu s c (\<lambda>h. h\<lparr>t_list := []\<rparr>)) (set (t_list (pcpu s c))) s'" by blast
  moreover have "readded (upd_cpu s c (\<lambda>h. h\<lparr>t_list := []\<rparr>)) X s' = readded s X s'" for X
  proof -
    have "tm (upd_cpu s c (\<lambda>h. h\<lparr>t_list := []\<rparr>)) = tm s" "timer_slop (upd_cpu s c (\<lambda>h. h\<lparr>t_list := []\<rparr>)) = timer_slop s"
      "t_inactive (pcpu (upd_cpu s c (\<lambda>h. h\<lparr>t_list := []\<rparr>)) d) = t_inactive (pcpu s d)" for d
      by (simp_all add: upd_cpu_def)
    then show ?thesis unfolding readded_def by simp
  qed
  ultimately show thesis by (intro that) simp_all
qed

lemma timers_ok_deadline [simp]: "timers_ok (s\<lparr>timer_deadline := f\<rparr>) = timers_ok s"
  by (simp add: timers_ok_def)

lemma softirq_keeps:
  assumes "cb_keeps cb" "timers_ok s" "timer_softirq_action cb b now rp c s = Some s'"
  shows "timers_ok s'"
proof -
  from assms(3) obtain s1 s2 s3 where r: "run_heap cb c now (upd_cpu s c (grow_heap b)) = Some s1" "run_list cb c now s1 = Some s2"
    "foldM readd (t_list (pcpu s2 c)) (upd_cpu s2 c (\<lambda>h. h\<lparr>t_list := []\<rparr>)) = Some s3"
    and s': "timers_ok s' = timers_ok s3"
    by (auto simp: timer_softirq_action_def Let_def bind_eq_Some_conv)
  have "timers_ok s2"
    using run_list_keeps [OF r(2) assms(1) run_heap_keeps [OF r(1) assms(1) grow_heap_ok [OF assms(2)]]] .
  then obtain s3' where "foldM readd (t_list (pcpu s2 c)) (upd_cpu s2 c (\<lambda>h. h\<lparr>t_list := []\<rparr>)) = Some s3'" "timers_ok s3'"
    "readded s2 (set (t_list (pcpu s2 c))) s3'" by (rule softirq_tail)
  then show ?thesis using r(3) s' by simp
qed

section \<open>Call-backs that leave the timers alone\<close>

definition cb_quiet :: "tid \<Rightarrow> tstate \<Rightarrow> tstate option" where
  "cb_quiet t s = Some s"

lemma execute_quiet:
  assumes "timers_ok (started s0 c t)" "has_run s T (started s0 c t)"
  obtains s1 where "execute_timer cb_quiet c s0 t = Some s1" "timers_ok s1" "has_run s T s1"
    "t_inactive (pcpu s1 c) = t_inactive (pcpu (started s0 c t) c)" "t_list (pcpu s1 c) = t_list (pcpu (started s0 c t) c)"
proof
  let ?s = "upd_cpu (upd_cpu (started s0 c t) c (\<lambda>ts. ts\<lparr>t_running := Some t\<rparr>)) c (\<lambda>ts. ts\<lparr>t_running := None\<rparr>)"
  show "execute_timer cb_quiet c s0 t = Some ?s" by (simp add: execute_timer_eq cb_quiet_def)
  show "timers_ok ?s" using assms(1) by simp
  show "has_run s T ?s" using assms(2) by (simp add: has_run_def upd_cpu_def)
qed (simp_all add: upd_cpu_def)

lemma card_heap: "cpu_ok m c h \<Longrightarrow> finite (sel m TIMER_STATUS_in_heap c)"
  using finite_armed [of m c h] by (auto simp: armed_def)

lemma run_heap_quiet:
  assumes "timers_ok s"
  shows "\<exists>s' ts. run_heap cb_quiet c now s = Some s' \<and> timers_ok s' \<and> has_run s (set ts) s' \<and>
    set ts = {t \<in> sel (tm s) TIMER_STATUS_in_heap c. expires (tm s t) < now} \<and>
    sorted (map (\<lambda>t. expires (tm s t)) ts) \<and>
    t_inactive (pcpu s' c) = rev ts @ t_inactive (pcpu s c) \<and> t_list (pcpu s' c) = t_list (pcpu s c)"
  using assms
proof (induction "card (sel (tm s) TIMER_STATUS_in_heap c)" arbitrary: s rule: less_induct)
  case less
  let ?t = "h_arr (pcpu s c) 1" and ?H = "sel (tm s) TIMER_STATUS_in_heap c"
  have cok: "cpu_ok (tm s) c (pcpu s c)" using less.prems by (rule timers_okD)
  then have hs: "heap_set (pcpu s c) = ?H" and hok: "heap_ok (pcpu s c) (tm s)" unfolding cpu_ok_def by blast+
  show ?case
  proof (cases "h_size (pcpu s c) \<noteq> 0 \<and> expires (tm s ?t) < now")
    case True
    from less.prems conjunct1 [OF True] obtain s0 rc h m where
      r: "remove_from_heap (pcpu s c) (tm s) ?t = Some (rc, h, m)" "s0 = (upd_cpu s c (\<lambda>_. h))\<lparr>tm := m\<rparr>"
      "timers_ok (started s0 c ?t)" "has_run s {?t} (started s0 c ?t)"
      "t_inactive (pcpu (started s0 c ?t) c) = ?t # t_inactive (pcpu s c)"
      "t_list (pcpu (started s0 c ?t) c) = t_list (pcpu s c)" by (rule pop_heap_ok)
    from r(3,4) obtain s1 where e: "execute_timer cb_quiet c s0 ?t = Some s1" "timers_ok s1" "has_run s {?t} s1"
      "t_inactive (pcpu s1 c) = t_inactive (pcpu (started s0 c ?t) c)" "t_list (pcpu s1 c) = t_list (pcpu (started s0 c ?t) c)"
      by (rule execute_quiet)
    have "heap_set (pcpu s c) \<noteq> {}" using True by (auto simp: heap_set_def heap_elems_def)
    note root = heap_root [OF hok this, unfolded hs]
    have H1: "sel (tm s1) TIMER_STATUS_in_heap c = ?H - {?t}" by (auto simp: sel_def has_runD [OF e(3)])
    have "card (?H - {?t}) < card ?H" using root(1) card_heap [OF cok] by (rule card_Diff1_less [rotated])
    from less.hyps [OF this [folded H1] e(2)] obtain s' ts where i: "run_heap cb_quiet c now s1 = Some s'" "timers_ok s'"
      "has_run s1 (set ts) s'" "set ts = {t \<in> ?H - {?t}. expires (tm s1 t) < now}"
      "sorted (map (\<lambda>t. expires (tm s1 t)) ts)" "t_inactive (pcpu s' c) = rev ts @ t_inactive (pcpu s1 c)"
      "t_list (pcpu s' c) = t_list (pcpu s1 c)" unfolding H1 by blast
    have "run_heap cb_quiet c now s = Some s'" using True r(1,2) e(1) i(1) by (simp add: run_heap.simps [of _ c now s])
    moreover have "has_run s (set (?t # ts)) s'" using has_run_trans [OF e(3) i(3)] by simp
    moreover have "set (?t # ts) = {t \<in> ?H. expires (tm s t) < now}"
      using i(4) True root(1) by (auto simp: has_runD [OF e(3)])
    moreover have "sorted (map (\<lambda>t. expires (tm s t)) (?t # ts))"
      using i(4,5) root(2) by (simp add: has_runD [OF e(3)])
    moreover have "t_inactive (pcpu s' c) = rev (?t # ts) @ t_inactive (pcpu s c)" using i(6) e(4) r(5) by simp
    moreover have "t_list (pcpu s' c) = t_list (pcpu s c)" using i(7) e(5) r(6) by simp
    ultimately show ?thesis using i(2) by blast
  next
    case False
    have "{t \<in> ?H. expires (tm s t) < now} = {}"
      using hq.none_expired [OF hok, of now] False unfolding hs [symmetric] by (auto simp: heap_set_def heap_elems_def)
    moreover have "run_heap cb_quiet c now s = Some s" using False by (subst run_heap.simps) (simp only: Let_def if_False)
    ultimately show ?thesis using less.prems by (intro exI [of _ s] exI [of _ "[]"]) simp
  qed
qed

lemma run_list_quiet:
  assumes "timers_ok s"
  shows "\<exists>s' ts. run_list cb_quiet c now s = Some s' \<and> timers_ok s' \<and> has_run s (set ts) s' \<and>
    set ts = {t \<in> sel (tm s) TIMER_STATUS_in_list c. expires (tm s t) < now} \<and>
    sorted (map (\<lambda>t. expires (tm s t)) ts) \<and>
    t_inactive (pcpu s' c) = rev ts @ t_inactive (pcpu s c)"
  using assms
proof (induction "t_list (pcpu s c)" arbitrary: s)
  case Nil
  then have "sel (tm s) TIMER_STATUS_in_list c = {}" using timers_okD [OF Nil(2), of c] by (simp add: cpu_ok_def)
  then show ?case using Nil by (intro exI [of _ s] exI [of _ "[]"]) (simp add: run_list.simps [of _ c now s])
next
  case (Cons t l)
  have cok: "cpu_ok (tm s) c (pcpu s c)" using Cons.prems by (rule timers_okD)
  then have L: "sel (tm s) TIMER_STATUS_in_list c = insert t (set l)" and lok: "list_ok (tm s) (t # l)"
    using Cons.hyps(2) unfolding cpu_ok_def by (metis list.simps(15))+
  then have t: "\<forall>u \<in> set l. expires (tm s t) \<le> expires (tm s u)" "t \<notin> set l" by (auto simp: list_ok_def)
  show ?case
  proof (cases "expires (tm s t) < now")
    case True
    note r = pop_list_ok [OF Cons.prems Cons.hyps(2) [symmetric]]
    define s0 where "s0 = upd_cpu s c (\<lambda>h. h\<lparr>t_list := l\<rparr>)"
    from r(1,2) obtain s1 where e: "execute_timer cb_quiet c s0 t = Some s1" "timers_ok s1" "has_run s {t} s1"
      "t_inactive (pcpu s1 c) = t_inactive (pcpu (started s0 c t) c)" "t_list (pcpu s1 c) = t_list (pcpu (started s0 c t) c)"
      unfolding s0_def by (rule execute_quiet)
    have L1: "sel (tm s1) TIMER_STATUS_in_list c = set l"
      using L t(2) by (auto simp: sel_def has_runD [OF e(3)] set_eq_iff)
    have "l = t_list (pcpu s1 c)" using e(5) r(4) by (simp add: s0_def)
    from Cons.hyps(1) [OF this e(2)] obtain s' ts where i: "run_list cb_quiet c now s1 = Some s'" "timers_ok s'"
      "has_run s1 (set ts) s'" "set ts = {t \<in> set l. expires (tm s1 t) < now}"
      "sorted (map (\<lambda>t. expires (tm s1 t)) ts)" "t_inactive (pcpu s' c) = rev ts @ t_inactive (pcpu s1 c)"
      unfolding L1 by blast
    have "run_list cb_quiet c now s = Some s'"
      using True e(1) i(1) by (simp add: run_list.simps [of _ c now s] Cons.hyps(2) [symmetric] s0_def)
    moreover have "has_run s (set (t # ts)) s'" using has_run_trans [OF e(3) i(3)] by simp
    moreover have "set (t # ts) = {t \<in> sel (tm s) TIMER_STATUS_in_list c. expires (tm s t) < now}"
      using i(4) True unfolding L by (auto simp: has_runD [OF e(3)])
    moreover have "sorted (map (\<lambda>t. expires (tm s t)) (t # ts))"
      using i(4,5) t(1) by (simp add: has_runD [OF e(3)])
    moreover have "t_inactive (pcpu s' c) = rev (t # ts) @ t_inactive (pcpu s c)" using i(6) e(4) r(3) by (simp add: s0_def)
    ultimately show ?thesis using i(2) by blast
  next
    case False
    then have "{u \<in> sel (tm s) TIMER_STATUS_in_list c. expires (tm s u) < now} = {}" using t(1) unfolding L by auto
    moreover have "run_list cb_quiet c now s = Some s" using False by (subst run_list.simps) (simp add: Cons.hyps(2) [symmetric])
    ultimately show ?thesis using Cons.prems by (intro exI [of _ s] exI [of _ "[]"]) simp
  qed
qed

fun expire :: "nat \<Rightarrow> int \<Rightarrow> atimer \<Rightarrow> atimer" where
  "expire c now (Armed d e) = (if d = c \<and> e < now then Idle d else Armed d e)"
| "expire c now a = a"

lemma has_run_abs:
  assumes "has_run s T s'" "T \<subseteq> {t. \<exists>e. abs_timers s t = Armed c e}"
  shows "abs_timers s' t = (if t \<in> T then Idle c else abs_timers s t)"
proof -
  have "tview (tm s' t) = (if t \<in> T then (expires (tm s t), t_cpu (tm s t), TIMER_STATUS_inactive) else tview (tm s t))"
    using assms(1) by (simp add: has_run_def)
  moreover have "t_cpu (tm s t) = c" if "t \<in> T" using assms(2) that by (auto simp: abs_timers_eq)
  ultimately show ?thesis by (simp add: abs_timers_def)
qed

lemma readded_abs:
  assumes "readded s (set (t_list (pcpu s c))) s'" "timers_ok s"
  shows "abs_timers s' = abs_timers s"
proof
  fix t
  have "t_status (tm s t) = TIMER_STATUS_in_list" if "t \<in> set (t_list (pcpu s c))"
    using timers_okD [OF assms(2), of c] that by (auto simp: cpu_ok_def)
  moreover have v: "expires (tm s' t) = expires (tm s t)" "t_cpu (tm s' t) = t_cpu (tm s t)"
    "if t \<in> set (t_list (pcpu s c)) then t_status (tm s' t) = TIMER_STATUS_in_heap \<or> t_status (tm s' t) = TIMER_STATUS_in_list
     else t_status (tm s' t) = t_status (tm s t)" using assms(1) unfolding readded_def by blast+
  ultimately show "abs_timers s' t = abs_timers s t"
    by (cases "t \<in> set (t_list (pcpu s c))") (auto simp: abs_timers_def tview_def)
qed

lemma softirq_quiet:
  assumes ok: "timers_ok s"
  shows "\<exists>s' hs ls. timer_softirq_action cb_quiet b now rp c s = Some s' \<and> timers_ok s' \<and>
    (\<forall>t. abs_timers s' t = expire c now (abs_timers s t)) \<and>
    t_inactive (pcpu s' c) = rev (hs @ ls) @ t_inactive (pcpu s c) \<and>
    sorted (map (\<lambda>t. expires (tm s t)) hs) \<and> sorted (map (\<lambda>t. expires (tm s t)) ls) \<and>
    timer_deadline s' c = (if first_deadline s' c = STIME_MAX then 0 else first_deadline s' c + timer_slop s) \<and>
    (rp (timer_deadline s' c) \<or> c \<in> set (timer_softirqs s'))"
proof -
  let ?s = "upd_cpu s c (grow_heap b)"
  have f: "tm ?s = tm s" "t_inactive (pcpu ?s c) = t_inactive (pcpu s c)" "timer_slop ?s = timer_slop s" by (simp_all add: upd_cpu_def)
  obtain s1 hs where h: "run_heap cb_quiet c now ?s = Some s1" "timers_ok s1" "has_run ?s (set hs) s1"
    "set hs = {t \<in> sel (tm s) TIMER_STATUS_in_heap c. expires (tm s t) < now}" "sorted (map (\<lambda>t. expires (tm s t)) hs)"
    "t_inactive (pcpu s1 c) = rev hs @ t_inactive (pcpu s c)"
    using run_heap_quiet [OF grow_heap_ok [OF ok], of c now c b] unfolding f by blast
  note v1 = has_runD [OF h(3), unfolded f]
  have sel1: "sel (tm s1) TIMER_STATUS_in_list c = sel (tm s) TIMER_STATUS_in_list c" using h(4) by (auto simp: sel_def v1)
  obtain s2 ls where l: "run_list cb_quiet c now s1 = Some s2" "timers_ok s2" "has_run s1 (set ls) s2"
    "set ls = {t \<in> sel (tm s) TIMER_STATUS_in_list c. expires (tm s t) < now}" "sorted (map (\<lambda>t. expires (tm s t)) ls)"
    "t_inactive (pcpu s2 c) = rev ls @ t_inactive (pcpu s1 c)"
    using run_list_quiet [OF h(2), of c now] unfolding sel1 v1 by blast
  from l(2) obtain s3 where r: "foldM readd (t_list (pcpu s2 c)) (upd_cpu s2 c (\<lambda>h. h\<lparr>t_list := []\<rparr>)) = Some s3" "timers_ok s3"
    "readded s2 (set (t_list (pcpu s2 c))) s3" by (rule softirq_tail)
  define dl where "dl = (if first_deadline s3 c = STIME_MAX then 0 else first_deadline s3 c + timer_slop s3)"
  define s4 where "s4 = s3\<lparr>timer_deadline := (timer_deadline s3)(c := dl)\<rparr>"
  define s' where "s' = (if rp dl then s4 else raise_timer_softirq c s4)"
  have "timer_softirq_action cb_quiet b now rp c s = Some s'"
    using h(1) l(1) r(1) by (simp add: timer_softirq_action_def Let_def s'_def s4_def dl_def first_deadline_def)
  moreover have "timers_ok s'" using r(2) by (simp add: s'_def s4_def)
  moreover have "abs_timers s' t = expire c now (abs_timers s t)" for t
  proof -
    have abs: "abs_timers s' = abs_timers s3" by (auto simp: s'_def s4_def abs_timers_def raise_timer_softirq_def)
    have hr: "has_run ?s (set hs \<union> set ls) s2" using h(3) l(3) by (rule has_run_trans)
    have abs0: "abs_timers ?s = abs_timers s" by (auto simp: abs_timers_def upd_cpu_def)
    have "set hs \<union> set ls \<subseteq> {t. \<exists>e. abs_timers ?s t = Armed c e}"
      unfolding abs0 h(4) l(4) by (auto simp: abs_timers_eq)
    then have "abs_timers s2 t = (if t \<in> set hs \<union> set ls then Idle c else abs_timers s t)"
      using has_run_abs [OF hr, of c t] unfolding abs0 by blast
    moreover have "abs_timers s3 = abs_timers s2" using r(3) l(2) by (rule readded_abs)
    ultimately show ?thesis unfolding abs using h(4) l(4)
      by (cases "t_status (tm s t)") (auto simp: abs_timers_def tview_def)
  qed
  moreover have "t_inactive (pcpu s' c) = rev (hs @ ls) @ t_inactive (pcpu s c)"
  proof -
    have "t_inactive (pcpu s3 c) = t_inactive (pcpu s2 c)" using r(3) by (simp add: readded_def)
    then show ?thesis using l(6) h(6) by (simp add: s'_def s4_def)
  qed
  moreover have "timer_deadline s' c = dl" "first_deadline s' = first_deadline s3"
    by (auto simp: s'_def s4_def first_deadline_def raise_timer_softirq_def)
  moreover have "timer_slop s3 = timer_slop s"
    using r(3) has_runD(4) [OF l(3)] v1(4) by (simp add: readded_def)
  moreover have "rp dl \<or> c \<in> set (timer_softirqs s')" by (simp add: s'_def)
  ultimately show ?thesis using h(5) l(5) by (intro exI [of _ s'] exI [of _ hs] exI [of _ ls]) (simp add: dl_def)
qed

end
