(* ===== verification/Timer_Hotplug.thy ===== *)
theory Timer_Hotplug
  imports Timer_Softirq
begin

text \<open>
  CPU hot-plug for the timers of \<^verbatim>\<open>xen/common/timer.c\<close>: taking a CPU down moves all of its timers, active and inactive,
  to another one, and a CPU that comes up starts with empty queues. The calls, the softirq and hot-plug together are
  a transition system whose reachable states satisfy the invariant.
\<close>

section \<open>CPU hot-plug\<close>

fun moved :: "nat \<Rightarrow> nat \<Rightarrow> atimer \<Rightarrow> atimer" where
  "moved old_cpu new_cpu (Armed d e) = Armed (if d = old_cpu then new_cpu else d) e"
| "moved old_cpu new_cpu (Idle d) = Idle (if d = old_cpu then new_cpu else d)"
| "moved old_cpu new_cpu a = a"

lemma write_cpu_ok:
  assumes ok: "timers_ok s" and st: "t_status (tm s t) = TIMER_STATUS_invalid" and c: "c < TIMER_CPU_status_killed"
    and s': "s' = upd_tm s t (write_cpu c)"
  shows "timers_ok s'" "review s t (expires (tm s t), c, TIMER_STATUS_invalid) s'"
proof -
  have m: "tm s' = (tm s)(t := (tm s t)\<lparr>t_cpu := c\<rparr>)" and p: "pcpu s' = pcpu s" using c by (simp_all add: s' state_upd write_cpu_def)
  have "sel (tm s') TIMER_STATUS_inactive d = sel (tm s) TIMER_STATUS_inactive d" for d using st by (auto simp: sel_def m)
  then have "distinct (t_inactive (pcpu s' d)) \<and> set (t_inactive (pcpu s' d)) = sel (tm s') TIMER_STATUS_inactive d" for d
    using inactive_ok [OF ok, of d] by (simp add: p)
  moreover have "expires (tm s t) \<le> STIME_MAX" using ok by (simp add: timers_ok_def)
  ultimately show "timers_ok s'" using c st by (auto intro!: timers_ok_idle(1) [OF ok, of t s'] simp: m p queues_same_def)
  show "review s t (expires (tm s t), c, TIMER_STATUS_invalid) s'"
    using c st by (auto simp: review_def m p tview_def s' state_upd write_cpu_def)
qed

lemma migrate_one:
  assumes ok: "timers_ok s" and t: "t \<in> armed (tm s) old_cpu" and c: "new_cpu < TIMER_CPU_status_killed"
  obtains rc0 s1 rc s2 st where "remove_entry s t = Some (rc0, s1)" "add_entry (upd_tm s1 t (write_cpu new_cpu)) t = Some (rc, s2)"
    "timers_ok s2" "st = TIMER_STATUS_in_heap \<or> st = TIMER_STATUS_in_list" "review s t (expires (tm s t), new_cpu, st) s2"
    "\<forall>d. t_inactive (pcpu s2 d) = t_inactive (pcpu s d)"
proof -
  have act: "t_status (tm s t) = TIMER_STATUS_in_heap \<or> t_status (tm s t) = TIMER_STATUS_in_list" using t by (auto simp: armed_def)
  obtain rc0 s1 where r: "remove_entry s t = Some (rc0, s1)" "timers_ok s1" "restatus s t TIMER_STATUS_invalid s1"
    "timer_softirqs s1 = timer_softirqs s" "\<And>d. t_inactive (pcpu s1 d) = t_inactive (pcpu s d)"
    "rc0 \<or> (\<exists>r \<in> armed (tm s) (t_cpu (tm s t)) - {t}. expires (tm s r) \<le> expires (tm s t))"
    by (fact remove_entry_ok [OF ok act])
  have v1: "review s t (expires (tm s t), t_cpu (tm s t), TIMER_STATUS_invalid) s1" using r(3,4) by (rule review_restatus)
  define s1' where "s1' = upd_tm s1 t (write_cpu new_cpu)"
  note w = write_cpu_ok [OF r(2) reviewD(3) [OF v1] c s1'_def]
  obtain rc s2 st where a: "add_entry s1' t = Some (rc, s2)" "timers_ok s2"
    "st = TIMER_STATUS_in_heap \<or> st = TIMER_STATUS_in_list" "restatus s1' t st s2"
    "timer_softirqs s2 = timer_softirqs s1'" "\<And>d. t_inactive (pcpu s2 d) = t_inactive (pcpu s1' d)"
    "rc \<or> (\<exists>r \<in> armed (tm s1') (t_cpu (tm s1' t)). expires (tm s1' r) \<le> expires (tm s1' t))"
    by (fact add_entry_ok [OF w(1) reviewD(3) [OF w(2)]])
  have v: "review s t (expires (tm s t), new_cpu, st) s2"
    using review_trans [OF review_trans [OF v1 w(2)] review_restatus [OF a(4,5)]] reviewD [OF w(2)] reviewD [OF v1] by simp
  have "\<forall>d. t_inactive (pcpu s2 d) = t_inactive (pcpu s d)" using a(6) r(5) by (simp add: s1'_def upd_tm_def)
  with r(1) a(1) [unfolded s1'_def] a(2,3) v show thesis by (rule that)
qed

lemma migrate_active_ok:
  assumes "timers_ok s" and ne: "old_cpu \<noteq> new_cpu" and c: "new_cpu < TIMER_CPU_status_killed"
  shows "\<exists>n s'. migrate_active old_cpu new_cpu b s = Some (n, s') \<and> timers_ok s' \<and>
    (\<forall>u. abs_timers s' u = (case abs_timers s u of Armed d e \<Rightarrow> moved old_cpu new_cpu (Armed d e) | a \<Rightarrow> a)) \<and>
    (\<forall>d. t_inactive (pcpu s' d) = t_inactive (pcpu s d))"
  using assms(1)
proof (induction "card (armed (tm s) old_cpu)" arbitrary: s b rule: less_induct)
  case less
  have cok: "cpu_ok (tm s) old_cpu (pcpu s old_cpu)" using less.prems by (rule timers_okD)
  define pick where "pick = (if h_size (pcpu s old_cpu) \<noteq> 0 then Some (h_arr (pcpu s old_cpu) 1)
    else (case t_list (pcpu s old_cpu) of [] \<Rightarrow> None | t # _ \<Rightarrow> Some t))"
  have arm: "armed (tm s) old_cpu = heap_set (pcpu s old_cpu) \<union> set (t_list (pcpu s old_cpu))"
    using cok unfolding cpu_ok_def armed_def by simp
  have hs: "heap_set (pcpu s old_cpu) = {} \<longleftrightarrow> h_size (pcpu s old_cpu) = 0" by (auto simp: heap_set_def heap_elems_def)
  have hok: "heap_ok (pcpu s old_cpu) (tm s)" using cok by (simp add: cpu_ok_def)
  show ?case
  proof (cases pick)
    case None
    then have "armed (tm s) old_cpu = {}" using hs unfolding arm pick_def by (auto split: if_splits list.splits)
    then have "abs_timers s u \<noteq> Armed old_cpu e" for u e by (auto simp: abs_timers_eq armed_def sel_def)
    then have "abs_timers s u = (case abs_timers s u of Armed d e \<Rightarrow> moved old_cpu new_cpu (Armed d e) | a \<Rightarrow> a)" for u
      by (auto split: atimer.splits)
    moreover have "migrate_active old_cpu new_cpu b s = Some (b, s)"
      using None unfolding pick_def by (subst migrate_active.simps) (simp add: Let_def)
    ultimately show ?thesis using less.prems by blast
  next
    case (Some t)
    have t: "t \<in> armed (tm s) old_cpu"
      using Some heap_root(1) [OF hok] hs unfolding arm pick_def by (auto split: if_splits list.splits)
    from less.prems t c obtain rc0 s1 rc s2 st where o: "remove_entry s t = Some (rc0, s1)"
      "add_entry (upd_tm s1 t (write_cpu new_cpu)) t = Some (rc, s2)" "timers_ok s2"
      "st = TIMER_STATUS_in_heap \<or> st = TIMER_STATUS_in_list" "review s t (expires (tm s t), new_cpu, st) s2"
      "\<forall>d. t_inactive (pcpu s2 d) = t_inactive (pcpu s d)" by (rule migrate_one)
    have a2: "armed (tm s2) old_cpu = armed (tm s) old_cpu - {t}" using ne by (simp add: armed_review [OF o(5)])
    have "card (armed (tm s2) old_cpu) < card (armed (tm s) old_cpu)"
      unfolding a2 using finite_armed [OF cok] t by (rule card_Diff1_less)
    from less.hyps [OF this o(3)] obtain n s' where i: "migrate_active old_cpu new_cpu (b \<or> rc) s2 = Some (n, s')" "timers_ok s'"
      "\<forall>u. abs_timers s' u = (case abs_timers s2 u of Armed d e \<Rightarrow> moved old_cpu new_cpu (Armed d e) | a \<Rightarrow> a)"
      "\<forall>d. t_inactive (pcpu s' d) = t_inactive (pcpu s2 d)" by blast
    have "migrate_active old_cpu new_cpu b s = Some (n, s')"
      using Some o(1,2) i(1) unfolding pick_def by (subst migrate_active.simps) (simp add: Let_def)
    moreover have "abs_timers s' u = (case abs_timers s u of Armed d e \<Rightarrow> moved old_cpu new_cpu (Armed d e) | a \<Rightarrow> a)" for u
    proof -
      have "abs_timers s t = Armed old_cpu (expires (tm s t))" using t by (auto simp: abs_timers_eq armed_def)
      moreover have "abs_timers s2 = (abs_timers s)(t := Armed new_cpu (expires (tm s t)))"
        using o(4) by (auto simp: review_abs [OF o(5)])
      ultimately show ?thesis using i(3) by (cases "u = t") simp_all
    qed
    ultimately show ?thesis using i(2,4) o(6) by auto
  qed
qed

lemma migrate_inactive_ok:
  assumes "timers_ok s" and ne: "old_cpu \<noteq> new_cpu" and c: "new_cpu < TIMER_CPU_status_killed"
    and s': "s' = fold (migrate_inactive old_cpu new_cpu) (t_inactive (pcpu s old_cpu)) s"
  shows "timers_ok s' \<and> (\<forall>u. abs_timers s' u = (case abs_timers s u of Idle d \<Rightarrow> moved old_cpu new_cpu (Idle d) | a \<Rightarrow> a))"
  using assms(1,4)
proof (induction "t_inactive (pcpu s old_cpu)" arbitrary: s)
  case Nil
  then have "sel (tm s) TIMER_STATUS_inactive old_cpu = {}" using inactive_ok [OF Nil.prems(1), of old_cpu] by simp
  then have "abs_timers s u \<noteq> Idle old_cpu" for u by (auto simp: abs_timers_eq sel_def)
  then show ?case using Nil by (auto split: atimer.splits)
next
  case (Cons t l)
  have "t \<in> sel (tm s) TIMER_STATUS_inactive old_cpu" using inactive_ok [OF Cons.prems(1), of old_cpu] Cons.hyps(2)
    by (metis list.set_intros(1))
  then have t: "t_status (tm s t) = TIMER_STATUS_inactive" "t_cpu (tm s t) = old_cpu" by auto
  define s1 where "s1 = migrate_inactive (t_cpu (tm s t)) new_cpu t s"
  have c': "new_cpu \<noteq> t_cpu (tm s t)" using t ne by simp
  note r = rehome_ok [OF Cons.prems(1) t(1) c c' s1_def]
  have l: "l = t_inactive (pcpu s1 old_cpu)"
    using ne t(2) Cons.hyps(2) [symmetric] by (simp add: s1_def migrate_inactive_def state_upd)
  have "s' = fold (migrate_inactive old_cpu new_cpu) (t_inactive (pcpu s1 old_cpu)) s1"
    using Cons.prems(2) Cons.hyps(2) [symmetric] t(2) l by (simp add: s1_def)
  note i = Cons.hyps(1) [OF l r(1) this]
  have "abs_timers s1 = (abs_timers s)(t := Idle new_cpu)" by (simp add: review_abs [OF r(3)])
  moreover have "abs_timers s t = Idle old_cpu" using t by (simp add: abs_timers_eq)
  ultimately have "abs_timers s' u = (case abs_timers s u of Idle d \<Rightarrow> moved old_cpu new_cpu (Idle d) | a \<Rightarrow> a)" for u
    using i by (cases "u = t") simp_all
  then show ?case using i by blast
qed

lemma migrate_timers_ok:
  assumes ok: "timers_ok s" and on: "\<not> online old_cpu" "online new_cpu" and c: "new_cpu < TIMER_CPU_status_killed"
  shows "\<exists>s'. migrate_timers_from_cpu online old_cpu new_cpu s = Some s' \<and> timers_ok s' \<and>
    (\<forall>u. abs_timers s' u = moved old_cpu new_cpu (abs_timers s u))"
proof -
  have ne: "old_cpu \<noteq> new_cpu" using on by auto
  obtain n s1 where a: "migrate_active old_cpu new_cpu False s = Some (n, s1)" "timers_ok s1"
    "\<forall>u. abs_timers s1 u = (case abs_timers s u of Armed d e \<Rightarrow> moved old_cpu new_cpu (Armed d e) | a \<Rightarrow> a)"
    using migrate_active_ok [OF ok ne c, of False] by blast
  define s2 where "s2 = fold (migrate_inactive old_cpu new_cpu) (t_inactive (pcpu s1 old_cpu)) s1"
  have i: "timers_ok s2" "abs_timers s2 u = (case abs_timers s1 u of Idle d \<Rightarrow> moved old_cpu new_cpu (Idle d) | a \<Rightarrow> a)" for u
    using migrate_inactive_ok [OF a(2) ne c s2_def] by blast+
  define s' where "s' = (if n then raise_timer_softirq new_cpu s2 else s2)"
  have "migrate_timers_from_cpu online old_cpu new_cpu s = Some s'"
    using on a(1) by (simp add: migrate_timers_from_cpu_def s2_def s'_def Let_def)
  moreover have "timers_ok s'" using i(1) by (simp add: s'_def)
  moreover have "abs_timers s' u = moved old_cpu new_cpu (abs_timers s u)" for u
  proof -
    have "abs_timers s' u = abs_timers s2 u" by (simp add: s'_def abs_timers_def)
    then show ?thesis using i(2) [of u] a(3) by (cases "abs_timers s u") auto
  qed
  ultimately show ?thesis by blast
qed

text \<open>A CPU comes up when none of the initialised timers is on it, as after it has been taken down.\<close>

definition no_timers_on :: "tstate \<Rightarrow> nat \<Rightarrow> bool" where
  "no_timers_on s c \<longleftrightarrow> (\<forall>t. abs_timers s t \<noteq> Idle c \<and> (\<forall>e. abs_timers s t \<noteq> Armed c e))"

lemma moved_away: "old_cpu \<noteq> new_cpu \<Longrightarrow> moved old_cpu new_cpu a \<noteq> Idle old_cpu \<and> moved old_cpu new_cpu a \<noteq> Armed old_cpu e"
  by (cases a) auto

lemma cpu_up_ok:
  assumes ok: "timers_ok s" and none: "no_timers_on s c"
  shows "timers_ok (upd_cpu s c (\<lambda>ts. ts\<lparr>t_inactive := [], h_size := 0, h_limit := 0\<rparr>))"
    "abs_timers (upd_cpu s c (\<lambda>ts. ts\<lparr>t_inactive := [], h_size := 0, h_limit := 0\<rparr>)) = abs_timers s"
proof -
  let ?h = "(pcpu s c)\<lparr>t_inactive := [], h_size := 0, h_limit := 0\<rparr>"
  have "sel (tm s) st c = {}" if "st \<in> {TIMER_STATUS_inactive, TIMER_STATUS_in_heap, TIMER_STATUS_in_list}" for st
    using none that by (auto simp: no_timers_on_def sel_def abs_timers_eq)
  moreover have "heap_ok ?h (tm s)" "heap_set ?h = {}"
    by (auto simp: heap_ok_def limit_ok_def offsets_ok_def heap_order_def heap_set_def heap_elems_def)
  ultimately have "cpu_ok (tm s) c ?h" using timers_okD [OF ok, of c] by (simp add: cpu_ok_def list_ok_def)
  then show "timers_ok (upd_cpu s c (\<lambda>ts. ts\<lparr>t_inactive := [], h_size := 0, h_limit := 0\<rparr>))"
    using ok by (auto simp: timers_ok_def upd_cpu_def)
  show "abs_timers (upd_cpu s c (\<lambda>ts. ts\<lparr>t_inactive := [], h_size := 0, h_limit := 0\<rparr>)) = abs_timers s"
    by (auto simp: abs_timers_def upd_cpu_def)
qed

lemma cpu_callback_ok:
  assumes ok: "timers_ok s"
    and "case action of CPU_UP_PREPARE \<Rightarrow> no_timers_on s c
      | CPU_other \<Rightarrow> True | _ \<Rightarrow> \<not> online c \<and> online new_cpu \<and> new_cpu < TIMER_CPU_status_killed"
  shows "\<exists>s'. cpu_callback online new_cpu action c s = Some s' \<and> timers_ok s'"
  using assms(2) cpu_up_ok(1) [OF ok, of c] migrate_timers_ok [OF ok, of online c new_cpu] ok
  by (cases action) (auto simp: cpu_callback_def)

section \<open>The timers as a transition system\<close>

inductive timer_step :: "tstate \<Rightarrow> tstate \<Rightarrow> bool" where
  call: "may_call k s \<Longrightarrow> do_call k s = Some s' \<Longrightarrow> timer_step s s'"
| softirq: "cb_keeps cb \<Longrightarrow> timer_softirq_action cb b now rp c s = Some s' \<Longrightarrow> timer_step s s'"
| cpu_up: "no_timers_on s c \<Longrightarrow> cpu_callback online new_cpu CPU_UP_PREPARE c s = Some s' \<Longrightarrow> timer_step s s'"
| cpu_down: "\<not> online c \<Longrightarrow> online new_cpu \<Longrightarrow> new_cpu < TIMER_CPU_status_killed \<Longrightarrow>
    action \<in> {CPU_UP_CANCELED, CPU_DEAD} \<Longrightarrow> cpu_callback online new_cpu action c s = Some s' \<Longrightarrow> timer_step s s'"

inductive_cases timer_stepE: "timer_step s s'"

lemma timer_step_ok: "timer_step s s' \<Longrightarrow> timers_ok s \<Longrightarrow> timers_ok s'"
proof (induction rule: timer_step.induct)
  case (call k s s')
  then show ?case using do_call_ok [of s k] by (simp add: refines_def)
next
  case (softirq cb b now rp c s s')
  show ?case using softirq_keeps [OF softirq.hyps(1) softirq.prems softirq.hyps(2)] .
next
  case (cpu_up s c online new_cpu s')
  then show ?case using cpu_callback_ok [of s c online new_cpu CPU_UP_PREPARE] by auto
next
  case (cpu_down online c new_cpu action s s')
  then show ?case using cpu_callback_ok [of s c online new_cpu action] by auto
qed

interpretation tq: transition_invariant timer_step timers_ok
  by unfold_locales (rule timer_step_ok)

lemma timer_init_ok: "timers_ok (timer_init slop)"
  by (auto simp: timers_ok_def timer_init_def cpu_ok_def heap_ok_def limit_ok_def offsets_ok_def heap_order_def heap_set_def
      heap_elems_def list_ok_def sel_def)

end
