(* ===== verification/Timer_Props.thy ===== *)
theory Timer_Props
  imports Timer_Hotplug
begin

text \<open>
  The properties of the timers of \<^verbatim>\<open>xen/common/timer.c\<close>, over the model's own definitions, with their witnesses.
\<close>

section \<open>Aligned ticks\<close>



section \<open>A concrete state\<close>

definition ex_idle :: tstate where
  "ex_idle = the (do_call (Init 1 0) (timer_init 50000))"

definition ex_armed :: tstate where
  "ex_armed = the (do_call (Set 1 5) ex_idle)"

lemma do_call_the:
  "timers_ok s \<Longrightarrow> may_call k s \<Longrightarrow> timers_ok (the (do_call k s)) \<and> abs_timers (the (do_call k s)) = spec_call k (abs_timers s)"
  using do_call_ok [of s k] by (auto simp: refines_def)

lemma abs_init [simp]: "abs_timers (timer_init x) = (\<lambda>_. Uninit)"
  by (simp add: abs_timers_def timer_init_def tview_def fun_eq_iff)

lemma ex_idle_ok: "timers_ok ex_idle" "abs_timers ex_idle = (\<lambda>_. Uninit)(1 := Idle 0)"
  using do_call_the [OF timer_init_ok, of "Init 1 0"] by (simp_all add: ex_idle_def)

lemma ex_armed_ok: "timers_ok ex_armed" "abs_timers ex_armed = (\<lambda>_. Uninit)(1 := Armed 0 5)"
  using do_call_the [OF ex_idle_ok(1), of "Set 1 5"] by (simp_all add: ex_armed_def ex_idle_ok(2))

lemma ex_armed_set: "{t. \<exists>e. abs_timers ex_armed t = Armed 0 e} = {1}" "expires (tm ex_armed 1) = 5"
  using ex_armed_ok(2) abs_timers_eq(4) [of ex_armed 1 0 5] by auto

lemma ex_deadlines: "first_deadline ex_idle 0 = STIME_MAX" "first_deadline ex_armed 0 = 5"
proof -
  have "armed (tm s) c = {t. \<exists>e. abs_timers s t = Armed c e}" for s c by (auto simp: armed_def abs_timers_eq)
  then show "first_deadline ex_idle 0 = STIME_MAX" "first_deadline ex_armed 0 = 5"
    using ex_armed_set by (simp_all add: first_deadline_Min ex_idle_ok ex_armed_ok(1))
qed

section \<open>Properties\<close>

text \<open>C17: Every call of the timer interface that a client may make returns, keeps the timers of all CPUs well formed, and changes the
  abstract timers exactly as specified: initialising makes the timer idle, setting arms it, stopping disarms it,
  migrating moves it with its expiry, killing ends it, and a killed timer stays killed.\<close>

theorem timer_calls_refine:
  assumes "timers_ok s" and "may_call k s"
  shows "\<exists>s'. do_call k s = Some s' \<and> timers_ok s' \<and> abs_timers s' = spec_call k (abs_timers s)"
  using do_call_ok [OF assms] by (auto simp: refines_def)

theorem timer_calls_refine_witness:
  "\<exists>s'. do_call (Migrate 1 3) ex_armed = Some s' \<and> timers_ok s' \<and> abs_timers s' 1 = Armed 3 5"
  using timer_calls_refine [OF ex_armed_ok(1), of "Migrate 1 3"] by (auto simp: ex_armed_ok(2))

text \<open>C19: Whenever a call changes the earliest deadline of a CPU, the timer softirq of that CPU is raised, so that its hardware timer is
  programmed anew.\<close>

theorem timer_change_notified:
  assumes "timers_ok s" and "may_call k s" and "do_call k s = Some s'" and "first_deadline s' c \<noteq> first_deadline s c"
  shows "c \<in> set (timer_softirqs s')"
  using do_call_ok [OF assms(1,2)] assms(3,4) by (auto simp: refines_def noted_def)

theorem timer_change_notified_witness:
  "first_deadline ex_armed 0 \<noteq> first_deadline ex_idle 0 \<and> 0 \<in> set (timer_softirqs ex_armed)"
proof -
  have "do_call (Set 1 5) ex_idle = Some ex_armed"
    using do_call_ok [OF ex_idle_ok(1), of "Set 1 5"] by (auto simp: refines_def ex_armed_def ex_idle_ok(2))
  then show ?thesis
    using timer_change_notified [OF ex_idle_ok(1), of "Set 1 5" ex_armed 0] by (simp add: ex_deadlines ex_idle_ok(2))
qed

text \<open>C20: In every state reachable from the initial one by calls, softirqs with call-backs that use the interface, and CPU hot-plug, the
  heaps and lists of all CPUs are well formed and agree with the status and the CPU of every timer.\<close>

theorem timers_reachable_ok:
  assumes "timer_step\<^sup>*\<^sup>* (timer_init slop) s"
  shows "timers_ok s"
  using tq.reach [OF assms timer_init_ok] .

theorem timers_reachable_ok_witness:
  "timer_step\<^sup>*\<^sup>* (timer_init 50000) ex_armed \<and> timers_ok ex_armed"
proof -
  have a: "timer_step (timer_init 50000) ex_idle"
    using do_call_ok [OF timer_init_ok [of 50000], of "Init 1 0"]
    by (intro timer_step.call [of "Init 1 0"]) (auto simp: refines_def ex_idle_def)
  have b: "timer_step ex_idle ex_armed"
    using do_call_ok [OF ex_idle_ok(1), of "Set 1 5"]
    by (intro timer_step.call [of "Set 1 5"]) (auto simp: refines_def ex_armed_def ex_idle_ok(2))
  have "timer_step\<^sup>*\<^sup>* (timer_init 50000) ex_armed" using a b by (meson converse_rtranclp_into_rtranclp rtranclp.rtrancl_refl)
  then show ?thesis using timers_reachable_ok by blast
qed



text \<open>C21: The deadline the softirq reads from the top of the heap and the head of the list is the minimum over all active timers of the CPU.\<close>

theorem earliest_is_minimum:
  assumes "timers_ok s"
  shows "earliest (pcpu s c) (tm s) = Min (insert STIME_MAX ((\<lambda>t. expires (tm s t)) `
    {t. \<exists>e. abs_timers s t = Armed c e}))"
proof -
  have "{t. \<exists>e. abs_timers s t = Armed c e} = armed (tm s) c" by (auto simp: armed_def abs_timers_eq)
  then show ?thesis using first_deadline_Min [OF assms, of c] by (simp add: first_deadline_def)
qed

theorem earliest_is_minimum_witness:
  "earliest (pcpu ex_armed 0) (tm ex_armed) = 5"
  using earliest_is_minimum [OF ex_armed_ok(1), of 0] ex_armed_set by simp

text \<open>C22: Taking a CPU down returns and moves every timer of it, armed or idle, to the chosen CPU with its expiry unchanged, and no other timer.\<close>

theorem hotplug_moves_all:
  assumes "timers_ok s" and "\<not> online old_cpu" and "online new_cpu" and "new_cpu < TIMER_CPU_status_killed"
  shows "\<exists>s'. cpu_callback online new_cpu CPU_DEAD old_cpu s = Some s' \<and> timers_ok s' \<and>
    (\<forall>t. abs_timers s' t = moved old_cpu new_cpu (abs_timers s t))"
  using migrate_timers_ok [OF assms] by (simp add: cpu_callback_def)

theorem hotplug_moves_all_witness:
  "\<exists>s'. cpu_callback (\<lambda>c. c = 2) 2 CPU_DEAD 0 ex_armed = Some s' \<and> abs_timers s' 1 = Armed 2 5"
  using hotplug_moves_all [OF ex_armed_ok(1), of "\<lambda>c. c = 2" 0 2] by (auto simp: ex_armed_ok(2))



text \<open>C24: Growing the heap keeps its limit of the form one less than a power of sixteen and never lowers it; a heap of 65535 entries stays at
  65535, since the limit of the sixteen times larger array is cut to 16 bits.\<close>

theorem grow_heap_limits:
  "(limit_ok (h_limit h) \<longrightarrow> limit_ok (h_limit (grow_heap b h)) \<and> h_limit h \<le> h_limit (grow_heap b h)) \<and>
   (h_limit h = 65535 \<longrightarrow> h_limit (grow_heap b h) = 65535)"
  using grow_heap_limit [of h b] by (auto simp: grow_heap_def SET_HEAP_LIMIT_def)

theorem grow_heap_limits_witness:
  "limit_ok (h_limit (grow_heap True (pcpu ex_armed 0)))"
proof -
  have "limit_ok (h_limit (pcpu ex_armed 0))" using timers_okD [OF ex_armed_ok(1), of 0] by (simp add: cpu_ok_def heap_ok_def)
  then show ?thesis using grow_heap_limits [of "pcpu ex_armed 0" True] by blast
qed

end
