(* ===== verification/Vpic.thy ===== *)
theory Vpic
  imports Xen_Prelude
begin

text \<open>
  The emulated pair of 8259 interrupt controllers of an HVM domain, \<^verbatim>\<open>xen/arch/x86/hvm/vpic.c\<close>. The array
  \<^verbatim>\<open>vpic[2]\<close> is a function of the index; stepping below its first element, which the code does when the
  first controller is not marked as the master, is the result \<open>None\<close>. One-bit fields are booleans, the line masks are
  8-bit words; \<^verbatim>\<open>int_output\<close>, which the code sets to 0 or 1 only, is a boolean. What leaves the component (a kick of the target virtual CPU, the end of a physical interrupt, a hint
  that interrupts were unmasked) is recorded in order.
\<close>

section \<open>Data\<close>

record vpic =
  irr :: u8
  imr :: u8
  isr :: u8
  irq_base :: u8
  init_state :: u8
  priority_add :: nat
  readsel_isr :: bool
  poll :: bool
  auto_eoi :: bool
  rotate_on_auto_eoi :: bool
  special_fully_nested_mode :: bool
  special_mask_mode :: bool
  is_master :: bool
  elcr :: u8
  int_output :: bool

datatype vpic_event = Kick | Dpci_eoi nat | May_unmask

record vpics =
  pics :: "nat \<Rightarrow> vpic"
  i8259_target :: bool
  vpic_events :: "vpic_event list"

definition upd_pic :: "nat \<Rightarrow> (vpic \<Rightarrow> vpic) \<Rightarrow> vpics \<Rightarrow> vpics" where
  "upd_pic i f s = s\<lparr>pics := (pics s)(i := f (pics s i))\<rparr>"

definition vpic_emit :: "vpic_event \<Rightarrow> vpics \<Rightarrow> vpics" where
  "vpic_emit e s = s\<lparr>vpic_events := vpic_events s @ [e]\<rparr>"

definition vpic_elcr_mask :: "vpic \<Rightarrow> u8" where
  "vpic_elcr_mask v = (if is_master v then 0xf8 else 0xde)"

abbreviation (input) VPIC_PRIO_NONE :: nat where "VPIC_PRIO_NONE \<equiv> 8"

text \<open>\<^verbatim>\<open>1 << irq\<close> as an 8-bit mask.\<close>

definition line_mask :: "nat \<Rightarrow> u8" where
  "line_mask irq = push_bit irq 1"

section \<open>Priorities\<close>

text \<open>The instruction \<^verbatim>\<open>bsf\<close>: the number of the lowest set bit.\<close>

definition bsf :: "u8 \<Rightarrow> nat" where
  "bsf w = (case List.find (bit w) [0..<8] of Some k \<Rightarrow> k | None \<Rightarrow> 8)"

definition vpic_get_priority :: "vpic \<Rightarrow> u8 \<Rightarrow> nat" where
  "vpic_get_priority v lines = (if lines = 0 then VPIC_PRIO_NONE else bsf (word_rotr (priority_add v) lines))"

definition vpic_get_highest_priority_irq :: "vpic \<Rightarrow> int" where
  "vpic_get_highest_priority_irq v =
     (let lines = irr v AND NOT (imr v); priority = vpic_get_priority v lines in
      if priority = VPIC_PRIO_NONE then -1
      else
        let irq = (priority + priority_add v) mod 8;
            lines = isr v;
            lines = (if special_fully_nested_mode v \<and> is_master v \<and> irq = 2 then lines AND NOT (line_mask 2) else lines);
            lines = (if special_mask_mode v then lines AND NOT (imr v) else lines);
            cur_priority = vpic_get_priority v lines
        in if priority < cur_priority then int irq else -1)"

fun vpic_update_int_output :: "nat \<Rightarrow> vpics \<Rightarrow> vpics option" where
  "vpic_update_int_output i s =
     (let v = pics s i; irq = vpic_get_highest_priority_irq v in
      if int_output v = (irq \<ge> 0) then Some s
      else
        let s1 = upd_pic i (\<lambda>v. v\<lparr>int_output := \<not> int_output v\<rparr>) s in
        if int_output (pics s1 i) then
          if is_master v then Some (if i8259_target s1 then vpic_emit Kick s1 else s1)
          else (case i of 0 \<Rightarrow> None
            | Suc j \<Rightarrow> vpic_update_int_output j (upd_pic j (\<lambda>m. m\<lparr>irr := irr m OR line_mask 2\<rparr>) s1))
        else if \<not> is_master v then
          (case i of 0 \<Rightarrow> None
            | Suc j \<Rightarrow> vpic_update_int_output j (upd_pic j (\<lambda>m. m\<lparr>irr := irr m AND NOT (line_mask 2)\<rparr>) s1))
        else Some s1)"

declare vpic_update_int_output.simps [simp del]

section \<open>Acknowledging an interrupt\<close>

definition intack_fields :: "nat \<Rightarrow> vpic \<Rightarrow> vpic" where
  "intack_fields irq v =
     (let lines = line_mask irq;
          v = (if elcr v AND lines = 0 then v\<lparr>irr := irr v AND NOT lines\<rparr> else v)
      in if \<not> auto_eoi v then v\<lparr>isr := isr v OR lines\<rparr>
         else if rotate_on_auto_eoi v then v\<lparr>priority_add := (irq + 1) mod 8\<rparr> else v)"

definition intack :: "nat \<Rightarrow> int \<Rightarrow> vpics \<Rightarrow> vpics option" where
  "intack i irq s = vpic_update_int_output i (upd_pic i (intack_fields (nat irq)) s)"

definition vpic_intack :: "nat \<Rightarrow> vpics \<Rightarrow> (int \<times> vpics) option" where
  "vpic_intack i s =
     (if \<not> int_output (pics s i) then Some (-1, s)
      else do {
        let irq = vpic_get_highest_priority_irq (pics s i);
        bug_on (irq < 0);
        s1 \<leftarrow> intack i irq s;
        if irq = 2 \<and> is_master (pics s1 i) then do {
          let irq = vpic_get_highest_priority_irq (pics s1 (i + 1));
          bug_on (irq < 0);
          s2 \<leftarrow> intack (i + 1) irq s1;
          Some (irq + 8, s2)
        } else Some (irq, s1)
      })"

section \<open>Port accesses\<close>

definition write_icw1 :: "u8 \<Rightarrow> vpic \<Rightarrow> vpic" where
  "write_icw1 val v =
     (let v = v\<lparr>irr := irr v AND elcr v, imr := 0, isr := 0, priority_add := 0, rotate_on_auto_eoi := False,
                special_mask_mode := False, readsel_isr := False, poll := False\<rparr>;
          v = (if \<not> bit val 0 then v\<lparr>auto_eoi := False, special_fully_nested_mode := False\<rparr> else v)
      in v\<lparr>init_state := push_bit 2 (val AND 3) OR 1\<rparr>)"

definition write_ocw3 :: "u8 \<Rightarrow> vpic \<Rightarrow> vpic" where
  "write_ocw3 val v =
     (let v = (if bit val 2 then v\<lparr>poll := True\<rparr> else v);
          v = (if bit val 1 then v\<lparr>readsel_isr := bit val 0\<rparr> else v)
      in if bit val 6 then v\<lparr>special_mask_mode := bit val 5\<rparr> else v)"

definition nonspecific_eoi :: "bool \<Rightarrow> vpic \<Rightarrow> vpic" where
  "nonspecific_eoi rot v =
     (let lines = (if special_mask_mode v then isr v AND NOT (imr v) else isr v);
          priority = vpic_get_priority v lines in
      if priority = VPIC_PRIO_NONE then v
      else
        let irq = (priority + priority_add v) mod 8;
            v = v\<lparr>isr := isr v AND NOT (line_mask irq)\<rparr>
        in if rot then v\<lparr>priority_add := (irq + 1) mod 8\<rparr> else v)"

definition specific_eoi :: "bool \<Rightarrow> nat \<Rightarrow> vpic \<Rightarrow> vpic" where
  "specific_eoi rot irq v =
     (let v = v\<lparr>isr := isr v AND NOT (line_mask irq)\<rparr>
      in if rot then v\<lparr>priority_add := (irq + 1) mod 8\<rparr> else v)"

definition write_odd :: "u8 \<Rightarrow> vpic \<Rightarrow> vpic" where
  "write_odd val v =
     (let icw3 = (\<lambda>v. let v = v\<lparr>init_state := (init_state v + 1) AND 15\<rparr>
                     in if \<not> bit (init_state v) 2 then v\<lparr>init_state := 0\<rparr> else v);
          st = init_state v AND 3 in
      if st = 0 then v\<lparr>imr := val\<rparr>
      else if st = 1 then
        let v = v\<lparr>irq_base := val AND 0xf8, init_state := (init_state v + 1) AND 15\<rparr>
        in if \<not> bit (init_state v) 3 then v else icw3 v
      else if st = 2 then icw3 v
      else v\<lparr>special_fully_nested_mode := bit val 4, auto_eoi := bit val 1, init_state := 0\<rparr>)"

definition hvm_isa_irq_to_gsi :: "nat \<Rightarrow> nat" where
  "hvm_isa_irq_to_gsi isa_irq = (if isa_irq \<noteq> 0 then isa_irq else 2)"

text \<open>The end of a port write: the output line, and a hint when lines were unmasked.\<close>

definition write_done :: "nat \<Rightarrow> u8 \<Rightarrow> vpics \<Rightarrow> vpics option" where
  "write_done i unmasked s = do {
     s1 \<leftarrow> vpic_update_int_output i s;
     Some (if unmasked \<noteq> 0 then vpic_emit May_unmask s1 else s1)
   }"

definition write_ocw2 :: "nat \<Rightarrow> 32 word \<Rightarrow> u8 \<Rightarrow> vpics \<Rightarrow> vpics option" where
  "write_ocw2 i addr val s =
     (let cmd = unat (drop_bit 5 val) in
      if cmd = 0 \<or> cmd = 4 then write_done i 0 (upd_pic i (\<lambda>v. v\<lparr>rotate_on_auto_eoi := (cmd = 4)\<rparr>) s)
      else if cmd = 1 \<or> cmd = 5 then write_done i 0 (upd_pic i (nonspecific_eoi (cmd = 5)) s)
      else if cmd = 3 \<or> cmd = 7 then do {
        let irq = unat (val AND 7);
        s1 \<leftarrow> vpic_update_int_output i (upd_pic i (specific_eoi (cmd = 7) irq) s);
        Some (vpic_emit (Dpci_eoi (hvm_isa_irq_to_gsi (if drop_bit 7 addr \<noteq> 0 then irq + 8 else irq))) s1)
      }
      else if cmd = 6 then write_done i 0 (upd_pic i (\<lambda>v. v\<lparr>priority_add := unat ((val + 1) AND 7)\<rparr>) s)
      else write_done i 0 s)"

definition vpic_ioport_write :: "nat \<Rightarrow> 32 word \<Rightarrow> u8 \<Rightarrow> vpics \<Rightarrow> vpics option" where
  "vpic_ioport_write i addr val s =
     (if \<not> bit addr 0 then
        if bit val 4 then write_done i (imr (pics s i)) (upd_pic i (write_icw1 val) s)
        else if bit val 3 then write_done i 0 (upd_pic i (write_ocw3 val) s)
        else write_ocw2 i addr val s
      else
        write_done i (if init_state (pics s i) AND 3 = 0 then imr (pics s i) AND NOT val else 0)
          (upd_pic i (write_odd val) s))"

definition vpic_ioport_read :: "nat \<Rightarrow> 32 word \<Rightarrow> vpics \<Rightarrow> (u8 \<times> vpics) option" where
  "vpic_ioport_read i addr s =
     (if poll (pics s i) then do {
        (irq, s1) \<leftarrow> vpic_intack i (upd_pic i (\<lambda>v. v\<lparr>poll := False\<rparr>) s);
        Some (word_of_int irq, s1)
      }
      else Some (if \<not> bit addr 0 then (if readsel_isr (pics s i) then isr (pics s i) else irr (pics s i))
                 else imr (pics s i), s))"

datatype ioreq_dir = IOREQ_WRITE | IOREQ_READ

text \<open>The value register, of which the accesses use and set the low byte, is an argument and a result.\<close>

definition vpic_intercept_pic_io :: "ioreq_dir \<Rightarrow> 32 word \<Rightarrow> nat \<Rightarrow> 32 word \<Rightarrow> vpics \<Rightarrow> (32 word \<times> vpics) option" where
  "vpic_intercept_pic_io dir port bytes val s =
     (if bytes \<noteq> 1 then Some (val, s)
      else
        let i = unat (drop_bit 7 port) in
        case dir of
          IOREQ_WRITE \<Rightarrow> map_option (\<lambda>s1. (val, s1)) (vpic_ioport_write i port (ucast val) s)
        | IOREQ_READ \<Rightarrow> map_option (\<lambda>(r, s1). (ucast r, s1)) (vpic_ioport_read i port s))"

definition vpic_intercept_elcr_io :: "ioreq_dir \<Rightarrow> 32 word \<Rightarrow> nat \<Rightarrow> 32 word \<Rightarrow> vpics \<Rightarrow> (32 word \<times> vpics) option" where
  "vpic_intercept_elcr_io dir port bytes val s = do {
     bug_on (bytes \<noteq> 1);
     let i = unat (port AND 1);
     case dir of
       IOREQ_WRITE \<Rightarrow>
         let data = ucast val AND vpic_elcr_mask (pics s i);
             data = (if is_master (pics s i) then data OR line_mask 2 else data)
         in Some (val, upd_pic i (\<lambda>v. v\<lparr>elcr := data\<rparr>) s)
     | IOREQ_READ \<Rightarrow> Some (ucast (elcr (pics s i) AND vpic_elcr_mask (pics s i)), s)
   }"

section \<open>State records, reset and the interrupt lines\<close>

text \<open>The save area is a list of records; \<open>room\<close> says how many fit. Loading gets the instance and the record the stream holds.\<close>

definition vpic_save :: "nat \<Rightarrow> vpics \<Rightarrow> int \<times> vpic list" where
  "vpic_save room s =
     (if room = 0 then (1, []) else if room = 1 then (1, [pics s 0]) else (0, [pics s 0, pics s 1]))"

definition vpic_load :: "nat \<Rightarrow> vpic option \<Rightarrow> vpics \<Rightarrow> int \<times> vpics" where
  "vpic_load inst entry s =
     (if inst > 1 then (- EINVAL, s)
      else case entry of None \<Rightarrow> (- EINVAL, s) | Some v \<Rightarrow> (0, upd_pic inst (\<lambda>_. v) s))"

definition vpic_zero :: vpic where
  "vpic_zero = \<lparr>irr = 0, imr = 0, isr = 0, irq_base = 0, init_state = 0, priority_add = 0, readsel_isr = False, poll = False,
     auto_eoi = False, rotate_on_auto_eoi = False, special_fully_nested_mode = False, special_mask_mode = False,
     is_master = False, elcr = 0, int_output = False\<rparr>"

definition vpic_reset :: "vpics \<Rightarrow> vpics" where
  "vpic_reset s =
     upd_pic 1 (\<lambda>_. vpic_zero) (upd_pic 0 (\<lambda>_. vpic_zero\<lparr>is_master := True, elcr := line_mask 2\<rparr>) s)"

text \<open>The port ranges of the handlers: first port, length, handler.\<close>

datatype vpic_handler = Pic_io | Elcr_io

definition vpic_init :: "vpics \<Rightarrow> vpics \<times> (nat \<times> nat \<times> vpic_handler) list" where
  "vpic_init s = (vpic_reset s, [(0x20, 2, Pic_io), (0xa0, 2, Pic_io), (0x4d0, 1, Elcr_io), (0x4d1, 1, Elcr_io)])"

definition vpic_irq_edge :: "(u8 \<Rightarrow> u8 \<Rightarrow> u8) \<Rightarrow> nat \<Rightarrow> vpics \<Rightarrow> vpics option" where
  "vpic_irq_edge f irq s = do {
     let i = irq div 8;
     let lines = line_mask (irq mod 8);
     assert_that (irq \<le> 15);
     if irq = 2 then Some s
     else do {
       let s1 = upd_pic i (\<lambda>v. v\<lparr>irr := f (irr v) lines\<rparr>) s;
       if imr (pics s1 i) AND lines = 0 then vpic_update_int_output i s1 else Some s1
     }
   }"

definition vpic_irq_positive_edge :: "nat \<Rightarrow> vpics \<Rightarrow> vpics option" where
  "vpic_irq_positive_edge irq s = vpic_irq_edge (\<lambda>w m. w OR m) irq s"

definition vpic_irq_negative_edge :: "nat \<Rightarrow> vpics \<Rightarrow> vpics option" where
  "vpic_irq_negative_edge irq s = vpic_irq_edge (\<lambda>w m. w AND NOT m) irq s"

definition vpic_ack_pending_irq :: "bool \<Rightarrow> vpics \<Rightarrow> (int \<times> vpics) option" where
  "vpic_ack_pending_irq accept s =
     (if \<not> accept \<or> \<not> int_output (pics s 0) then Some (-1, s)
      else do {
        (irq, s1) \<leftarrow> vpic_intack 0 s;
        if irq = -1 then Some (-1, s1)
        else Some (int (unat (irq_base (pics s1 (nat irq div 8)))) + irq mod 8, s1)
      })"

end
