(* ===== verification/Hvm_Irq.thy ===== *)
theory Hvm_Irq
  imports Evtchn Vpic
begin

text \<open>
  The virtual interrupt wires of an HVM domain, \<^verbatim>\<open>xen/arch/x86/hvm/irq.c\<close> with \<^verbatim>\<open>struct hvm_irq\<close> of
  \<^verbatim>\<open>asm-x86/hvm/irq.h\<close>: the PCI and ISA wires, the PCI-ISA links, the call-back line of the event channels and the numbers
  of wires that assert each global interrupt (GSI). The component sits between the emulated interrupt controllers
  (\<open>Vpic\<close>) and the event channels (\<open>Evtchn\<close>): a GSI that the guest has mapped to a physical-interrupt port is sent as an
  event.

  The lock \<^verbatim>\<open>irq_lock\<close> is a flag of the domain: taking it while it is held never returns, which is the result \<open>None\<close>.
  The union \<^verbatim>\<open>callback_via\<close> has a field per member; a member is used only under the type that wrote it. Calls to the IO-APIC, the
  delivery of message-signalled interrupts and the scheduled tasklet are recorded in order; the local APIC is in the record
  of external functions.
\<close>

section \<open>Data\<close>

datatype callback_type = HVMIRQ_callback_none | HVMIRQ_callback_gsi | HVMIRQ_callback_pci_intx | HVMIRQ_callback_vector

record hvm_irq_dpci =
  girq :: "nat \<Rightarrow> nat list"
  isairq_map :: "nat \<Rightarrow> bool"
  link_cnt :: "nat \<Rightarrow> u8"

record hvm_irq =
  pci_intx :: "nat \<Rightarrow> bool"
  isa_irq :: "nat \<Rightarrow> bool"
  route :: "nat \<Rightarrow> nat"
  callback_via_asserted :: bool
  callback_via_type :: callback_type
  via_gsi :: nat
  via_dev :: nat
  via_intx :: nat
  via_vector :: nat
  pci_link_assert_count :: "nat \<Rightarrow> u8"
  gsi_assert_count :: "nat \<Rightarrow> u8"
  dpci :: "hvm_irq_dpci option"

record hvm_domain =
  hirq :: hvm_irq
  hvpic :: vpics
  irq_lock :: bool
  nmi_pending :: "int \<Rightarrow> bool"
  mce_pending :: "int \<Rightarrow> bool"

datatype hvm_event =
    Vioapic_positive_edge domid nat
  | Vmsi_deliver domid u8 u8 bool u8 bool
  | Evtchn_irq_tasklet domid int

record hvms =
  hx :: xen
  hdoms :: "domid \<Rightarrow> hvm_domain"
  irqs_off :: bool
  hvm_events :: "hvm_event list"

abbreviation (input) VIOAPIC_NUM_PINS :: nat where "VIOAPIC_NUM_PINS \<equiv> 48"
abbreviation (input) NR_LINK :: nat where "NR_LINK \<equiv> 4"
abbreviation (input) NR_ISAIRQS :: nat where "NR_ISAIRQS \<equiv> 16"
abbreviation (input) IRQ_MSI_EMU :: int where "IRQ_MSI_EMU \<equiv> -3"

abbreviation irqs :: "domid \<Rightarrow> hvms \<Rightarrow> hvm_irq" where "irqs d h \<equiv> hirq (hdoms h d)"

definition upd_hvm :: "domid \<Rightarrow> (hvm_domain \<Rightarrow> hvm_domain) \<Rightarrow> hvms \<Rightarrow> hvms" where
  "upd_hvm d f h = h\<lparr>hdoms := (hdoms h)(d := f (hdoms h d))\<rparr>"

definition upd_irq :: "domid \<Rightarrow> (hvm_irq \<Rightarrow> hvm_irq) \<Rightarrow> hvms \<Rightarrow> hvms" where
  "upd_irq d f h = upd_hvm d (\<lambda>D. D\<lparr>hirq := f (hirq D)\<rparr>) h"

definition hvm_emit :: "hvm_event \<Rightarrow> hvms \<Rightarrow> hvms" where
  "hvm_emit e h = h\<lparr>hvm_events := hvm_events h @ [e]\<rparr>"

definition hvm_pci_intx_gsi :: "nat \<Rightarrow> nat \<Rightarrow> nat" where
  "hvm_pci_intx_gsi dev intx = (dev * 4 + dev div 8 + intx) mod 32 + 16"

definition hvm_pci_intx_link :: "nat \<Rightarrow> nat \<Rightarrow> nat" where
  "hvm_pci_intx_link dev intx = (dev + intx) mod 4"

section \<open>The lock and the counters\<close>

definition lock_irq :: "domid \<Rightarrow> hvms \<Rightarrow> hvms option" where
  "lock_irq d h = (if irq_lock (hdoms h d) then None else Some (upd_hvm d (\<lambda>D. D\<lparr>irq_lock := True\<rparr>) h))"

definition unlock_irq :: "domid \<Rightarrow> hvms \<Rightarrow> hvms" where
  "unlock_irq d h = upd_hvm d (\<lambda>D. D\<lparr>irq_lock := False\<rparr>) h"

text \<open>\<^verbatim>\<open>gsi_assert_count[gsi]++ == 0\<close> and \<^verbatim>\<open>--gsi_assert_count[gsi] == 0\<close>; the array has 48 entries of 8 bits.\<close>

definition gsi_inc :: "domid \<Rightarrow> nat \<Rightarrow> hvms \<Rightarrow> (bool \<times> hvms) option" where
  "gsi_inc d g h =
     (if g < VIOAPIC_NUM_PINS
      then Some (gsi_assert_count (irqs d h) g = 0,
                 upd_irq d (\<lambda>I. I\<lparr>gsi_assert_count := (gsi_assert_count I)(g := gsi_assert_count I g + 1)\<rparr>) h)
      else None)"

definition gsi_dec :: "domid \<Rightarrow> nat \<Rightarrow> hvms \<Rightarrow> (bool \<times> hvms) option" where
  "gsi_dec d g h =
     (if g < VIOAPIC_NUM_PINS
      then Some (gsi_assert_count (irqs d h) g - 1 = 0,
                 upd_irq d (\<lambda>I. I\<lparr>gsi_assert_count := (gsi_assert_count I)(g := gsi_assert_count I g - 1)\<rparr>) h)
      else None)"

definition link_add :: "domid \<Rightarrow> nat \<Rightarrow> u8 \<Rightarrow> hvms \<Rightarrow> hvms" where
  "link_add d l c h =
     upd_irq d (\<lambda>I. I\<lparr>pci_link_assert_count := (pci_link_assert_count I)(l := pci_link_assert_count I l + c)\<rparr>) h"

section \<open>Edges\<close>

definition pic_edge :: "(nat \<Rightarrow> vpics \<Rightarrow> vpics option) \<Rightarrow> domid \<Rightarrow> nat \<Rightarrow> hvms \<Rightarrow> hvms option" where
  "pic_edge f d irq h = do {
     p \<leftarrow> f irq (hvpic (hdoms h d));
     Some (upd_hvm d (\<lambda>D. D\<lparr>hvpic := p\<rparr>) h)
   }"

abbreviation pic_positive_edge :: "domid \<Rightarrow> nat \<Rightarrow> hvms \<Rightarrow> hvms option" where
  "pic_positive_edge \<equiv> pic_edge vpic_irq_positive_edge"

abbreviation pic_negative_edge :: "domid \<Rightarrow> nat \<Rightarrow> hvms \<Rightarrow> hvms option" where
  "pic_negative_edge \<equiv> pic_edge vpic_irq_negative_edge"

definition hvm_domain_use_pirq :: "xdomain \<Rightarrow> pirq option \<Rightarrow> bool" where
  "hvm_domain_use_pirq D i \<longleftrightarrow> is_hvm D \<and> (case i of None \<Rightarrow> False | Some i \<Rightarrow> hvm_emuirq i \<noteq> IRQ_UNBOUND)"

definition gsi_pirq :: "xdomain \<Rightarrow> nat \<Rightarrow> pirq option" where
  "gsi_pirq D gsi = pirq_tree D (domain_emuirq_to_pirq D (int gsi))"

text \<open>
  \<^verbatim>\<open>send_guest_pirq\<close> calls \<^verbatim>\<open>hvm_assert_evtchn_irq\<close> when it marks a virtual CPU of an HVM domain as having events; the call is in
  the log of the event channels, and is run here, by \<open>up\<close>, at the end of the send.
\<close>

definition run_upcalls :: "(domid \<Rightarrow> int \<Rightarrow> hvms \<Rightarrow> hvms option) \<Rightarrow> effect list \<Rightarrow> hvms \<Rightarrow> hvms option" where
  "run_upcalls up es h =
     foldM (\<lambda>e h. case e of Hvm_assert_evtchn_irq d v \<Rightarrow> up d v h | _ \<Rightarrow> Some h) es h"

definition hvm_send_pirq ::
  "(domid \<Rightarrow> int \<Rightarrow> hvms \<Rightarrow> hvms option) \<Rightarrow> ext \<Rightarrow> domid \<Rightarrow> pirq option \<Rightarrow> hvms \<Rightarrow> hvms option" where
  "hvm_send_pirq up x d i h = do {
     s \<leftarrow> send_guest_pirq x (hx h) d i;
     run_upcalls up (drop (length (effects (hx h))) (effects s)) (h\<lparr>hx := s\<rparr>)
   }"

definition is_hvm_pv_evtchn_domain :: "domid \<Rightarrow> hvms \<Rightarrow> bool" where
  "is_hvm_pv_evtchn_domain d h \<longleftrightarrow>
     (case doms (hx h) d of None \<Rightarrow> False | Some D \<Rightarrow> is_hvm D) \<and> callback_via_type (irqs d h) = HVMIRQ_callback_vector"

text \<open>\<^verbatim>\<open>hvm_assert_evtchn_irq\<close>, with the update of the call-back line as an argument.\<close>

definition evtchn_irq_by :: "(domid \<Rightarrow> int \<Rightarrow> hvms \<Rightarrow> hvms option) \<Rightarrow> domid \<Rightarrow> int \<Rightarrow> hvms \<Rightarrow> hvms option" where
  "evtchn_irq_by level d v h =
     (if irqs_off h then Some (hvm_emit (Evtchn_irq_tasklet d v) h)
      else if is_hvm_pv_evtchn_domain d h then Some (h\<lparr>hx := emit (hx h) (Vcpu_kick d v)\<rparr>)
      else if v = 0 then level d v h
      else Some h)"

text \<open>
  \<^verbatim>\<open>hvm_assert_evtchn_irq\<close> as \<^verbatim>\<open>assert_gsi\<close> reaches it, with the lock of the domain held: the update of the call-back line starts
  with taking that lock.
\<close>

definition evtchn_irq_locked :: "domid \<Rightarrow> int \<Rightarrow> hvms \<Rightarrow> hvms option" where
  "evtchn_irq_locked = evtchn_irq_by (\<lambda>d v. lock_irq d)"

definition assert_gsi :: "ext \<Rightarrow> domid \<Rightarrow> nat \<Rightarrow> hvms \<Rightarrow> hvms option" where
  "assert_gsi x d gsi h = do {
     D \<leftarrow> doms (hx h) d;
     if hvm_domain_use_pirq D (gsi_pirq D gsi)
     then hvm_send_pirq evtchn_irq_locked x d (gsi_pirq D gsi) h
     else Some (hvm_emit (Vioapic_positive_edge d gsi) h)
   }"


definition assert_irq :: "ext \<Rightarrow> domid \<Rightarrow> nat \<Rightarrow> nat \<Rightarrow> hvms \<Rightarrow> hvms option" where
  "assert_irq x d ioapic_gsi pic_irq h = do {
     h \<leftarrow> assert_gsi x d ioapic_gsi h;
     pic_positive_edge d pic_irq h
   }"

definition deassert_irq :: "domid \<Rightarrow> nat \<Rightarrow> hvms \<Rightarrow> hvms option" where
  "deassert_irq d isa h = do {
     D \<leftarrow> doms (hx h) d;
     if hvm_domain_use_pirq D (gsi_pirq D isa) then Some h else pic_negative_edge d isa h
   }"

section \<open>PCI and ISA wires\<close>

definition pci_intx_assert :: "ext \<Rightarrow> domid \<Rightarrow> nat \<Rightarrow> nat \<Rightarrow> hvms \<Rightarrow> hvms option" where
  "pci_intx_assert x d device intx h = do {
     assert_that (device \<le> 31 \<and> intx \<le> 3);
     if pci_intx (irqs d h) (device * 4 + intx) then Some h
     else do {
       let h = upd_irq d (\<lambda>I. I\<lparr>pci_intx := (pci_intx I)(device * 4 + intx := True)\<rparr>) h;
       let gsi = hvm_pci_intx_gsi device intx;
       (first, h) \<leftarrow> gsi_inc d gsi h;
       h \<leftarrow> (if first then assert_gsi x d gsi h else Some h);
       let link = hvm_pci_intx_link device intx;
       let isa = route (irqs d h) link;
       let idle = (pci_link_assert_count (irqs d h) link = 0);
       let h = link_add d link 1 h;
       if idle \<and> isa \<noteq> 0 then do {
         (first, h) \<leftarrow> gsi_inc d isa h;
         if first then assert_irq x d isa isa h else Some h
       } else Some h
     }
   }"

definition hvm_pci_intx_assert :: "ext \<Rightarrow> domid \<Rightarrow> nat \<Rightarrow> nat \<Rightarrow> hvms \<Rightarrow> hvms option" where
  "hvm_pci_intx_assert x d device intx h = do {
     h \<leftarrow> lock_irq d h;
     h \<leftarrow> pci_intx_assert x d device intx h;
     Some (unlock_irq d h)
   }"

definition pci_intx_deassert :: "domid \<Rightarrow> nat \<Rightarrow> nat \<Rightarrow> hvms \<Rightarrow> hvms option" where
  "pci_intx_deassert d device intx h = do {
     assert_that (device \<le> 31 \<and> intx \<le> 3);
     if \<not> pci_intx (irqs d h) (device * 4 + intx) then Some h
     else do {
       let h = upd_irq d (\<lambda>I. I\<lparr>pci_intx := (pci_intx I)(device * 4 + intx := False)\<rparr>) h;
       (_, h) \<leftarrow> gsi_dec d (hvm_pci_intx_gsi device intx) h;
       let link = hvm_pci_intx_link device intx;
       let isa = route (irqs d h) link;
       let h = link_add d link (- 1) h;
       if pci_link_assert_count (irqs d h) link = 0 \<and> isa \<noteq> 0 then do {
         (last, h) \<leftarrow> gsi_dec d isa h;
         if last then deassert_irq d isa h else Some h
       } else Some h
     }
   }"

definition hvm_pci_intx_deassert :: "domid \<Rightarrow> nat \<Rightarrow> nat \<Rightarrow> hvms \<Rightarrow> hvms option" where
  "hvm_pci_intx_deassert d device intx h = do {
     h \<leftarrow> lock_irq d h;
     h \<leftarrow> pci_intx_deassert d device intx h;
     Some (unlock_irq d h)
   }"

definition hvm_isa_irq_assert :: "ext \<Rightarrow> domid \<Rightarrow> nat \<Rightarrow> hvms \<Rightarrow> hvms option" where
  "hvm_isa_irq_assert x d isa h = do {
     let gsi = hvm_isa_irq_to_gsi isa;
     assert_that (isa \<le> 15);
     h \<leftarrow> lock_irq d h;
     h \<leftarrow> (if isa_irq (irqs d h) isa then Some h
           else do {
             let h = upd_irq d (\<lambda>I. I\<lparr>isa_irq := (isa_irq I)(isa := True)\<rparr>) h;
             (first, h) \<leftarrow> gsi_inc d gsi h;
             if first then assert_irq x d gsi isa h else Some h
           });
     Some (unlock_irq d h)
   }"

definition hvm_isa_irq_deassert :: "domid \<Rightarrow> nat \<Rightarrow> hvms \<Rightarrow> hvms option" where
  "hvm_isa_irq_deassert d isa h = do {
     let gsi = hvm_isa_irq_to_gsi isa;
     assert_that (isa \<le> 15);
     h \<leftarrow> lock_irq d h;
     h \<leftarrow> (if \<not> isa_irq (irqs d h) isa then Some h
           else do {
             let h = upd_irq d (\<lambda>I. I\<lparr>isa_irq := (isa_irq I)(isa := False)\<rparr>) h;
             (last, h) \<leftarrow> gsi_dec d gsi h;
             if last then deassert_irq d isa h else Some h
           });
     Some (unlock_irq d h)
   }"

section \<open>The call-back line of the event channels\<close>

definition callback_gsi_assert :: "domid \<Rightarrow> nat \<Rightarrow> hvms \<Rightarrow> hvms option" where
  "callback_gsi_assert d gsi h = do {
     (first, h) \<leftarrow> gsi_inc d gsi h;
     if first then do {
       let h = hvm_emit (Vioapic_positive_edge d gsi) h;
       if gsi \<le> 15 then pic_positive_edge d gsi h else Some h
     } else Some h
   }"

definition callback_gsi_deassert :: "domid \<Rightarrow> nat \<Rightarrow> hvms \<Rightarrow> hvms option" where
  "callback_gsi_deassert d gsi h = do {
     (last, h) \<leftarrow> gsi_dec d gsi h;
     if last \<and> gsi \<le> 15 then pic_negative_edge d gsi h else Some h
   }"

definition set_callback_level :: "ext \<Rightarrow> domid \<Rightarrow> bool \<Rightarrow> hvms \<Rightarrow> hvms option" where
  "set_callback_level x d asserted h =
     (if callback_via_asserted (irqs d h) = asserted then Some h
      else
        let h = upd_irq d (\<lambda>I. I\<lparr>callback_via_asserted := asserted\<rparr>) h; I = irqs d h in
        case callback_via_type I of
          HVMIRQ_callback_gsi \<Rightarrow>
            if asserted then callback_gsi_assert d (via_gsi I) h else callback_gsi_deassert d (via_gsi I) h
        | HVMIRQ_callback_pci_intx \<Rightarrow>
            if asserted then pci_intx_assert x d (via_dev I) (via_intx I) h
            else pci_intx_deassert d (via_dev I) (via_intx I) h
        | _ \<Rightarrow> Some h)"

definition hvm_set_callback_irq_level :: "ext \<Rightarrow> domid \<Rightarrow> int \<Rightarrow> hvms \<Rightarrow> hvms option" where
  "hvm_set_callback_irq_level x d v h = do {
     assert_that (v = 0);
     h \<leftarrow> lock_irq d h;
     h \<leftarrow> (case get_vcpu (hx h) d v of
            None \<Rightarrow> None
          | Some V \<Rightarrow> set_callback_level x d (evtchn_upcall_pending V) h);
     Some (unlock_irq d h)
   }"

definition hvm_maybe_deassert_evtchn_irq :: "ext \<Rightarrow> domid \<Rightarrow> hvms \<Rightarrow> hvms option" where
  "hvm_maybe_deassert_evtchn_irq x d h =
     (if callback_via_asserted (irqs d h) then do {
        V \<leftarrow> get_vcpu (hx h) d 0;
        if \<not> evtchn_upcall_pending V then hvm_set_callback_irq_level x d 0 h else Some h
      } else Some h)"

definition hvm_assert_evtchn_irq :: "ext \<Rightarrow> domid \<Rightarrow> int \<Rightarrow> hvms \<Rightarrow> hvms option" where
  "hvm_assert_evtchn_irq x = evtchn_irq_by (hvm_set_callback_irq_level x)"


section \<open>Routing the PCI-ISA links\<close>

text \<open>The record of mapped ISA interrupts of the pass-through layer, with the new route already in place.\<close>

definition dpci_fixup :: "nat \<Rightarrow> hvm_irq \<Rightarrow> hvm_irq" where
  "dpci_fixup old I =
     (case dpci I of
        None \<Rightarrow> I
      | Some P \<Rightarrow>
          let m = (if old \<noteq> 0 then (isairq_map P)(old := False) else isairq_map P);
              m = fold (\<lambda>i m. if link_cnt P i \<noteq> 0 \<and> route I i \<noteq> 0 then m(route I i := True) else m) [0..<NR_LINK] m
          in I\<lparr>dpci := Some (P\<lparr>isairq_map := m\<rparr>)\<rparr>)"

definition set_link_route :: "domid \<Rightarrow> nat \<Rightarrow> nat \<Rightarrow> hvms \<Rightarrow> hvms option" where
  "set_link_route d link isa h =
     (let old = route (irqs d h) link in
      if old = isa then Some h
      else
        let h = upd_irq d (\<lambda>I. dpci_fixup old (I\<lparr>route := (route I)(link := isa)\<rparr>)) h in
        if pci_link_assert_count (irqs d h) link = 0 then Some h
        else do {
          h \<leftarrow> (if old \<noteq> 0 then do {
                  (last, h) \<leftarrow> gsi_dec d old h;
                  if last then pic_negative_edge d old h else Some h
                } else Some h);
          if isa \<noteq> 0 then do {
            (first, h) \<leftarrow> gsi_inc d isa h;
            if first then pic_positive_edge d isa (hvm_emit (Vioapic_positive_edge d isa) h) else Some h
          } else Some h
        })"

definition hvm_set_pci_link_route :: "domid \<Rightarrow> nat \<Rightarrow> nat \<Rightarrow> hvms \<Rightarrow> hvms option" where
  "hvm_set_pci_link_route d link isa h = do {
     assert_that (link \<le> 3 \<and> isa \<le> 15);
     h \<leftarrow> lock_irq d h;
     h \<leftarrow> set_link_route d link isa h;
     Some (unlock_irq d h)
   }"

section \<open>Message-signalled interrupts\<close>

text \<open>The physical-interrupt number encoded in an address, converted to a signed 32-bit integer.\<close>

definition msi_pirq :: "64 word \<Rightarrow> int" where
  "msi_pirq addr = sint (ucast (drop_bit 32 addr AND 0xffffff00 OR drop_bit 12 addr AND 0xff) :: 32 word)"

definition vmsi_deliver :: "domid \<Rightarrow> 64 word \<Rightarrow> 32 word \<Rightarrow> hvms \<Rightarrow> hvms" where
  "vmsi_deliver d addr data h =
     (let tmp = ucast addr :: 32 word in
      hvm_emit (Vmsi_deliver d (ucast (data AND 0xff)) (ucast (drop_bit 12 (tmp AND 0xffff0))) (bit tmp 2)
                  (ucast (drop_bit 8 (data AND 0x700))) (bit data 15)) h)"

definition hvm_inject_msi :: "ext \<Rightarrow> domid \<Rightarrow> 64 word \<Rightarrow> 32 word \<Rightarrow> hvms \<Rightarrow> hvms option" where
  "hvm_inject_msi x d addr data h =
     (if data AND 0xff = 0 \<and> msi_pirq addr > 0 then do {
        D \<leftarrow> doms (hx h) d;
        i \<leftarrow> pirq_tree D (msi_pirq addr);
        if hvm_emuirq i = IRQ_UNBOUND then do {
          (_, D') \<leftarrow> map_domain_emuirq_pirq x D (msi_pirq addr) IRQ_MSI_EMU;
          hvm_send_pirq (hvm_assert_evtchn_irq x) x d (Some i) (h\<lparr>hx := put_dom (hx h) d D'\<rparr>)
        }
        else if hvm_emuirq i \<noteq> IRQ_MSI_EMU then Some h
        else hvm_send_pirq (hvm_assert_evtchn_irq x) x d (Some i) h
      }
      else Some (vmsi_deliver d addr data h))"

section \<open>Choosing the call-back line\<close>

definition via_type_of :: "64 word \<Rightarrow> callback_type" where
  "via_type_of via =
     (let t = (ucast (drop_bit 56 via) :: u8) + 1 in
      if t = 1 \<and> via \<noteq> 0 then HVMIRQ_callback_gsi
      else if t = 2 then HVMIRQ_callback_pci_intx
      else if t = 3 then HVMIRQ_callback_vector
      else HVMIRQ_callback_none)"

definition via_teardown :: "domid \<Rightarrow> hvms \<Rightarrow> hvms option" where
  "via_teardown d h =
     (let I = irqs d h in
      if \<not> callback_via_asserted I then Some h
      else case callback_via_type I of
        HVMIRQ_callback_gsi \<Rightarrow> callback_gsi_deassert d (via_gsi I) h
      | HVMIRQ_callback_pci_intx \<Rightarrow> pci_intx_deassert d (via_dev I) (via_intx I) h
      | _ \<Rightarrow> Some h)"

definition via_setup :: "ext \<Rightarrow> domid \<Rightarrow> 64 word \<Rightarrow> hvms \<Rightarrow> hvms option" where
  "via_setup x d via h =
     (let low = unat (ucast via :: u8);
          asserted = callback_via_asserted (irqs d h);
          h = upd_irq d (\<lambda>I. I\<lparr>callback_via_type := via_type_of via\<rparr>) h
      in case via_type_of via of
        HVMIRQ_callback_gsi \<Rightarrow> do {
          let h = upd_irq d (\<lambda>I. I\<lparr>via_gsi := low\<rparr>) h;
          if low = 0 \<or> low \<ge> VIOAPIC_NUM_PINS
          then Some (upd_irq d (\<lambda>I. I\<lparr>callback_via_type := HVMIRQ_callback_none\<rparr>) h)
          else if asserted then callback_gsi_assert d low h
          else Some h
        }
      | HVMIRQ_callback_pci_intx \<Rightarrow> do {
          let dev = unat ((ucast (drop_bit 11 via) :: u8) AND 31);
          let intx = unat ((ucast via :: u8) AND 3);
          let h = upd_irq d (\<lambda>I. I\<lparr>via_dev := dev, via_intx := intx\<rparr>) h;
          if asserted then pci_intx_assert x d dev intx h else Some h
        }
      | HVMIRQ_callback_vector \<Rightarrow> Some (upd_irq d (\<lambda>I. I\<lparr>via_vector := low\<rparr>) h)
      | HVMIRQ_callback_none \<Rightarrow> Some h)"

definition hvm_set_callback_via :: "ext \<Rightarrow> domid \<Rightarrow> 64 word \<Rightarrow> hvms \<Rightarrow> hvms option" where
  "hvm_set_callback_via x d via h = do {
     h \<leftarrow> lock_irq d h;
     h \<leftarrow> via_teardown d h;
     h \<leftarrow> via_setup x d via h;
     Some (unlock_irq d h)
   }"

section \<open>The next interrupt of a virtual CPU\<close>

datatype hvm_intsrc = Intsrc_none | Intsrc_pic | Intsrc_lapic | Intsrc_nmi | Intsrc_mce | Intsrc_vector

type_synonym hvm_intack = "hvm_intsrc \<times> u8"

abbreviation (input) hvm_intack_none :: hvm_intack where "hvm_intack_none \<equiv> (Intsrc_none, 0)"

text \<open>The local APIC: whether it accepts interrupts of the PIC, its pending vector or -1, whether the vector is still
  pending when it is acknowledged, and whether the virtual CPU can take an interrupt.\<close>

record lapic =
  vlapic_accept_pic_intr :: "domid \<Rightarrow> int \<Rightarrow> bool"
  vlapic_has_pending_irq :: "domid \<Rightarrow> int \<Rightarrow> int"
  vlapic_ack_pending_irq :: "domid \<Rightarrow> int \<Rightarrow> u8 \<Rightarrow> bool"
  hvm_interrupt_blocked :: "domid \<Rightarrow> int \<Rightarrow> hvm_intack \<Rightarrow> bool"

definition hvm_vcpu_has_pending_irq :: "lapic \<Rightarrow> domid \<Rightarrow> int \<Rightarrow> hvms \<Rightarrow> hvm_intack option" where
  "hvm_vcpu_has_pending_irq l d v h = do {
     V \<leftarrow> get_vcpu (hx h) d v;
     let D = hdoms h d;
     let vec = vlapic_has_pending_irq l d v;
     Some (if callback_via_type (hirq D) = HVMIRQ_callback_vector \<and> evtchn_upcall_pending V
           then (Intsrc_vector, of_nat (via_vector (hirq D)))
           else if nmi_pending D v then (Intsrc_nmi, 2)
           else if mce_pending D v then (Intsrc_mce, 18)
           else if vlapic_accept_pic_intr l d v \<and> int_output (pics (hvpic D) 0) then (Intsrc_pic, 0)
           else if vec \<noteq> -1 then (Intsrc_lapic, of_int vec)
           else hvm_intack_none)
   }"

definition hvm_vcpu_ack_pending_irq :: "lapic \<Rightarrow> domid \<Rightarrow> int \<Rightarrow> hvm_intack \<Rightarrow> hvms \<Rightarrow> (hvm_intack \<times> hvms) option" where
  "hvm_vcpu_ack_pending_irq l d v ia h =
     (let D = hdoms h d in
      case fst ia of
        Intsrc_nmi \<Rightarrow>
          Some (if nmi_pending D v then ia else hvm_intack_none,
                upd_hvm d (\<lambda>D. D\<lparr>nmi_pending := (nmi_pending D)(v := False)\<rparr>) h)
      | Intsrc_mce \<Rightarrow>
          Some (if mce_pending D v then ia else hvm_intack_none,
                upd_hvm d (\<lambda>D. D\<lparr>mce_pending := (mce_pending D)(v := False)\<rparr>) h)
      | Intsrc_pic \<Rightarrow> do {
          (vec, p) \<leftarrow> vpic_ack_pending_irq (vlapic_accept_pic_intr l d v) (hvpic D);
          Some (if vec = -1 then hvm_intack_none else (Intsrc_pic, of_int vec),
                upd_hvm d (\<lambda>D. D\<lparr>hvpic := p\<rparr>) h)
        }
      | Intsrc_lapic \<Rightarrow> Some (if vlapic_ack_pending_irq l d v (snd ia) then ia else hvm_intack_none, h)
      | Intsrc_vector \<Rightarrow> Some (ia, h)
      | Intsrc_none \<Rightarrow> Some (hvm_intack_none, h))"

definition local_events :: "lapic \<Rightarrow> domid \<Rightarrow> int \<Rightarrow> hvms \<Rightarrow> bool option" where
  "local_events l d v h = do {
     ia \<leftarrow> hvm_vcpu_has_pending_irq l d v h;
     Some (fst ia \<noteq> Intsrc_none \<and> \<not> hvm_interrupt_blocked l d v ia)
   }"

section \<open>Save and restore\<close>

text \<open>\<open>room\<close> says whether the record fits the save area; \<^verbatim>\<open>hvm_save_entry\<close> returns 0 or 1.\<close>

definition irq_save_pci :: "ext \<Rightarrow> domid \<Rightarrow> bool \<Rightarrow> hvms \<Rightarrow> (int \<times> (nat \<Rightarrow> bool) option \<times> hvms) option" where
  "irq_save_pci x d room h = do {
     h \<leftarrow> lock_irq d h;
     let dev = via_dev (irqs d h);
     let intx = via_intx (irqs d h);
     let asserted = (callback_via_asserted (irqs d h) \<and> callback_via_type (irqs d h) = HVMIRQ_callback_pci_intx);
     h \<leftarrow> (if asserted then pci_intx_deassert d dev intx h else Some h);
     let entry = (if room then Some (pci_intx (irqs d h)) else None);
     h \<leftarrow> (if asserted then pci_intx_assert x d dev intx h else Some h);
     Some (if room then 0 else 1, entry, unlock_irq d h)
   }"

definition irq_save_isa :: "domid \<Rightarrow> bool \<Rightarrow> hvms \<Rightarrow> int \<times> (nat \<Rightarrow> bool) option" where
  "irq_save_isa d room h = (if room then (0, Some (isa_irq (irqs d h))) else (1, None))"

definition irq_save_link :: "domid \<Rightarrow> bool \<Rightarrow> hvms \<Rightarrow> int \<times> (nat \<Rightarrow> nat) option" where
  "irq_save_link d room h = (if room then (0, Some (route (irqs d h))) else (1, None))"

definition load_pci_wire :: "nat \<Rightarrow> hvm_irq \<Rightarrow> hvm_irq" where
  "load_pci_wire w I =
     (if pci_intx I w then
        let gsi = hvm_pci_intx_gsi (w div 4) (w mod 4); link = hvm_pci_intx_link (w div 4) (w mod 4) in
        I\<lparr>gsi_assert_count := (gsi_assert_count I)(gsi := gsi_assert_count I gsi + 1),
          pci_link_assert_count := (pci_link_assert_count I)(link := pci_link_assert_count I link + 1)\<rparr>
      else I)"

definition irq_load_pci :: "domid \<Rightarrow> (nat \<Rightarrow> bool) option \<Rightarrow> hvms \<Rightarrow> int \<times> hvms" where
  "irq_load_pci d entry h =
     (case entry of
        None \<Rightarrow> (- EINVAL, h)
      | Some ws \<Rightarrow>
          (0, upd_irq d (\<lambda>I. fold load_pci_wire [0..<128]
                (I\<lparr>pci_intx := ws, pci_link_assert_count := (\<lambda>_. 0), gsi_assert_count := (\<lambda>_. 0)\<rparr>)) h))"

definition load_isa_wire :: "nat \<Rightarrow> hvm_irq \<Rightarrow> hvm_irq" where
  "load_isa_wire i I =
     (if isa_irq I i then
        let gsi = hvm_isa_irq_to_gsi i in I\<lparr>gsi_assert_count := (gsi_assert_count I)(gsi := gsi_assert_count I gsi + 1)\<rparr>
      else I)"

definition irq_load_isa :: "domid \<Rightarrow> (nat \<Rightarrow> bool) option \<Rightarrow> hvms \<Rightarrow> int \<times> hvms" where
  "irq_load_isa d entry h =
     (case entry of
        None \<Rightarrow> (- EINVAL, h)
      | Some ws \<Rightarrow> (0, upd_irq d (\<lambda>I. fold load_isa_wire [0..<16] (I\<lparr>isa_irq := ws\<rparr>)) h))"

definition load_link :: "nat \<Rightarrow> hvm_irq \<Rightarrow> hvm_irq" where
  "load_link l I =
     (if pci_link_assert_count I l \<noteq> 0 \<and> route I l \<noteq> 0 then
        I\<lparr>gsi_assert_count := (gsi_assert_count I)(route I l := gsi_assert_count I (route I l) + 1)\<rparr>
      else I)"

definition irq_load_link :: "domid \<Rightarrow> (nat \<Rightarrow> nat) option \<Rightarrow> hvms \<Rightarrow> int \<times> hvms" where
  "irq_load_link d entry h =
     (case entry of
        None \<Rightarrow> (- EINVAL, h)
      | Some r \<Rightarrow>
          let h = upd_irq d (\<lambda>I. I\<lparr>route := r\<rparr>) h in
          if list_ex (\<lambda>l. r l > 15) [0..<4] then (- EINVAL, h)
          else (0, upd_irq d (\<lambda>I. fold load_link [0..<4] I) h))"

end
