(* ===== verification/Hvm_Irq_Wires.thy ===== *)
theory Hvm_Irq_Wires
  imports Hvm_Irq
begin

text \<open>
  The counters of \<^verbatim>\<open>struct hvm_irq\<close> as numbers of wires: for each link and each GSI the number of wires that assert it, that such a
  number fits an 8-bit counter, and that changing one wire, the call-back line or a route as the code does keeps every counter
  equal to its number of wires.
\<close>

section \<open>Counting\<close>

definition count :: "nat \<Rightarrow> (nat \<Rightarrow> bool) \<Rightarrow> nat" where
  "count n P = card {k. k < n \<and> P k}"

lemma count_le: "count n P \<le> n"
  using card_mono [of "{..<n}" "{k. k < n \<and> P k}"] by (auto simp: count_def)

lemma count_0: "count n P = 0 \<longleftrightarrow> (\<forall>k < n. \<not> P k)"
  by (auto simp: count_def)

lemma count_insert: "k < n \<Longrightarrow> \<not> P k \<Longrightarrow> count n (\<lambda>j. j = k \<or> P j) = Suc (count n P)"
proof -
  assume k: "k < n" "\<not> P k"
  then have "{j. j < n \<and> (j = k \<or> P j)} = insert k {j. j < n \<and> P j}" by auto
  then show ?thesis using k by (simp add: count_def)
qed

lemma count_cong: "(\<And>k. k < n \<Longrightarrow> P k = Q k) \<Longrightarrow> count n P = count n Q"
  unfolding count_def by (metis (mono_tags, lifting) Collect_cong)

lemma count_set:
  assumes "k < n" "\<not> f k"
  shows "count n (\<lambda>j. (f(k := True)) j \<and> Q j) = count n (\<lambda>j. f j \<and> Q j) + (if Q k then 1 else 0)"
proof (cases "Q k")
  case True
  then have "count n (\<lambda>j. (f(k := True)) j \<and> Q j) = count n (\<lambda>j. j = k \<or> f j \<and> Q j)" by (intro count_cong) auto
  then show ?thesis using assms True count_insert [of k n "\<lambda>j. f j \<and> Q j"] by simp
next
  case False
  then have "count n (\<lambda>j. (f(k := True)) j \<and> Q j) = count n (\<lambda>j. f j \<and> Q j)" by (intro count_cong) auto
  then show ?thesis using False by simp
qed

section \<open>The wires behind a counter\<close>

definition wire_gsi :: "nat \<Rightarrow> nat" where
  "wire_gsi w = hvm_pci_intx_gsi (w div 4) (w mod 4)"

definition wire_link :: "nat \<Rightarrow> nat" where
  "wire_link w = hvm_pci_intx_link (w div 4) (w mod 4)"

definition link_wires :: "hvm_irq \<Rightarrow> nat \<Rightarrow> nat" where
  "link_wires I l = count 128 (\<lambda>w. pci_intx I w \<and> wire_link w = l)"

definition callback_wire :: "hvm_irq \<Rightarrow> nat \<Rightarrow> nat" where
  "callback_wire I g =
     (if callback_via_asserted I \<and> callback_via_type I = HVMIRQ_callback_gsi \<and> via_gsi I = g then 1 else 0)"

definition gsi_wires :: "hvm_irq \<Rightarrow> nat \<Rightarrow> nat" where
  "gsi_wires I g =
     count 128 (\<lambda>w. pci_intx I w \<and> wire_gsi w = g) + count 16 (\<lambda>i. isa_irq I i \<and> hvm_isa_irq_to_gsi i = g) +
     count 4 (\<lambda>l. 0 < link_wires I l \<and> (route I l \<noteq> 0 \<and> route I l = g)) + callback_wire I g"

definition counts_ok :: "hvm_irq \<Rightarrow> bool" where
  "counts_ok I \<longleftrightarrow> (\<forall>l < 4. pci_link_assert_count I l = of_nat (link_wires I l)) \<and>
     (\<forall>g < VIOAPIC_NUM_PINS. gsi_assert_count I g = of_nat (gsi_wires I g))"

definition via_ok :: "hvm_irq \<Rightarrow> bool" where
  "via_ok I \<longleftrightarrow> (\<forall>l < 4. route I l \<le> 15) \<and> via_dev I \<le> 31 \<and> via_intx I \<le> 3 \<and>
     (callback_via_type I = HVMIRQ_callback_gsi \<longrightarrow> 0 < via_gsi I \<and> via_gsi I < VIOAPIC_NUM_PINS)"

lemma wire_link_less [simp]: "wire_link w < 4"
  by (simp add: wire_link_def hvm_pci_intx_link_def)

lemma wire_gsi_range [simp]: "16 \<le> wire_gsi w" "wire_gsi w < 48"
  by (simp_all add: wire_gsi_def hvm_pci_intx_gsi_def)

lemma wire_index: "intx \<le> 3 \<Longrightarrow> wire_gsi (dev * 4 + intx) = hvm_pci_intx_gsi dev intx \<and> wire_link (dev * 4 + intx) = hvm_pci_intx_link dev intx"
  by (simp add: wire_gsi_def wire_link_def)

lemma isa_gsi_range: "i < 16 \<Longrightarrow> hvm_isa_irq_to_gsi i < 16"
  by (simp add: hvm_isa_irq_to_gsi_def)

text \<open>No counter can wrap: there are fewer wires than an 8-bit counter has values.\<close>

lemma link_wires_le: "link_wires I l \<le> 128"
  unfolding link_wires_def by (rule count_le)

lemma gsi_wires_le: "gsi_wires I g \<le> 149"
  unfolding gsi_wires_def callback_wire_def
  using count_le [of 128 "\<lambda>w. pci_intx I w \<and> wire_gsi w = g"] count_le [of 16 "\<lambda>i. isa_irq I i \<and> hvm_isa_irq_to_gsi i = g"]
    count_le [of 4 "\<lambda>l. 0 < link_wires I l \<and> (route I l \<noteq> 0 \<and> route I l = g)"] by auto

lemma u8_of_nat: "n < 256 \<Longrightarrow> unat (of_nat n :: u8) = n" "n < 256 \<Longrightarrow> (of_nat n :: u8) = 0 \<longleftrightarrow> n = 0"
  by (auto simp: unat_of_nat take_bit_nat_eq_self_iff word_of_nat_eq_0_iff)

lemma link_count_0: "counts_ok I \<Longrightarrow> l < 4 \<Longrightarrow> pci_link_assert_count I l = 0 \<longleftrightarrow> link_wires I l = 0"
  using link_wires_le [of I l] u8_of_nat(2) [of "link_wires I l"] by (simp add: counts_ok_def)


section \<open>Changing one wire\<close>

abbreviation bump :: "nat \<Rightarrow> u8 \<Rightarrow> (nat \<Rightarrow> u8) \<Rightarrow> nat \<Rightarrow> u8" where
  "bump k c f \<equiv> f(k := f k + c)"

definition add_gsi :: "nat \<Rightarrow> u8 \<Rightarrow> hvm_irq \<Rightarrow> hvm_irq" where
  "add_gsi g c I = I\<lparr>gsi_assert_count := bump g c (gsi_assert_count I)\<rparr>"

definition wire_on :: "nat \<Rightarrow> hvm_irq \<Rightarrow> hvm_irq" where
  "wire_on w I =
     (let l = wire_link w;
          J = add_gsi (wire_gsi w) 1 (I\<lparr>pci_intx := (pci_intx I)(w := True), pci_link_assert_count := bump l 1 (pci_link_assert_count I)\<rparr>)
      in if pci_link_assert_count I l = 0 \<and> route I l \<noteq> 0 then add_gsi (route I l) 1 J else J)"

definition wire_off :: "nat \<Rightarrow> hvm_irq \<Rightarrow> hvm_irq" where
  "wire_off w I =
     (let l = wire_link w;
          J = add_gsi (wire_gsi w) (- 1) (I\<lparr>pci_intx := (pci_intx I)(w := False), pci_link_assert_count := bump l (- 1) (pci_link_assert_count I)\<rparr>)
      in if pci_link_assert_count J l = 0 \<and> route I l \<noteq> 0 then add_gsi (route I l) (- 1) J else J)"

lemma add_gsi_simps [simp]:
  "pci_intx (add_gsi g c I) = pci_intx I" "isa_irq (add_gsi g c I) = isa_irq I" "route (add_gsi g c I) = route I"
  "callback_via_asserted (add_gsi g c I) = callback_via_asserted I" "callback_via_type (add_gsi g c I) = callback_via_type I"
  "via_gsi (add_gsi g c I) = via_gsi I" "via_dev (add_gsi g c I) = via_dev I" "via_intx (add_gsi g c I) = via_intx I"
  "pci_link_assert_count (add_gsi g c I) = pci_link_assert_count I"
  "gsi_assert_count (add_gsi g c I) = bump g c (gsi_assert_count I)"
  by (simp_all add: add_gsi_def)

lemma wire_on_off: "pci_intx I w \<Longrightarrow> wire_on w (wire_off w I) = I"
  by (rule hvm_irq.equality) (auto simp: wire_on_def wire_off_def Let_def add_gsi_def fun_eq_iff)

lemma bump_iff: "bump k 1 f j = of_nat (n + (if k = j then 1 else 0)) \<longleftrightarrow> f j = (of_nat n :: u8)"
  by auto

lemma link_wires_on:
  assumes "w < 128" "\<not> pci_intx I w" "pci_intx J = (pci_intx I)(w := True)"
  shows "link_wires J l = link_wires I l + (if wire_link w = l then 1 else 0)"
  using count_set [of w 128 "pci_intx I" "\<lambda>w. wire_link w = l"] assms(1,2) by (simp add: link_wires_def assms(3))

lemma wire_on_counts:
  assumes w: "w < 128" "\<not> pci_intx I w"
  shows "counts_ok (wire_on w I) \<longleftrightarrow> counts_ok I"
proof -
  let ?l = "wire_link w"
  let ?J = "wire_on w I"
  have J: "pci_intx ?J = (pci_intx I)(w := True)" "isa_irq ?J = isa_irq I" "route ?J = route I" "callback_wire ?J = callback_wire I"
    "pci_link_assert_count ?J = bump ?l 1 (pci_link_assert_count I)"
    by (simp_all add: wire_on_def Let_def callback_wire_def fun_eq_iff)
  have lw: "link_wires ?J l = link_wires I l + (if ?l = l then 1 else 0)" for l by (rule link_wires_on [OF w J(1)])
  have links: "(\<forall>l < 4. pci_link_assert_count ?J l = of_nat (link_wires ?J l)) \<longleftrightarrow> (\<forall>l < 4. pci_link_assert_count I l = of_nat (link_wires I l))"
    unfolding J(5) lw bump_iff ..
  have "(\<forall>g < 48. gsi_assert_count ?J g = of_nat (gsi_wires ?J g)) \<longleftrightarrow> (\<forall>g < 48. gsi_assert_count I g = of_nat (gsi_wires I g))"
    if L: "\<forall>l < 4. pci_link_assert_count I l = of_nat (link_wires I l)"
  proof -
    have idle: "pci_link_assert_count I ?l = 0 \<longleftrightarrow> link_wires I ?l = 0"
      using L link_wires_le [of I ?l] u8_of_nat(2) [of "link_wires I ?l"] by simp
    have up: "(\<lambda>l. 0 < link_wires ?J l) = (\<lambda>l. 0 < link_wires I l)(?l := True)" by (auto simp: lw)
    have ln: "count 4 (\<lambda>l. 0 < link_wires ?J l \<and> (route I l \<noteq> 0 \<and> route I l = g)) =
        count 4 (\<lambda>l. 0 < link_wires I l \<and> (route I l \<noteq> 0 \<and> route I l = g)) +
        (if link_wires I ?l = 0 \<and> route I ?l \<noteq> 0 \<and> route I ?l = g then 1 else 0)" for g
    proof (cases "link_wires I ?l = 0")
      case True
      then show ?thesis
        using count_set [of ?l 4 "\<lambda>l. 0 < link_wires I l" "\<lambda>l. route I l \<noteq> 0 \<and> route I l = g"] by (simp add: up [symmetric])
    next
      case False
      then have "0 < link_wires ?J l \<longleftrightarrow> 0 < link_wires I l" for l by (auto simp: lw)
      then show ?thesis using False by simp
    qed
    have gw: "gsi_wires ?J g = gsi_wires I g + (if wire_gsi w = g then 1 else 0) +
        (if link_wires I ?l = 0 \<and> route I ?l \<noteq> 0 \<and> route I ?l = g then 1 else 0)" for g
      using count_set [of w 128 "pci_intx I" "\<lambda>w. wire_gsi w = g"] w unfolding gsi_wires_def J ln by simp
    have "gsi_assert_count ?J g = gsi_assert_count I g + of_nat ((if wire_gsi w = g then 1 else 0) +
        (if link_wires I ?l = 0 \<and> route I ?l \<noteq> 0 \<and> route I ?l = g then 1 else 0))" for g
      unfolding wire_on_def Let_def idle by simp
    then have "gsi_assert_count ?J g = of_nat (gsi_wires ?J g) \<longleftrightarrow> gsi_assert_count I g = of_nat (gsi_wires I g)" for g
      unfolding gw add.assoc by simp
    then show ?thesis by blast
  qed
  then show ?thesis using links by (auto simp: counts_ok_def)
qed

lemma wire_off_counts: "w < 128 \<Longrightarrow> pci_intx I w \<Longrightarrow> counts_ok I \<Longrightarrow> counts_ok (wire_off w I)"
  using wire_on_counts [of w "wire_off w I"] wire_on_off [of I w] by (simp add: wire_off_def Let_def)


lemma isa_wires_on:
  assumes "i < 16" "\<not> isa_irq I i"
  shows "counts_ok (add_gsi (hvm_isa_irq_to_gsi i) 1 (I\<lparr>isa_irq := (isa_irq I)(i := True)\<rparr>)) \<longleftrightarrow> counts_ok I" (is "counts_ok ?J \<longleftrightarrow> _")
proof -
  have lw: "link_wires ?J = link_wires I" by (simp add: link_wires_def fun_eq_iff)
  have "gsi_wires ?J g = gsi_wires I g + (if hvm_isa_irq_to_gsi i = g then 1 else 0)" for g
    using count_set [of i 16 "isa_irq I" "\<lambda>i. hvm_isa_irq_to_gsi i = g"] assms
    unfolding gsi_wires_def lw callback_wire_def by simp
  then show ?thesis by (auto simp: counts_ok_def lw)
qed

lemma isa_wires_off:
  assumes "i < 16" "isa_irq I i" "counts_ok I"
  shows "counts_ok (add_gsi (hvm_isa_irq_to_gsi i) (- 1) (I\<lparr>isa_irq := (isa_irq I)(i := False)\<rparr>))" (is "counts_ok ?J")
proof -
  have "add_gsi (hvm_isa_irq_to_gsi i) 1 (?J\<lparr>isa_irq := (isa_irq ?J)(i := True)\<rparr>) = I"
    using assms(2) by (intro hvm_irq.equality) (auto simp: add_gsi_def fun_eq_iff)
  then show ?thesis using isa_wires_on [of i ?J] assms by simp
qed

text \<open>Changes of the call-back line and of a route.\<close>

lemma callback_counts:
  assumes "counts_ok I" "pci_intx J = pci_intx I" "isa_irq J = isa_irq I" "route J = route I"
    "pci_link_assert_count J = pci_link_assert_count I"
    "\<And>g. gsi_assert_count J g + of_nat (callback_wire I g) = gsi_assert_count I g + of_nat (callback_wire J g)"
  shows "counts_ok J"
proof -
  have lw: "link_wires J = link_wires I" by (simp add: link_wires_def fun_eq_iff assms(2))
  have "gsi_wires J g + callback_wire I g = gsi_wires I g + callback_wire J g" for g
    by (simp add: gsi_wires_def lw assms(2-4))
  then have "of_nat (gsi_wires J g) + of_nat (callback_wire I g) = (of_nat (gsi_wires I g) + of_nat (callback_wire J g) :: u8)" for g
    by (metis of_nat_add)
  then have "gsi_assert_count J g = of_nat (gsi_wires J g)" if "g < 48" for g
    using assms(1,6) that unfolding counts_ok_def by (metis add_right_cancel)
  then show ?thesis using assms(1,5) by (simp add: counts_ok_def lw)
qed

lemma count_upd:
  assumes "k < n"
  shows "count n (P(k := b)) + (if P k then 1 else 0) = count n P + (if b then 1 else 0)"
proof -
  have "P(k := True) = (\<lambda>j. j = k \<or> (P(k := False)) j)" by auto
  then have a: "count n (P(k := True)) = count n (P(k := False)) + 1"
    using count_insert [of k n "P(k := False)"] assms by simp
  have "P = P(k := P k)" by simp
  then show ?thesis using a by (cases b; cases "P k") simp_all
qed

definition link_wire :: "hvm_irq \<Rightarrow> nat \<Rightarrow> nat \<Rightarrow> nat \<Rightarrow> nat" where
  "link_wire I l r g = (if 0 < link_wires I l \<and> (r \<noteq> 0 \<and> r = g) then 1 else 0)"

lemma route_counts:
  assumes ok: "counts_ok I" and l: "l < 4" and J: "pci_intx J = pci_intx I" "isa_irq J = isa_irq I" "route J = (route I)(l := r)"
    "pci_link_assert_count J = pci_link_assert_count I" "callback_wire J = callback_wire I"
    and g: "\<And>g. gsi_assert_count J g + of_nat (link_wire I l (route I l) g) = gsi_assert_count I g + of_nat (link_wire I l r g)"
  shows "counts_ok J"
proof -
  have lw: "link_wires J = link_wires I" by (simp add: link_wires_def fun_eq_iff J(1))
  have "gsi_wires J g + link_wire I l (route I l) g = gsi_wires I g + link_wire I l r g" for g
  proof -
    let ?P = "\<lambda>k. 0 < link_wires I k \<and> (route I k \<noteq> 0 \<and> route I k = g)"
    have "(\<lambda>k. 0 < link_wires I k \<and> (route J k \<noteq> 0 \<and> route J k = g)) = ?P(l := 0 < link_wires I l \<and> (r \<noteq> 0 \<and> r = g))"
      by (auto simp: J(3))
    then show ?thesis
      using count_upd [OF l, of ?P "0 < link_wires I l \<and> (r \<noteq> 0 \<and> r = g)"] unfolding gsi_wires_def J(1,2,5) lw link_wire_def by simp
  qed
  then have "of_nat (gsi_wires J g) + of_nat (link_wire I l (route I l) g) = (of_nat (gsi_wires I g) + of_nat (link_wire I l r g) :: u8)" for g
    by (metis of_nat_add)
  then have "gsi_assert_count J k = of_nat (gsi_wires J k)" if "k < 48" for k
    using ok g [of k] that unfolding counts_ok_def by (metis add_right_cancel)
  then show ?thesis using ok J(4) by (simp add: counts_ok_def lw)
qed

end
