(* ===== verification/Portio.thy ===== *)
theory Portio
  imports Vpic
begin

text \<open>
  Dispatch of port and memory accesses of a guest to the devices emulated in the hypervisor, \<^verbatim>\<open>xen/arch/x86/hvm/intercept.c\<close>.
  The state \<open>'s\<close> is that of the devices and of guest memory. Copies from and to guest memory are arguments. \<^verbatim>\<open>data\<close> of
  \<^verbatim>\<open>process_portio_intercept\<close> and \<^verbatim>\<open>hvm_mmio_access\<close> is not initialised by the code: what it holds at first is the argument \<open>junk\<close>.
\<close>

section \<open>Requests and handlers\<close>

record ioreq =
  io_addr :: ulong
  io_data :: ulong
  io_count :: u32
  io_size :: u32
  data_is_ptr :: bool
  io_dir :: ioreq_dir
  io_df :: bool

abbreviation (input) X86EMUL_OKAY :: int where "X86EMUL_OKAY \<equiv> 0"
abbreviation (input) X86EMUL_UNHANDLEABLE :: int where "X86EMUL_UNHANDLEABLE \<equiv> 1"
abbreviation (input) X86EMUL_RETRY :: int where "X86EMUL_RETRY \<equiv> 3"

datatype hvmcopy = HVMCOPY_okay | HVMCOPY_bad_gva_to_gfn | HVMCOPY_bad_gfn_to_mfn | HVMCOPY_unhandleable
  | HVMCOPY_gfn_paged_out | HVMCOPY_gfn_shared

type_synonym 's portio_action = "ioreq_dir \<Rightarrow> u32 \<Rightarrow> u32 \<Rightarrow> u32 \<Rightarrow> 's \<Rightarrow> (int \<times> u32 \<times> 's) option"
type_synonym 's mmio_action = "ioreq \<Rightarrow> 's \<Rightarrow> (int \<times> ioreq \<times> 's) option"

datatype 's io_action = Portio "'s portio_action" | Mmio "'s mmio_action"

record 's io_handler =
  h_type :: int
  h_addr :: ulong
  h_size :: ulong
  h_action :: "'s io_action"

record 's hvm_mmio_handler =
  check_handler :: "ulong \<Rightarrow> 's \<Rightarrow> bool"
  read_handler :: "ulong \<Rightarrow> u32 \<Rightarrow> ulong \<Rightarrow> 's \<Rightarrow> (int \<times> ulong \<times> 's) option"
  write_handler :: "ulong \<Rightarrow> u32 \<Rightarrow> ulong \<Rightarrow> 's \<Rightarrow> (int \<times> 's) option"

text \<open>Guest memory: a copy writes or reads the given number of bytes at a physical address.\<close>

record 's guest_memory =
  hvm_copy_to_guest_phys :: "ulong \<Rightarrow> ulong \<Rightarrow> u32 \<Rightarrow> 's \<Rightarrow> hvmcopy \<times> 's"
  hvm_copy_from_guest_phys :: "ulong \<Rightarrow> ulong \<Rightarrow> u32 \<Rightarrow> 's \<Rightarrow> hvmcopy \<times> ulong"

abbreviation (input) HVM_PORTIO :: int where "HVM_PORTIO \<equiv> 0"
abbreviation (input) HVM_BUFFERED_IO :: int where "HVM_BUFFERED_IO \<equiv> 2"
abbreviation (input) MAX_IO_HANDLER :: nat where "MAX_IO_HANDLER \<equiv> 16"

text \<open>
  \<^verbatim>\<open>base + sign * i * p->size\<close>: the product has the type of \<^verbatim>\<open>size\<close>, an unsigned 32-bit integer, and is then extended to the
  64 bits of \<^verbatim>\<open>base\<close>.
\<close>

definition item_addr :: "ulong \<Rightarrow> ioreq \<Rightarrow> nat \<Rightarrow> ulong" where
  "item_addr base p i = base + ucast ((if io_df p then - 1 else 1) * of_nat i * io_size p)"

definition finish_items :: "ioreq \<Rightarrow> int \<times> nat \<times> 's \<Rightarrow> int \<times> ioreq \<times> 's" where
  "finish_items p = (\<lambda>(rc, i, s). if i \<noteq> 0 then (X86EMUL_OKAY, p\<lparr>io_count := of_nat i\<rparr>, s) else (rc, p, s))"

section \<open>Memory-mapped devices\<close>

fun mmio_reads :: "'s guest_memory \<Rightarrow> 's hvm_mmio_handler \<Rightarrow> ioreq \<Rightarrow> nat \<Rightarrow> nat \<Rightarrow> int \<Rightarrow> ulong \<Rightarrow> 's \<Rightarrow> (int \<times> nat \<times> 's) option" where
  "mmio_reads m f p 0 i rc data s = Some (rc, i, s)"
| "mmio_reads m f p (Suc k) i rc data s = do {
     (rc, data, s) \<leftarrow> read_handler f (item_addr (io_addr p) p i) (io_size p) data s;
     if rc \<noteq> X86EMUL_OKAY then Some (rc, i, s)
     else
       let (ret, s) = hvm_copy_to_guest_phys m (item_addr (io_data p) p i) data (io_size p) s in
       if ret = HVMCOPY_gfn_paged_out \<or> ret = HVMCOPY_gfn_shared then Some (X86EMUL_RETRY, i, s)
       else mmio_reads m f p k (Suc i) rc data s
   }"

fun mmio_writes :: "'s guest_memory \<Rightarrow> 's hvm_mmio_handler \<Rightarrow> ioreq \<Rightarrow> nat \<Rightarrow> nat \<Rightarrow> int \<Rightarrow> ulong \<Rightarrow> 's \<Rightarrow> (int \<times> nat \<times> 's) option" where
  "mmio_writes m f p 0 i rc data s = Some (rc, i, s)"
| "mmio_writes m f p (Suc k) i rc data s =
     (let (ret, data) = hvm_copy_from_guest_phys m (item_addr (io_data p) p i) data (io_size p) s in
      if ret = HVMCOPY_gfn_paged_out \<or> ret = HVMCOPY_gfn_shared then Some (X86EMUL_RETRY, i, s)
      else do {
        (rc, s) \<leftarrow> write_handler f (item_addr (io_addr p) p i) (io_size p) data s;
        if rc \<noteq> X86EMUL_OKAY then Some (rc, i, s) else mmio_writes m f p k (Suc i) rc data s
      })"

definition hvm_mmio_access :: "'s guest_memory \<Rightarrow> ulong \<Rightarrow> 's hvm_mmio_handler \<Rightarrow> ioreq \<Rightarrow> 's \<Rightarrow> (int \<times> ioreq \<times> 's) option" where
  "hvm_mmio_access m junk f p s =
     (if \<not> data_is_ptr p then
        case io_dir p of
          IOREQ_READ \<Rightarrow> do {
            (rc, data, s) \<leftarrow> read_handler f (io_addr p) (io_size p) junk s;
            Some (rc, p\<lparr>io_data := data\<rparr>, s)
          }
        | IOREQ_WRITE \<Rightarrow> do {
            (rc, s) \<leftarrow> write_handler f (io_addr p) (io_size p) (io_data p) s;
            Some (rc, p, s)
          }
      else
        map_option (finish_items p)
          (case io_dir p of
             IOREQ_READ \<Rightarrow> mmio_reads m f p (unat (io_count p)) 0 X86EMUL_OKAY junk s
           | IOREQ_WRITE \<Rightarrow> mmio_writes m f p (unat (io_count p)) 0 X86EMUL_OKAY junk s))"

fun hvm_mmio_intercept ::
  "'s guest_memory \<Rightarrow> ulong \<Rightarrow> 's hvm_mmio_handler list \<Rightarrow> ioreq \<Rightarrow> 's \<Rightarrow> (int \<times> ioreq \<times> 's) option" where
  "hvm_mmio_intercept m junk [] p s = Some (X86EMUL_UNHANDLEABLE, p, s)"
| "hvm_mmio_intercept m junk (f # fs) p s =
     (if check_handler f (io_addr p) s then hvm_mmio_access m junk f p s else hvm_mmio_intercept m junk fs p s)"

section \<open>Ports\<close>

fun portio_reads :: "'s guest_memory \<Rightarrow> 's portio_action \<Rightarrow> ioreq \<Rightarrow> nat \<Rightarrow> nat \<Rightarrow> int \<Rightarrow> u32 \<Rightarrow> 's \<Rightarrow> (int \<times> nat \<times> 's) option" where
  "portio_reads m act p 0 i rc data s = Some (rc, i, s)"
| "portio_reads m act p (Suc k) i rc data s = do {
     (rc, data, s) \<leftarrow> act IOREQ_READ (ucast (io_addr p)) (io_size p) data s;
     if rc \<noteq> X86EMUL_OKAY then Some (rc, i, s)
     else portio_reads m act p k (Suc i) rc data
            (snd (hvm_copy_to_guest_phys m (item_addr (io_data p) p i) (ucast data) (io_size p) s))
   }"

fun portio_writes :: "'s guest_memory \<Rightarrow> 's portio_action \<Rightarrow> ioreq \<Rightarrow> nat \<Rightarrow> nat \<Rightarrow> int \<Rightarrow> 's \<Rightarrow> (int \<times> nat \<times> 's) option" where
  "portio_writes m act p 0 i rc s = Some (rc, i, s)"
| "portio_writes m act p (Suc k) i rc s = do {
     let data = ucast (snd (hvm_copy_from_guest_phys m (item_addr (io_data p) p i) 0 (io_size p) s));
     (rc, _, s) \<leftarrow> act IOREQ_WRITE (ucast (io_addr p)) (io_size p) data s;
     if rc \<noteq> X86EMUL_OKAY then Some (rc, i, s) else portio_writes m act p k (Suc i) rc s
   }"

definition process_portio_intercept ::
  "'s guest_memory \<Rightarrow> u32 \<Rightarrow> 's portio_action \<Rightarrow> ioreq \<Rightarrow> 's \<Rightarrow> (int \<times> ioreq \<times> 's) option" where
  "process_portio_intercept m junk act p s =
     (if \<not> data_is_ptr p then
        case io_dir p of
          IOREQ_READ \<Rightarrow> do {
            (rc, data, s) \<leftarrow> act IOREQ_READ (ucast (io_addr p)) (io_size p) junk s;
            Some (rc, p\<lparr>io_data := ucast data\<rparr>, s)
          }
        | IOREQ_WRITE \<Rightarrow> do {
            (rc, _, s) \<leftarrow> act IOREQ_WRITE (ucast (io_addr p)) (io_size p) (ucast (io_data p)) s;
            Some (rc, p, s)
          }
      else
        map_option (finish_items p)
          (case io_dir p of
             IOREQ_READ \<Rightarrow> portio_reads m act p (unat (io_count p)) 0 X86EMUL_OKAY junk s
           | IOREQ_WRITE \<Rightarrow> portio_writes m act p (unat (io_count p)) 0 X86EMUL_OKAY s))"

definition handles :: "int \<Rightarrow> ioreq \<Rightarrow> 's io_handler \<Rightarrow> bool" where
  "handles type p f \<longleftrightarrow> type = h_type f \<and> io_addr p \<ge> h_addr f \<and> io_addr p + ucast (io_size p) \<le> h_addr f + h_size f"

fun intercept_from ::
  "'s guest_memory \<Rightarrow> u32 \<Rightarrow> 's io_handler list \<Rightarrow> int \<Rightarrow> ioreq \<Rightarrow> 's \<Rightarrow> (int \<times> ioreq \<times> 's) option" where
  "intercept_from m junk [] type p s = Some (X86EMUL_UNHANDLEABLE, p, s)"
| "intercept_from m junk (f # fs) type p s =
     (if handles type p f then
        case h_action f of
          Portio act \<Rightarrow> if type = HVM_PORTIO then process_portio_intercept m junk act p s else None
        | Mmio act \<Rightarrow> if type = HVM_PORTIO then None else act p s
      else intercept_from m junk fs type p s)"

definition hvm_io_intercept ::
  "'s guest_memory \<Rightarrow> 's mmio_action \<Rightarrow> u32 \<Rightarrow> 's io_handler list \<Rightarrow> ioreq \<Rightarrow> int \<Rightarrow> 's \<Rightarrow> (int \<times> ioreq \<times> 's) option" where
  "hvm_io_intercept m dpci_ioport_intercept junk fs p type s = do {
     (rc, p', s') \<leftarrow> (if type = HVM_PORTIO then dpci_ioport_intercept p s else Some (X86EMUL_UNHANDLEABLE, p, s));
     if rc = X86EMUL_OKAY \<or> rc = X86EMUL_RETRY then Some (rc, p', s')
     else intercept_from m junk fs type p' s'
   }"

definition register_io_handler :: "ulong \<Rightarrow> ulong \<Rightarrow> 's io_action \<Rightarrow> int \<Rightarrow> 's io_handler list \<Rightarrow> 's io_handler list option" where
  "register_io_handler addr len action type fs = do {
     bug_on (length fs \<ge> MAX_IO_HANDLER);
     Some (fs @ [\<lparr>h_type = type, h_addr = addr, h_size = len, h_action = action\<rparr>])
   }"

definition relocate_io_handler :: "ulong \<Rightarrow> ulong \<Rightarrow> ulong \<Rightarrow> int \<Rightarrow> 's io_handler list \<Rightarrow> 's io_handler list" where
  "relocate_io_handler old new len type fs =
     map (\<lambda>f. if h_addr f = old \<and> h_size f = len \<and> h_type f = type then f\<lparr>h_addr := new\<rparr> else f) fs"

section \<open>The ports of the interrupt controllers\<close>

text \<open>The handlers of \<^verbatim>\<open>vpic.c\<close>, on a state of which \<open>get\<close> and \<open>put\<close> are the controllers, and their registration.\<close>

definition vpic_action :: "('s \<Rightarrow> vpics) \<Rightarrow> (vpics \<Rightarrow> 's \<Rightarrow> 's) \<Rightarrow> vpic_handler \<Rightarrow> 's portio_action" where
  "vpic_action get put k dir port bytes val s =
     map_option (\<lambda>(val', v). (X86EMUL_OKAY, val', put v s))
       (case k of
          Pic_io \<Rightarrow> vpic_intercept_pic_io dir port (unat bytes) val (get s)
        | Elcr_io \<Rightarrow> vpic_intercept_elcr_io dir port (unat bytes) val (get s))"

definition register_vpic :: "('s \<Rightarrow> vpics) \<Rightarrow> (vpics \<Rightarrow> 's \<Rightarrow> 's) \<Rightarrow> 's \<Rightarrow> 's io_handler list \<Rightarrow> ('s \<times> 's io_handler list) option" where
  "register_vpic get put s fs =
     (let (v, hs) = vpic_init (get s) in
      map_option (Pair (put v s))
        (foldM (\<lambda>(addr, len, k). register_io_handler (of_nat addr) (of_nat len) (Portio (vpic_action get put k)) HVM_PORTIO) hs fs))"

end
