(* ===== verification/Vpic_Correct.thy ===== *)
theory Vpic_Correct
  imports Vpic
begin

text \<open>
  Correctness of the emulated interrupt controllers of \<^verbatim>\<open>xen/arch/x86/hvm/vpic.c\<close>. The invariant ties the output line of each
  controller to its registers and the input line 2 of the master to the output of the slave; every port access, line
  change and acknowledgement keeps it, so the assertions of the acknowledge cycle never fail.
\<close>

section \<open>Line masks\<close>

lemma u8_eq_iff: "(a :: u8) = b \<longleftrightarrow> (\<forall>n < 8. bit a n = bit b n)"
  by (auto intro: bit_word_eqI)

lemma bit_line_mask [simp]: "bit (line_mask k) j \<longleftrightarrow> j = k \<and> j < 8"
  by (auto simp: line_mask_def bit_simps)

lemma and_line_mask_0: "k < 8 \<Longrightarrow> w AND line_mask k = 0 \<longleftrightarrow> \<not> bit (w :: u8) k"
  by (auto simp: u8_eq_iff bit_simps)

section \<open>Priorities\<close>

text \<open>Reference: the first set line when counting from the line with the highest priority.\<close>

definition nth_line :: "vpic \<Rightarrow> nat \<Rightarrow> nat" where
  "nth_line v k = (k + priority_add v) mod 8"

lemma nth_line_less [simp]: "nth_line v k < 8"
  by (simp add: nth_line_def)

lemma nth_line_onto: "n < 8 \<Longrightarrow> \<exists>k < 8. nth_line v k = n"
proof -
  assume n: "n < 8"
  define a where "a = priority_add v mod 8"
  have a: "a < 8" by (simp add: a_def)
  have "nth_line v k = (k + a) mod 8" for k by (simp add: nth_line_def a_def mod_add_right_eq)
  then have "nth_line v (if a \<le> n then n - a else n + 8 - a) = n" using a n by auto
  then show ?thesis using a n by (intro exI [of _ "if a \<le> n then n - a else n + 8 - a"]) auto
qed

lemma word_ne_0: "(w :: u8) \<noteq> 0 \<longleftrightarrow> (\<exists>n < 8. bit w n)"
  by (auto simp: u8_eq_iff)

lemma priority_none: "vpic_get_priority v w = 8 \<longleftrightarrow> w = 0"
  and priority_some: "w \<noteq> 0 \<Longrightarrow> vpic_get_priority v w < 8 \<and> bit w (nth_line v (vpic_get_priority v w)) \<and>
    (\<forall>k < vpic_get_priority v w. \<not> bit w (nth_line v k))"
proof -
  have r: "bit (word_rotr (priority_add v) w) k \<longleftrightarrow> bit w (nth_line v k)" if "k < 8" for k
    using that by (simp add: bit_word_rotr_iff nth_line_def)
  have some: "vpic_get_priority v w < 8 \<and> bit w (nth_line v (vpic_get_priority v w)) \<and>
    (\<forall>k < vpic_get_priority v w. \<not> bit w (nth_line v k))" if ne: "w \<noteq> 0"
  proof -
    obtain n where "n < 8" "bit w n" using ne by (auto simp: word_ne_0)
    then obtain k where "k < 8" "bit w (nth_line v k)" using nth_line_onto [of n v] by auto
    then have "List.find (bit (word_rotr (priority_add v) w)) [0..<8] \<noteq> None"
      using r by (auto simp: find_None_iff)
    then obtain p where p: "List.find (bit (word_rotr (priority_add v) w)) [0..<8] = Some p" by blast
    then have "p < 8" "bit w (nth_line v p)" "\<forall>k < p. \<not> bit w (nth_line v k)"
      using r by (auto simp: find_Some_iff)
    then show ?thesis using ne p by (simp add: vpic_get_priority_def bsf_def)
  qed
  then show "w \<noteq> 0 \<Longrightarrow> vpic_get_priority v w < 8 \<and> bit w (nth_line v (vpic_get_priority v w)) \<and>
    (\<forall>k < vpic_get_priority v w. \<not> bit w (nth_line v k))" .
  show "vpic_get_priority v w = 8 \<longleftrightarrow> w = 0"
    using some by (cases "w = 0") (auto simp: vpic_get_priority_def)
qed

lemma highest_irq:
  assumes "vpic_get_highest_priority_irq v \<ge> 0"
  obtains irq where "vpic_get_highest_priority_irq v = int irq" "irq < 8" "bit (irr v) irq" "\<not> bit (imr v) irq"
proof -
  let ?w = "irr v AND NOT (imr v)"
  have ne: "?w \<noteq> 0" using assms by (auto simp: vpic_get_highest_priority_irq_def Let_def priority_none)
  have "vpic_get_highest_priority_irq v = int (nth_line v (vpic_get_priority v ?w))"
    using assms ne by (auto simp: vpic_get_highest_priority_irq_def Let_def priority_none nth_line_def split: if_splits)
  moreover have "bit ?w (nth_line v (vpic_get_priority v ?w))" using priority_some [OF ne, of v] by blast
  ultimately show thesis by (intro that) (auto simp: bit_simps)
qed

lemma highest_cong:
  assumes "irr v' AND NOT (imr v') = irr v AND NOT (imr v)" "isr v' = isr v" "special_mask_mode v' \<Longrightarrow> imr v' = imr v"
    "priority_add v' = priority_add v" "special_fully_nested_mode v' = special_fully_nested_mode v"
    "special_mask_mode v' = special_mask_mode v" "is_master v' = is_master v"
  shows "vpic_get_highest_priority_irq v' = vpic_get_highest_priority_irq v"
  using assms by (simp add: vpic_get_highest_priority_irq_def vpic_get_priority_def Let_def)

lemma highest_fields [simp]:
  "vpic_get_highest_priority_irq (v\<lparr>int_output := b\<rparr>) = vpic_get_highest_priority_irq v"
  "vpic_get_highest_priority_irq (v\<lparr>elcr := w\<rparr>) = vpic_get_highest_priority_irq v"
  "vpic_get_highest_priority_irq (v\<lparr>poll := b\<rparr>) = vpic_get_highest_priority_irq v"
  by (rule highest_cong; simp)+

section \<open>The invariant\<close>

definition settled :: "vpic \<Rightarrow> bool" where
  "settled v \<longleftrightarrow> (int_output v \<longleftrightarrow> vpic_get_highest_priority_irq v \<ge> 0)"

definition wired :: "vpics \<Rightarrow> bool" where
  "wired s \<longleftrightarrow> is_master (pics s 0) \<and> \<not> is_master (pics s 1) \<and> bit (elcr (pics s 0)) 2 \<and>
     (bit (irr (pics s 0)) 2 \<longleftrightarrow> int_output (pics s 1))"

definition fields_ok :: "vpic \<Rightarrow> bool" where
  "fields_ok v \<longleftrightarrow> priority_add v < 8 \<and> init_state v < 16 \<and> irq_base v AND 7 = 0"

definition vpic_ok :: "vpics \<Rightarrow> bool" where
  "vpic_ok s \<longleftrightarrow> wired s \<and> settled (pics s 0) \<and> settled (pics s 1) \<and> fields_ok (pics s 0) \<and> fields_ok (pics s 1)"

lemma upd_pic_simps [simp]:
  "pics (upd_pic i f s) j = (if j = i then f (pics s i) else pics s j)" "i8259_target (upd_pic i f s) = i8259_target s"
  "pics (vpic_emit e s) = pics s"
  by (simp_all add: upd_pic_def vpic_emit_def)

lemma vpic_ok_emit [simp]: "vpic_ok (vpic_emit e s) = vpic_ok s"
  by (simp add: vpic_ok_def wired_def)

text \<open>Updating the output of the master and of the slave.\<close>

lemma update_master:
  assumes w: "wired s" and "settled (pics s 1)" "fields_ok (pics s 0)" "fields_ok (pics s 1)"
  obtains s' where "vpic_update_int_output 0 s = Some s'" "vpic_ok s'" "pics s' 1 = pics s 1"
    "pics s' 0 = (pics s 0)\<lparr>int_output := vpic_get_highest_priority_irq (pics s 0) \<ge> 0\<rparr>"
proof -
  let ?b = "vpic_get_highest_priority_irq (pics s 0) \<ge> 0"
  define s1 where "s1 = upd_pic 0 (\<lambda>v. v\<lparr>int_output := \<not> int_output v\<rparr>) s"
  define s' where "s' = (if int_output (pics s 0) = ?b then s else if ?b \<and> i8259_target s then vpic_emit Kick s1 else s1)"
  have p: "pics s' 1 = pics s 1" "pics s' 0 = (pics s 0)\<lparr>int_output := ?b\<rparr>"
    by (auto simp: s'_def s1_def)
  have "vpic_update_int_output 0 s = Some s'"
    using w by (auto simp: vpic_update_int_output.simps [of 0] Let_def s'_def s1_def wired_def)
  moreover have "vpic_ok s'"
    using assms unfolding vpic_ok_def wired_def settled_def fields_ok_def p by simp
  ultimately show thesis using p by (rule that)
qed

lemma update_slave:
  assumes w: "wired s" and "settled (pics s 0)" "fields_ok (pics s 0)" "fields_ok (pics s 1)"
  obtains s' where "vpic_update_int_output 1 s = Some s'" "vpic_ok s'"
    "pics s' 1 = (pics s 1)\<lparr>int_output := vpic_get_highest_priority_irq (pics s 1) \<ge> 0\<rparr>"
proof (cases "int_output (pics s 1) = (vpic_get_highest_priority_irq (pics s 1) \<ge> 0)")
  case True
  have "vpic_ok s" using assms True by (simp add: vpic_ok_def settled_def)
  moreover have "vpic_update_int_output 1 s = Some s" using True unfolding vpic_update_int_output.simps [of 1] by (simp add: Let_def)
  ultimately show thesis using True by (intro that [of s]) simp_all
next
  case False
  define b where "b = (vpic_get_highest_priority_irq (pics s 1) \<ge> 0)"
  define f where "f = (\<lambda>m :: vpic. m\<lparr>irr := if b then irr m OR line_mask 2 else irr m AND NOT (line_mask 2)\<rparr>)"
  define s1 where "s1 = upd_pic 0 f (upd_pic 1 (\<lambda>v. v\<lparr>int_output := b\<rparr>) s)"
  have ib: "int_output (pics s 1) \<noteq> b" using False by (simp add: b_def)
  have "wired s1" using w by (auto simp: wired_def s1_def f_def bit_simps)
  moreover have "settled (pics s1 1)" "fields_ok (pics s1 0)" "fields_ok (pics s1 1)"
    using assms by (auto simp: s1_def settled_def b_def fields_ok_def f_def)
  ultimately obtain s' where u: "vpic_update_int_output 0 s1 = Some s'" "vpic_ok s'" "pics s' 1 = pics s1 1"
    "pics s' 0 = (pics s1 0)\<lparr>int_output := vpic_get_highest_priority_irq (pics s1 0) \<ge> 0\<rparr>" by (rule update_master)
  have tog: "upd_pic 1 (\<lambda>v. v\<lparr>int_output := \<not> int_output v\<rparr>) s = upd_pic 1 (\<lambda>v. v\<lparr>int_output := b\<rparr>) s"
    using ib by (auto simp: upd_pic_def)
  have "vpic_update_int_output (Suc 0) s = vpic_update_int_output 0 s1"
    using w ib unfolding vpic_update_int_output.simps [of "Suc 0"] Let_def b_def [unfolded One_nat_def, symmetric] tog [unfolded One_nat_def]
    by (auto simp: wired_def s1_def f_def)
  then have "vpic_update_int_output 1 s = Some s'" using u(1) by simp
  then show thesis using u(2,3) by (intro that [of s']) (auto simp: s1_def b_def)
qed


lemma update_ok:
  assumes "wired s" "fields_ok (pics s 0)" "fields_ok (pics s 1)" "i \<le> 1" "settled (pics s (1 - i))"
  obtains s' where "vpic_update_int_output i s = Some s'" "vpic_ok s'"
    "pics s' i = (pics s i)\<lparr>int_output := vpic_get_highest_priority_irq (pics s i) \<ge> 0\<rparr>"
    "i = 0 \<longrightarrow> pics s' 1 = pics s 1"
proof (cases i)
  case 0
  with assms have "settled (pics s 1)" by simp
  from assms(1) this assms(2,3) obtain s' where "vpic_update_int_output 0 s = Some s'" "vpic_ok s'" "pics s' 1 = pics s 1"
    "pics s' 0 = (pics s 0)\<lparr>int_output := vpic_get_highest_priority_irq (pics s 0) \<ge> 0\<rparr>" by (rule update_master)
  then show thesis using 0 by (intro that [of s']) simp_all
next
  case (Suc n)
  with assms have i: "i = 1" and "settled (pics s 0)" by simp_all
  from assms(1) this(2) assms(2,3) obtain s' where "vpic_update_int_output 1 s = Some s'" "vpic_ok s'"
    "pics s' 1 = (pics s 1)\<lparr>int_output := vpic_get_highest_priority_irq (pics s 1) \<ge> 0\<rparr>" by (rule update_slave)
  then show thesis using i by (intro that [of s']) simp_all
qed


section \<open>Register updates\<close>

text \<open>What a register update must keep for the wiring: the role and the output line of the controller, the
  cascade line of the master and the widths of the fields.\<close>

definition keeps :: "vpic \<Rightarrow> vpic \<Rightarrow> bool" where
  "keeps v v' \<longleftrightarrow> is_master v' = is_master v \<and> int_output v' = int_output v \<and>
     (bit (elcr v) 2 \<longrightarrow> bit (elcr v') 2 \<and> (bit (irr v') 2 \<longleftrightarrow> bit (irr v) 2)) \<and> (fields_ok v \<longrightarrow> fields_ok v')"

lemma keeps_refl [simp]: "keeps v v"
  by (simp add: keeps_def)

lemma keeps_trans: "keeps v v' \<Longrightarrow> keeps v' v'' \<Longrightarrow> keeps v v''"
  by (auto simp: keeps_def)

lemma upd_keeps:
  assumes ok: "vpic_ok s" and i: "i \<le> 1" and k: "i = 0 \<Longrightarrow> keeps (pics s 0) (f (pics s 0))"
    and k': "i = 1 \<Longrightarrow> is_master (f (pics s 1)) = is_master (pics s 1) \<and> int_output (f (pics s 1)) = int_output (pics s 1) \<and>
      (fields_ok (pics s 1) \<longrightarrow> fields_ok (f (pics s 1)))"
  obtains s' where "vpic_update_int_output i (upd_pic i f s) = Some s'" "vpic_ok s'"
    "pics s' i = (f (pics s i))\<lparr>int_output := vpic_get_highest_priority_irq (f (pics s i)) \<ge> 0\<rparr>"
    "i = 0 \<longrightarrow> pics s' 1 = pics s 1"
proof -
  have c: "i = 0 \<or> i = 1" using i by auto
  have "wired (upd_pic i f s)" using c ok k k' by (auto simp: wired_def vpic_ok_def keeps_def)
  moreover have "fields_ok (pics (upd_pic i f s) 0)" "fields_ok (pics (upd_pic i f s) 1)"
    using c ok k k' by (auto simp: vpic_ok_def keeps_def)
  moreover note i
  moreover have "settled (pics (upd_pic i f s) (1 - i))" using c ok by (auto simp: vpic_ok_def)
  ultimately obtain s' where u: "vpic_update_int_output i (upd_pic i f s) = Some s'" "vpic_ok s'"
    "pics s' i = (pics (upd_pic i f s) i)\<lparr>int_output := vpic_get_highest_priority_irq (pics (upd_pic i f s) i) \<ge> 0\<rparr>"
    "i = 0 \<longrightarrow> pics s' 1 = pics (upd_pic i f s) 1" by (rule update_ok)
  show thesis using u(4) by (intro that [OF u(1,2)]) (auto simp: u(3))
qed

lemma upd_ok:
  assumes "vpic_ok s" "i \<le> 1" "keeps (pics s i) (f (pics s i))"
  obtains s' where "vpic_update_int_output i (upd_pic i f s) = Some s'" "vpic_ok s'"
    "pics s' i = (f (pics s i))\<lparr>int_output := vpic_get_highest_priority_irq (f (pics s i)) \<ge> 0\<rparr>"
    "i = 0 \<longrightarrow> pics s' 1 = pics s 1"
  by (rule upd_keeps [OF assms(1,2), of f]) (use assms(3) in \<open>auto simp: keeps_def\<close>)

lemma low_bits_less: "unat (x AND 7 :: u8) < 8" "(x AND 15 :: u8) < 16"
proof -
  have a: "x AND 7 \<le> (7 :: u8)" "x AND 15 \<le> (15 :: u8)" by (simp_all add: word_and_le1)
  then show "(x AND 15 :: u8) < 16" by (intro order.strict_trans1 [OF a(2)]) simp
  show "unat (x AND 7 :: u8) < 8" using a(1) by (simp add: word_le_nat_alt)
qed


lemma keeps_fields:
  "keeps v (v\<lparr>isr := w\<rparr>)" "keeps v (v\<lparr>imr := w\<rparr>)" "keeps v (v\<lparr>rotate_on_auto_eoi := b\<rparr>)" "keeps v (v\<lparr>poll := b\<rparr>)"
  "p < 8 \<Longrightarrow> keeps v (v\<lparr>priority_add := p\<rparr>)"
  by (auto simp: keeps_def fields_ok_def)

lemma keeps_intack: "k < 8 \<Longrightarrow> keeps v (intack_fields k v)"
  by (auto simp: keeps_def fields_ok_def intack_fields_def Let_def and_line_mask_0 bit_simps)

lemma keeps_icw1: "keeps v (write_icw1 val v)"
proof -
  have "push_bit 2 (val AND 3) OR 1 = (push_bit 2 (val AND 3) OR 1) AND (15 :: u8)"
    by (simp add: push_bit_and bit.conj_disj_distrib2 and.assoc)
  then have "push_bit 2 (val AND 3) OR 1 < (16 :: u8)" using low_bits_less(2) by metis
  then show ?thesis by (auto simp: keeps_def fields_ok_def write_icw1_def Let_def bit_simps)
qed

lemma keeps_ocw3: "keeps v (write_ocw3 val v)"
  by (auto simp: keeps_def fields_ok_def write_ocw3_def Let_def)

lemma keeps_eoi: "keeps v (nonspecific_eoi rot v)" "keeps v (specific_eoi rot irq v)"
  by (auto simp: keeps_def fields_ok_def nonspecific_eoi_def specific_eoi_def Let_def)

lemma keeps_odd: "keeps v (write_odd val v)"
proof -
  have "(val AND 0xf8) AND 7 = (0 :: u8)" by (simp add: and.assoc)
  then show ?thesis by (simp add: keeps_def fields_ok_def write_odd_def Let_def low_bits_less(2))
qed

lemmas keeps_ops = keeps_fields keeps_icw1 keeps_ocw3 keeps_eoi keeps_odd

section \<open>Operations\<close>

abbreviation keeps_ok :: "vpics option \<Rightarrow> bool" where
  "keeps_ok r \<equiv> (\<exists>s'. r = Some s' \<and> vpic_ok s')"

lemma write_done_ok:
  assumes "vpic_ok s" "i \<le> 1" "keeps (pics s i) (f (pics s i))"
  shows "keeps_ok (write_done i u (upd_pic i f s))"
proof -
  from assms obtain s1 where "vpic_update_int_output i (upd_pic i f s) = Some s1" "vpic_ok s1"
    "pics s1 i = (f (pics s i))\<lparr>int_output := vpic_get_highest_priority_irq (f (pics s i)) \<ge> 0\<rparr>"
    "i = 0 \<longrightarrow> pics s1 1 = pics s 1" by (rule upd_ok)
  then show ?thesis by (simp add: write_done_def)
qed

lemma specific_eoi_ok:
  assumes "vpic_ok s" "i \<le> 1"
  shows "keeps_ok (vpic_update_int_output i (upd_pic i (specific_eoi rot irq) s))"
proof -
  from assms keeps_eoi(2) obtain s1 where "vpic_update_int_output i (upd_pic i (specific_eoi rot irq) s) = Some s1" "vpic_ok s1"
    by (rule upd_ok)
  then show ?thesis by simp
qed

lemma update_settled: "settled (pics s i) \<Longrightarrow> vpic_update_int_output i s = Some s"
  by (simp add: vpic_update_int_output.simps [of i] settled_def Let_def)

lemma write_ocw2_ok:
  assumes ok: "vpic_ok s" and i: "i \<le> 1"
  shows "keeps_ok (write_ocw2 i addr val s)"
proof -
  let ?cmd = "unat (drop_bit 5 val)"
  note wd = write_done_ok [OF ok i]
  have st: "settled (pics s i)" using ok i by (cases i) (auto simp: vpic_ok_def)
  then have none: "keeps_ok (write_done i 0 s)" using ok by (simp add: write_done_def update_settled)
  have prio: "keeps_ok (write_done i 0 (upd_pic i (\<lambda>v. v\<lparr>priority_add := unat ((val + 1) AND 7)\<rparr>) s))"
    by (intro wd keeps_fields low_bits_less)
  have spec: "keeps_ok (vpic_update_int_output i (upd_pic i (specific_eoi rot irq) s))" for rot irq
    using specific_eoi_ok [OF ok i] .
  have eoi: "keeps_ok (write_done i 0 (upd_pic i (nonspecific_eoi b) s))" for b by (intro wd keeps_eoi)
  have aeoi: "keeps_ok (write_done i 0 (upd_pic i (\<lambda>v. v\<lparr>rotate_on_auto_eoi := b\<rparr>) s))" for b by (intro wd keeps_fields)
  show ?thesis
    using none prio spec [of "?cmd = 7" "unat (val AND 7)"] eoi [of "?cmd = 5"] aeoi [of "?cmd = 4"]
    by (auto simp: write_ocw2_def Let_def)
qed

lemma write_ok:
  assumes "vpic_ok s" "i \<le> 1"
  shows "keeps_ok (vpic_ioport_write i addr val s)"
proof -
  note wd = write_done_ok [OF assms]
  have "keeps_ok (write_done i u (upd_pic i (write_icw1 val) s))" "keeps_ok (write_done i u (upd_pic i (write_ocw3 val) s))"
    "keeps_ok (write_done i u (upd_pic i (write_odd val) s))" for u
    by (intro wd keeps_ops)+
  then show ?thesis using write_ocw2_ok [OF assms] by (simp add: vpic_ioport_write_def)
qed

text \<open>The acknowledge cycle: it finds an interrupt whenever the output line is up, and the slave has one whenever the
  master acknowledges the cascade line.\<close>

lemma intack_ok:
  assumes ok: "vpic_ok s" and i: "i \<le> 1" and k: "irq < 8"
  obtains s' where "intack i (int irq) s = Some s'" "vpic_ok s'" "i = 0 \<longrightarrow> pics s' 1 = pics s 1"
    "is_master (pics s' i) = is_master (pics s i)"
proof -
  from keeps_intack [OF k] obtain s' where "vpic_update_int_output i (upd_pic i (intack_fields irq) s) = Some s'" "vpic_ok s'"
    "pics s' i = (intack_fields irq (pics s i))\<lparr>int_output := vpic_get_highest_priority_irq (intack_fields irq (pics s i)) \<ge> 0\<rparr>"
    "i = 0 \<longrightarrow> pics s' 1 = pics s 1" by (rule upd_ok [OF ok i])
  then show thesis using keeps_intack [OF k, of "pics s i"] by (intro that [of s']) (auto simp: intack_def keeps_def)
qed

definition pending :: "vpics \<Rightarrow> nat \<Rightarrow> nat \<Rightarrow> bool" where
  "pending s i n \<longleftrightarrow> (let v = pics s (i + n div 8) in bit (irr v) (n mod 8) \<and> \<not> bit (imr v) (n mod 8))"

lemma vpic_intack_ok:
  assumes ok: "vpic_ok s" and i: "i \<le> 1"
  obtains irq s' where "vpic_intack i s = Some (irq, s')" "vpic_ok s'"
    "if int_output (pics s i) then \<exists>n < 16. irq = int n \<and> (i = 0 \<longrightarrow> n \<noteq> 2) \<and> pending s i n else irq = -1 \<and> s' = s"
proof (cases "int_output (pics s i)")
  case False
  then show thesis using ok by (intro that [of "-1" s]) (auto simp: vpic_intack_def)
next
  case True
  then have "vpic_get_highest_priority_irq (pics s i) \<ge> 0" using ok i by (cases i) (auto simp: vpic_ok_def settled_def)
  then obtain k where k: "vpic_get_highest_priority_irq (pics s i) = int k" "k < 8" "bit (irr (pics s i)) k"
    "\<not> bit (imr (pics s i)) k" by (rule highest_irq)
  obtain s1 where s1: "intack i (int k) s = Some s1" "vpic_ok s1" "i = 0 \<longrightarrow> pics s1 1 = pics s 1"
    "is_master (pics s1 i) = is_master (pics s i)" by (rule intack_ok [OF ok i k(2)])
  show thesis
  proof (cases "k = 2 \<and> i = 0")
    case True
    then have "int_output (pics s 1)" using ok k by (simp add: vpic_ok_def wired_def)
    then have "vpic_get_highest_priority_irq (pics s 1) \<ge> 0" using ok by (simp add: vpic_ok_def settled_def)
    then obtain j where j: "vpic_get_highest_priority_irq (pics s 1) = int j" "j < 8" "bit (irr (pics s 1)) j"
      "\<not> bit (imr (pics s 1)) j" by (rule highest_irq)
    obtain s2 where s2: "intack 1 (int j) s1 = Some s2" "vpic_ok s2" by (rule intack_ok [OF s1(2) _ j(2), of 1]) auto
    have "(j + 8) div 8 = 1" using j(2) by simp
    then have "pending s i (j + 8)" using True j by (simp add: pending_def Let_def)
    moreover have "vpic_intack i s = Some (int j + 8, s2)"
      using True \<open>int_output (pics s i)\<close> k s1 j s2 ok by (simp add: vpic_intack_def vpic_ok_def wired_def)
    ultimately show thesis using s2 j \<open>int_output (pics s i)\<close> by (intro that [of "int j + 8" s2]) (auto intro!: exI [of _ "j + 8"])
  next
    case False
    then have "k \<noteq> 2 \<or> \<not> is_master (pics s1 i)" using s1(4) ok i by (cases i) (auto simp: vpic_ok_def wired_def)
    then have "vpic_intack i s = Some (int k, s1)"
      using \<open>int_output (pics s i)\<close> k s1 by (auto simp: vpic_intack_def)
    moreover have "pending s i k" using k by (simp add: pending_def)
    ultimately show thesis using s1 k False \<open>int_output (pics s i)\<close> by (intro that [of "int k" s1]) (auto intro!: exI [of _ k])
  qed
qed

lemma poll_ok: "vpic_ok (upd_pic i (\<lambda>v. v\<lparr>poll := b\<rparr>) s) = vpic_ok s"
  by (auto simp: vpic_ok_def wired_def settled_def fields_ok_def)

lemma read_ok:
  assumes "vpic_ok s" "i \<le> 1"
  obtains r s' where "vpic_ioport_read i addr s = Some (r, s')" "vpic_ok s'"
proof (cases "poll (pics s i)")
  case True
  from assms have "vpic_ok (upd_pic i (\<lambda>v. v\<lparr>poll := False\<rparr>) s)" by (simp add: poll_ok)
  from this assms(2) obtain irq s' where "vpic_intack i (upd_pic i (\<lambda>v. v\<lparr>poll := False\<rparr>) s) = Some (irq, s')" "vpic_ok s'"
    by (rule vpic_intack_ok)
  then show thesis using True by (intro that) (auto simp: vpic_ioport_read_def)
next
  case False
  then show thesis using assms that by (auto simp: vpic_ioport_read_def)
qed


lemma elcr_ok:
  assumes "vpic_ok s"
  obtains r s' where "vpic_intercept_elcr_io dir port 1 val s = Some (r, s')" "vpic_ok s'"
proof -
  define i where "i = unat (port AND 1)"
  have "port AND 1 \<le> 1" by (simp add: word_and_le1)
  then have i: "i = 0 \<or> i = 1" by (auto simp: i_def word_le_nat_alt)
  let ?d = "let data = ucast val AND vpic_elcr_mask (pics s i) in if is_master (pics s i) then data OR line_mask 2 else data"
  have "vpic_ok (upd_pic i (\<lambda>v. v\<lparr>elcr := ?d\<rparr>) s)"
    using i assms by (auto simp: vpic_ok_def wired_def settled_def fields_ok_def Let_def bit_simps)
  then show thesis using assms by (cases dir) (auto simp: vpic_intercept_elcr_io_def i_def Let_def intro!: that)
qed

lemma highest_masked: "bit (imr v) k \<Longrightarrow> (\<And>n. n \<noteq> k \<Longrightarrow> bit w n = bit (irr v) n) \<Longrightarrow>
  vpic_get_highest_priority_irq (v\<lparr>irr := w\<rparr>) = vpic_get_highest_priority_irq v"
  by (rule highest_cong) (simp_all add: u8_eq_iff bit_simps, metis)

lemma edge_ok:
  assumes ok: "vpic_ok s" and irq: "irq \<le> 15" and f: "\<And>w n. n \<noteq> irq mod 8 \<Longrightarrow> bit (f w (line_mask (irq mod 8))) n = bit w n"
  shows "keeps_ok (vpic_irq_edge f irq s)"
proof (cases "irq = 2")
  case True
  then show ?thesis using ok by (simp add: vpic_irq_edge_def)
next
  case False
  define i where "i = irq div 8"
  define g where "g = (\<lambda>v :: vpic. v\<lparr>irr := f (irr v) (line_mask (irq mod 8))\<rparr>)"
  have i: "i \<le> 1" using irq by (simp add: i_def)
  have k: "i = 0 \<Longrightarrow> keeps (pics s 0) (g (pics s 0))"
    using False f [of 2] irq by (auto simp: keeps_def g_def fields_ok_def i_def)
  have k': "is_master (g (pics s 1)) = is_master (pics s 1) \<and> int_output (g (pics s 1)) = int_output (pics s 1) \<and>
      (fields_ok (pics s 1) \<longrightarrow> fields_ok (g (pics s 1)))" by (simp add: g_def fields_ok_def)
  from ok i k k' obtain s1 where s1: "vpic_update_int_output i (upd_pic i g s) = Some s1" "vpic_ok s1"
    "pics s1 i = (g (pics s i))\<lparr>int_output := vpic_get_highest_priority_irq (g (pics s i)) \<ge> 0\<rparr>"
    "i = 0 \<longrightarrow> pics s1 1 = pics s 1" by (rule upd_keeps)
  show ?thesis
  proof (cases "bit (imr (pics s i)) (irq mod 8)")
    case True
    then have "vpic_get_highest_priority_irq (g (pics s i)) = vpic_get_highest_priority_irq (pics s i)"
      unfolding g_def by (rule highest_masked) (rule f)
    moreover have "settled (pics s i)" using ok i by (cases i) (auto simp: vpic_ok_def)
    ultimately have "settled (pics (upd_pic i g s) i)" by (simp add: settled_def g_def)
    then have "upd_pic i g s = s1" using s1(1) by (simp add: update_settled)
    then show ?thesis using s1(2) False irq True
      by (simp add: vpic_irq_edge_def Let_def i_def [symmetric] g_def [symmetric] and_line_mask_0)
  next
    case unm: False
    then show ?thesis using s1 False irq
      by (simp add: vpic_irq_edge_def Let_def i_def [symmetric] g_def [symmetric] and_line_mask_0)
  qed
qed

lemma edges_ok:
  assumes "vpic_ok s" "irq \<le> 15"
  shows "keeps_ok (vpic_irq_positive_edge irq s)" "keeps_ok (vpic_irq_negative_edge irq s)"
  unfolding vpic_irq_positive_edge_def vpic_irq_negative_edge_def by (rule edge_ok [OF assms]; auto simp: bit_simps dest: bit_imp_le_length)+

lemma ack_ok:
  assumes ok: "vpic_ok s"
  obtains vec s' where "vpic_ack_pending_irq acc s = Some (vec, s')" "vpic_ok s'"
    "if acc \<and> int_output (pics s 0)
     then \<exists>n < 16. n \<noteq> 2 \<and> pending s 0 n \<and> vec = int (unat (irq_base (pics s' (n div 8)))) + int (n mod 8)
     else vec = -1 \<and> s' = s"
proof (cases "acc \<and> int_output (pics s 0)")
  case True
  have "0 \<le> (1 :: nat)" by simp
  from ok this obtain irq s' where a: "vpic_intack 0 s = Some (irq, s')" "vpic_ok s'"
    "if int_output (pics s 0) then \<exists>n < 16. irq = int n \<and> (0 = (0 :: nat) \<longrightarrow> n \<noteq> 2) \<and> pending s 0 n else irq = -1 \<and> s' = s"
    by (rule vpic_intack_ok)
  with True obtain n where n: "n < 16" "irq = int n" "n \<noteq> 2" "pending s 0 n" by auto
  then have "vpic_ack_pending_irq acc s = Some (int (unat (irq_base (pics s' (n div 8)))) + int (n mod 8), s')"
    using True a by (simp add: vpic_ack_pending_irq_def zmod_int)
  then show thesis using a n True by (intro that) auto
next
  case False
  then show thesis using ok by (intro that [of "-1" s]) (auto simp: vpic_ack_pending_irq_def)
qed

lemma reset_ok: "vpic_ok (vpic_reset s)"
  by (simp add: vpic_ok_def wired_def vpic_reset_def vpic_zero_def settled_def fields_ok_def
      vpic_get_highest_priority_irq_def vpic_get_priority_def Let_def)

end
