(* ===== verification/Portio_Correct.thy ===== *)
theory Portio_Correct
  imports Portio Vpic_Correct
begin

text \<open>
  The contract between the dispatcher of port accesses and an emulated device, \<open>portio_device\<close>: inside its registered range the
  device returns and keeps its invariant. The dispatcher then keeps it for every request, repeated or not. The ports of the
  interrupt controllers meet the contract, since the dispatcher passes on only accesses that lie in the range: the assertion of
  the ELCR ports on the access size never fails.
\<close>

section \<open>The contract of a device\<close>

text \<open>An access inside the range \<open>[lo, lo + len)\<close>.\<close>

definition in_range :: "nat \<Rightarrow> nat \<Rightarrow> u32 \<Rightarrow> u32 \<Rightarrow> bool" where
  "in_range lo len port bytes \<longleftrightarrow> lo \<le> unat port \<and> 0 < unat bytes \<and> unat port + unat bytes \<le> lo + len"

definition memory_keeps :: "'s guest_memory \<Rightarrow> ('s \<Rightarrow> bool) \<Rightarrow> bool" where
  "memory_keeps m good \<longleftrightarrow> (\<forall>a v n s. good s \<longrightarrow> good (snd (hvm_copy_to_guest_phys m a v n s)))"

lemma finish_items_all [simp]: "finish_items p (X86EMUL_OKAY, unat (io_count p), s) = (X86EMUL_OKAY, p, s)"
  by (simp add: finish_items_def)

locale portio_device =
  fixes act :: "'s portio_action" and good :: "'s \<Rightarrow> bool" and lo :: nat and len :: nat
  assumes act_ok: "good s \<Longrightarrow> in_range lo len port bytes \<Longrightarrow>
    \<exists>v s'. act dir port bytes val s = Some (X86EMUL_OKAY, v, s') \<and> good s'"
begin

lemma reads_ok:
  assumes "memory_keeps m good" "in_range lo len (ucast (io_addr p)) (io_size p)" "good s"
  shows "\<exists>s'. portio_reads m act p k i X86EMUL_OKAY data s = Some (X86EMUL_OKAY, i + k, s') \<and> good s'"
  using assms(3)
proof (induction k arbitrary: i data s)
  case (Suc k)
  from act_ok [OF Suc.prems assms(2)] obtain v s1 where "act IOREQ_READ (ucast (io_addr p)) (io_size p) data s = Some (X86EMUL_OKAY, v, s1)" "good s1"
    by blast
  moreover from this(2) have "good (snd (hvm_copy_to_guest_phys m (item_addr (io_data p) p i) (ucast v) (io_size p) s1))"
    using assms(1) by (simp add: memory_keeps_def)
  ultimately show ?case
    using Suc.IH [of "snd (hvm_copy_to_guest_phys m (item_addr (io_data p) p i) (ucast v) (io_size p) s1)" "Suc i" v] by simp
qed simp

lemma writes_ok:
  assumes "in_range lo len (ucast (io_addr p)) (io_size p)" "good s"
  shows "\<exists>s'. portio_writes m act p k i X86EMUL_OKAY s = Some (X86EMUL_OKAY, i + k, s') \<and> good s'"
  using assms(2)
proof (induction k arbitrary: i s)
  case (Suc k)
  let ?data = "ucast (snd (hvm_copy_from_guest_phys m (item_addr (io_data p) p i) 0 (io_size p) s))"
  from act_ok [OF Suc.prems assms(1)] obtain v s1 where "act IOREQ_WRITE (ucast (io_addr p)) (io_size p) ?data s = Some (X86EMUL_OKAY, v, s1)" "good s1"
    by blast
  then show ?case using Suc.IH [of s1 "Suc i"] by (simp add: Let_def)
qed simp

lemma process_ok:
  assumes "memory_keeps m good" "in_range lo len (ucast (io_addr p)) (io_size p)" "good s"
  shows "\<exists>p' s'. process_portio_intercept m junk act p s = Some (X86EMUL_OKAY, p', s') \<and> good s'"
proof (cases "data_is_ptr p")
  case True
  then show ?thesis
    using reads_ok [OF assms, of "unat (io_count p)" 0 junk] writes_ok [OF assms(2,3), of m "unat (io_count p)" 0]
    by (cases "io_dir p") (auto simp: process_portio_intercept_def)
next
  case False
  then show ?thesis
    using act_ok [OF assms(3,2), of "io_dir p" "if io_dir p = IOREQ_READ then junk else ucast (io_data p)"]
    by (cases "io_dir p") (auto simp: process_portio_intercept_def)
qed

end

section \<open>The interrupt controllers behind their ports\<close>

locale vpic_host =
  fixes get :: "'s \<Rightarrow> vpics" and put :: "vpics \<Rightarrow> 's \<Rightarrow> 's" and good :: "'s \<Rightarrow> bool"
  assumes good_get: "good s \<Longrightarrow> vpic_ok (get s)" and good_put: "good s \<Longrightarrow> vpic_ok v \<Longrightarrow> good (put v s)"
begin

lemma pic_ok:
  assumes "good s" "unat port div 128 \<le> 1"
  shows "\<exists>v s'. vpic_action get put Pic_io dir port bytes val s = Some (X86EMUL_OKAY, v, s') \<and> good s'"
proof -
  define i where "i = unat (drop_bit 7 port)"
  have i: "i \<le> 1" using assms(2) by (simp add: i_def drop_bit_eq_div unat_div)
  obtain r s' where "vpic_ioport_read i port (get s) = Some (r, s')" "vpic_ok s'" by (rule read_ok [OF good_get [OF assms(1)] i])
  moreover obtain w where "vpic_ioport_write i port (ucast val) (get s) = Some w" "vpic_ok w" using write_ok [OF good_get [OF assms(1)] i] by blast
  ultimately show ?thesis
    using assms(1) by (cases dir) (auto simp: vpic_action_def vpic_intercept_pic_io_def Let_def i_def [symmetric] good_put good_get)
qed

lemma elcr_io_ok:
  assumes "good s"
  shows "\<exists>v s'. vpic_action get put Elcr_io dir port 1 val s = Some (X86EMUL_OKAY, v, s') \<and> good s'"
proof -
  obtain r s' where "vpic_intercept_elcr_io dir port 1 val (get s) = Some (r, s')" "vpic_ok s'" by (rule elcr_ok [OF good_get [OF assms]])
  then show ?thesis using assms by (simp add: vpic_action_def good_put)
qed

end

sublocale vpic_host \<subseteq> master: portio_device "vpic_action get put Pic_io" good "0x20" "2"
  by unfold_locales (rule pic_ok, auto simp: in_range_def)

sublocale vpic_host \<subseteq> slave: portio_device "vpic_action get put Pic_io" good "0xa0" "2"
  by unfold_locales (rule pic_ok, auto simp: in_range_def)

lemma one_byte: "in_range lo 1 port bytes \<Longrightarrow> bytes = 1"
proof -
  assume "in_range lo 1 port bytes"
  then have "unat bytes = 1" unfolding in_range_def by linarith
  then show ?thesis by (simp add: word_unat_eq_iff)
qed

sublocale vpic_host \<subseteq> elcr0: portio_device "vpic_action get put Elcr_io" good "0x4d0" "1"
  by unfold_locales (use elcr_io_ok one_byte in blast)

sublocale vpic_host \<subseteq> elcr1: portio_device "vpic_action get put Elcr_io" good "0x4d1" "1"
  by unfold_locales (use elcr_io_ok one_byte in blast)


section \<open>Dispatch to the interrupt controllers\<close>

text \<open>The requests the processor makes: a 16-bit port and an access of at most four bytes.\<close>

definition valid_pio :: "ioreq \<Rightarrow> bool" where
  "valid_pio p \<longleftrightarrow> unat (io_addr p) < 2 ^ 16 \<and> 0 < unat (io_size p) \<and> unat (io_size p) \<le> 4"

lemma handles_range:
  assumes "valid_pio p" "unat (h_addr f) + unat (h_size f) < 2 ^ 16" "h_type f = HVM_PORTIO"
  shows "handles HVM_PORTIO p f \<longleftrightarrow> in_range (unat (h_addr f)) (unat (h_size f)) (ucast (io_addr p)) (io_size p)"
proof -
  have a: "unat (ucast (io_addr p) :: u32) = unat (io_addr p)"
    using assms(1) by (simp add: valid_pio_def unsigned_ucast_eq take_bit_nat_eq_self_iff)
  have n: "unat (ucast (io_size p) :: ulong) = unat (io_size p)" using assms(1)
    by (simp add: valid_pio_def unsigned_ucast_eq take_bit_nat_eq_self_iff)
  have "unat (io_addr p + ucast (io_size p)) = unat (io_addr p) + unat (io_size p)"
    using assms(1) by (subst unat_plus_simple [THEN iffD1]) (auto simp: no_olen_add_nat valid_pio_def n)
  moreover have "unat (h_addr f + h_size f) = unat (h_addr f) + unat (h_size f)"
    using assms(2) by (subst unat_plus_simple [THEN iffD1]) (auto simp: no_olen_add_nat)
  ultimately show ?thesis using assms by (auto simp: handles_def in_range_def word_le_nat_alt a valid_pio_def)
qed

definition vpic_ports :: "('s \<Rightarrow> vpics) \<Rightarrow> (vpics \<Rightarrow> 's \<Rightarrow> 's) \<Rightarrow> 's io_handler list" where
  "vpic_ports get put = map (\<lambda>(a, n, k). \<lparr>h_type = HVM_PORTIO, h_addr = a, h_size = n, h_action = Portio (vpic_action get put k)\<rparr>)
     [(0x20, 2, Pic_io), (0xa0, 2, Pic_io), (0x4d0, 1, Elcr_io), (0x4d1, 1, Elcr_io)]"

lemma register_vpic_eq: "register_vpic get put s [] = Some (put (vpic_reset (get s)) s, vpic_ports get put)"
  by (simp add: register_vpic_def vpic_init_def vpic_ports_def register_io_handler_def)

context vpic_host
begin

lemma dispatch_ok:
  assumes m: "memory_keeps m good" and g: "good s" and p: "valid_pio p"
  shows "\<exists>rc p' s'. intercept_from m junk (vpic_ports get put) HVM_PORTIO p s = Some (rc, p', s') \<and> good s' \<and>
    (rc = X86EMUL_OKAY \<or> rc = X86EMUL_UNHANDLEABLE \<and> p' = p \<and> s' = s)"
proof -
  note h = handles_range [OF p]
  show ?thesis
    using master.process_ok [OF m _ g, of p junk] slave.process_ok [OF m _ g, of p junk]
      elcr0.process_ok [OF m _ g, of p junk] elcr1.process_ok [OF m _ g, of p junk] g
    by (simp add: vpic_ports_def h) fastforce
qed

end

end
