(* ===== verification/Hvm_Irq_Correct.thy ===== *)
theory Hvm_Irq_Correct
  imports Hvm_Irq_Wires Portio_Correct
begin

text \<open>
  Correctness of the operations on the virtual interrupt wires: each changes the wires of its domain by the functions of
  \<open>Hvm_Irq_Wires\<close>, leaves the wires of other domains alone and keeps all interrupt controllers well formed, so the counters
  stay the numbers of asserted wires.
\<close>

section \<open>Frames\<close>

lemma hvm_simps [simp]:
  "hx (upd_hvm d f h) = hx h" "hdoms (upd_hvm d f h) = (hdoms h)(d := f (hdoms h d))" "irqs_off (upd_hvm d f h) = irqs_off h"
  "hx (hvm_emit e h) = hx h" "hdoms (hvm_emit e h) = hdoms h" "irqs_off (hvm_emit e h) = irqs_off h"
  by (simp_all add: upd_hvm_def hvm_emit_def)

lemma upd_irq_simps [simp]:
  "hx (upd_irq d f h) = hx h" "irqs e (upd_irq d f h) = (if e = d then f (irqs d h) else irqs e h)"
  "hvpic (hdoms (upd_irq d f h) e) = hvpic (hdoms h e)" "irq_lock (hdoms (upd_irq d f h) e) = irq_lock (hdoms h e)"
  "irqs_off (upd_irq d f h) = irqs_off h"
  by (simp_all add: upd_irq_def)

text \<open>What an operation on domain \<open>d\<close> does: its wires become \<open>J\<close>, other domains keep theirs, and interrupt controllers
  stay well formed.\<close>

definition pics_ok :: "hvms \<Rightarrow> bool" where
  "pics_ok h \<longleftrightarrow> (\<forall>e. vpic_ok (hvpic (hdoms h e)))"

definition moves :: "domid \<Rightarrow> hvm_irq \<Rightarrow> hvms \<Rightarrow> hvms \<Rightarrow> bool" where
  "moves d J h h' \<longleftrightarrow> irqs d h' = J \<and> (\<forall>e. e \<noteq> d \<longrightarrow> irqs e h' = irqs e h) \<and> (pics_ok h \<longrightarrow> pics_ok h')"

lemma moves_refl: "moves d (irqs d h) h h"
  by (simp add: moves_def)

lemma moves_trans: "moves d J h h1 \<Longrightarrow> moves d K h1 h2 \<Longrightarrow> moves d K h h2"
  by (auto simp: moves_def)

lemma moves_upd: "moves d (f (irqs d h)) h (upd_irq d f h)"
  by (simp add: moves_def pics_ok_def)

lemma moves_lock: "lock_irq d h = Some h' \<Longrightarrow> moves d (irqs d h) h h'" "moves d (irqs d h) h (unlock_irq d h)"
  by (auto simp: moves_def lock_irq_def unlock_irq_def pics_ok_def split: if_splits)

lemma moves_emit: "moves d (irqs d h) h (hvm_emit e h)"
  by (simp add: moves_def pics_ok_def)

lemma moves_pic:
  assumes "pic_edge f d irq h = Some h'" "\<And>p p'. vpic_ok p \<Longrightarrow> f irq p = Some p' \<Longrightarrow> vpic_ok p'"
  shows "moves d (irqs d h) h h'"
proof -
  obtain p where p: "f irq (hvpic (hdoms h d)) = Some p" "h' = upd_hvm d (\<lambda>D. D\<lparr>hvpic := p\<rparr>) h"
    using assms(1) by (auto simp: pic_edge_def split: bind_splits)
  have "vpic_ok p" if "pics_ok h" using assms(2) [OF _ p(1)] that by (simp add: pics_ok_def)
  then show ?thesis by (auto simp: p(2) moves_def pics_ok_def)
qed

lemma edge_bound: "vpic_irq_edge f irq s = Some s' \<Longrightarrow> irq \<le> 15"
  by (simp add: vpic_irq_edge_def Let_def split: if_splits)

lemma edge_keeps:
  "vpic_ok p \<Longrightarrow> vpic_irq_positive_edge irq p = Some p' \<Longrightarrow> vpic_ok p'"
  "vpic_ok p \<Longrightarrow> vpic_irq_negative_edge irq p = Some p' \<Longrightarrow> vpic_ok p'"
  using edges_ok [of p irq] edge_bound [of _ irq p p']
  unfolding vpic_irq_positive_edge_def vpic_irq_negative_edge_def by auto

lemma moves_edges:
  "pic_positive_edge d irq h = Some h' \<Longrightarrow> moves d (irqs d h) h h'" "pic_negative_edge d irq h = Some h' \<Longrightarrow> moves d (irqs d h) h h'"
  by (erule moves_pic, erule (1) edge_keeps)+

lemma moves_inc: "gsi_inc d g h = Some (b, h') \<Longrightarrow> moves d (add_gsi g 1 (irqs d h)) h h' \<and> g < 48 \<and> b = (gsi_assert_count (irqs d h) g = 0)"
  and moves_dec: "gsi_dec d g h = Some (b, h') \<Longrightarrow> moves d (add_gsi g (- 1) (irqs d h)) h h' \<and> g < 48 \<and> b = (gsi_assert_count (irqs d h) g - 1 = 0)"
  by (auto simp: gsi_inc_def gsi_dec_def moves_def add_gsi_def pics_ok_def split: if_splits)

lemma moves_send:
  assumes "hvm_send_pirq evtchn_irq_locked x d i h = Some h'"
  shows "moves d (irqs d h) h h'"
proof -
  obtain s where r: "run_upcalls evtchn_irq_locked (drop (length (effects (hx h))) (effects s)) (h\<lparr>hx := s\<rparr>) = Some h'"
    using assms by (auto simp: hvm_send_pirq_def split: bind_splits)
  let ?P = "\<lambda>k. (\<forall>e. irqs e k = irqs e h \<and> hvpic (hdoms k e) = hvpic (hdoms h e))"
  have "?P h'"
    by (rule foldM_inv [OF r [unfolded run_upcalls_def]])
      (auto simp: evtchn_irq_locked_def evtchn_irq_by_def lock_irq_def split: effect.splits if_splits)
  then show ?thesis by (simp add: moves_def pics_ok_def)
qed


text \<open>The same for an operation that may not return, with rules for sequences.\<close>

definition gives :: "domid \<Rightarrow> hvm_irq \<Rightarrow> hvms \<Rightarrow> hvms option \<Rightarrow> bool" where
  "gives d J h r \<longleftrightarrow> (\<forall>h'. r = Some h' \<longrightarrow> moves d J h h')"

lemma gives_Some: "gives d J h (Some h') \<longleftrightarrow> moves d J h h'"
  by (simp add: gives_def)

lemma gives_None [simp]: "gives d J h None"
  by (simp add: gives_def)

lemma gives_same: "irqs d h = J \<Longrightarrow> gives d J h (Some h)"
  using moves_refl [of d h] by (simp add: gives_Some)

lemma gives_after: "moves d J h k \<Longrightarrow> gives d K k r \<Longrightarrow> gives d K h r"
  using moves_trans [of d J h k K] by (simp add: gives_def)

lemma gives_bind:
  assumes "gives d J h r" "\<And>k. irqs d k = J \<Longrightarrow> gives d K k (f k)"
  shows "gives d K h (r \<bind> f)"
proof (cases r)
  case (Some k)
  then have "moves d J h k" using assms(1) by (simp add: gives_Some)
  moreover have "gives d K k (f k)" using assms(2) \<open>moves d J h k\<close> by (simp add: moves_def)
  ultimately show ?thesis using Some gives_after [of d J h k K "f k"] by simp
qed simp

lemma gives_upd: "gives d K (upd_irq d f h) r \<Longrightarrow> gives d K h r"
  by (rule gives_after [OF moves_upd])

lemma gives_updated: "f (irqs d h) = J \<Longrightarrow> gives d J h (Some (upd_irq d f h))"
  using moves_upd [of d f h] by (simp add: gives_Some)

lemma gives_inc:
  assumes "\<And>k. g < 48 \<Longrightarrow> irqs d k = add_gsi g 1 (irqs d h) \<Longrightarrow> gives d K k (f (gsi_assert_count (irqs d h) g = 0, k))"
  shows "gives d K h (gsi_inc d g h \<bind> f)"
proof (cases "gsi_inc d g h")
  case (Some p)
  then obtain b k where p: "p = (b, k)" by (cases p)
  with Some have m: "moves d (add_gsi g 1 (irqs d h)) h k" "g < 48" "b = (gsi_assert_count (irqs d h) g = 0)" using moves_inc [of d g h b k] by auto
  then have "gives d K k (f (b, k))" using assms [of k] by (simp add: moves_def)
  then show ?thesis using gives_after [OF m(1)] Some p by simp
qed simp

lemma gives_dec:
  assumes "\<And>k. g < 48 \<Longrightarrow> irqs d k = add_gsi g (- 1) (irqs d h) \<Longrightarrow> gives d K k (f (gsi_assert_count (irqs d h) g - 1 = 0, k))"
  shows "gives d K h (gsi_dec d g h \<bind> f)"
proof (cases "gsi_dec d g h")
  case (Some p)
  then obtain b k where p: "p = (b, k)" by (cases p)
  with Some have m: "moves d (add_gsi g (- 1) (irqs d h)) h k" "g < 48" "b = (gsi_assert_count (irqs d h) g - 1 = 0)" using moves_dec [of d g h b k] by auto
  then have "gives d K k (f (b, k))" using assms [of k] by (simp add: moves_def)
  then show ?thesis using gives_after [OF m(1)] Some p by simp
qed simp

lemma gives_locked:
  assumes "\<And>k. irqs d k = irqs d h \<Longrightarrow> hx k = hx h \<Longrightarrow> gives d J k (f k)"
  shows "gives d J h (lock_irq d h \<bind> f)"
proof (cases "lock_irq d h")
  case (Some k)
  then have "irqs d k = irqs d h" "hx k = hx h" by (auto simp: lock_irq_def split: if_splits)
  then show ?thesis using gives_after [OF moves_lock(1) [OF Some] assms [of k]] Some by simp
qed simp

lemma gives_unlock: "irqs d h = J \<Longrightarrow> gives d J h (Some (unlock_irq d h))"
  using moves_lock(2) [of d h] by (simp add: gives_Some)

lemma gives_edges:
  "irqs d h = J \<Longrightarrow> gives d J h (pic_positive_edge d irq h)" "irqs d h = J \<Longrightarrow> gives d J h (pic_negative_edge d irq h)"
  by (auto simp: gives_def dest: moves_edges)

section \<open>Operations on the wires\<close>

lemma gives_assert_gsi: "irqs d h = J \<Longrightarrow> gives d J h (assert_gsi x d g h)"
  by (auto simp: assert_gsi_def gives_def moves_emit split: bind_splits if_splits dest: moves_send)

lemma gives_assert_irq: "irqs d h = J \<Longrightarrow> gives d J h (assert_irq x d g i h)"
  unfolding assert_irq_def by (rule gives_bind [OF gives_assert_gsi]) (auto intro: gives_edges)

lemma gives_deassert_irq: "irqs d h = J \<Longrightarrow> gives d J h (deassert_irq d i h)"
  unfolding deassert_irq_def by (cases "doms (hx h) d") (auto intro: gives_edges gives_same)

lemma gives_if: "(b \<Longrightarrow> gives d J h r) \<Longrightarrow> (\<not> b \<Longrightarrow> gives d J h r') \<Longrightarrow> gives d J h (if b then r else r')"
  by simp

lemma gives_link: "gives d K (link_add d l c h) r \<Longrightarrow> gives d K h r"
  unfolding link_add_def by (rule gives_upd)

lemma link_add_irqs: "irqs d (link_add d l c h) = (irqs d h)\<lparr>pci_link_assert_count := bump l c (pci_link_assert_count (irqs d h))\<rparr>"
  by (simp add: link_add_def)

lemma gives_inc_assert:
  assumes "irqs d h = J"
  shows "gives d (add_gsi g 1 J) h (gsi_inc d g h \<bind> (\<lambda>(first, h). if first then assert_irq x d g' i h else Some h))"
  by (rule gives_inc) (auto simp: assms intro: gives_assert_irq gives_same)

lemma gives_inc_gsi:
  assumes "irqs d h = J"
  shows "gives d (add_gsi g 1 J) h (gsi_inc d g h \<bind> (\<lambda>(first, h). if first then assert_gsi x d g h else Some h))"
  by (rule gives_inc) (auto simp: assms intro: gives_assert_gsi gives_same)

lemma gives_dec_deassert:
  assumes "irqs d h = J"
  shows "gives d (add_gsi g (- 1) J) h (gsi_dec d g h \<bind> (\<lambda>(last, h). if last then deassert_irq d i h else Some h))"
  by (rule gives_dec) (auto simp: assms intro: gives_deassert_irq gives_same)

lemma pci_assert_eq:
  assumes "dev \<le> 31" "intx \<le> 3" and w: "w = dev * 4 + intx"
  shows "pci_intx_assert x d dev intx h =
    (if pci_intx (irqs d h) w then Some h
     else (gsi_inc d (wire_gsi w) (upd_irq d (\<lambda>I. I\<lparr>pci_intx := (pci_intx I)(w := True)\<rparr>) h) \<bind>
             (\<lambda>(first, h). if first then assert_gsi x d (wire_gsi w) h else Some h)) \<bind>
          (\<lambda>h. let isa = route (irqs d h) (wire_link w); idle = (pci_link_assert_count (irqs d h) (wire_link w) = 0);
                   h = link_add d (wire_link w) 1 h in
               if idle \<and> isa \<noteq> 0 then gsi_inc d isa h \<bind> (\<lambda>(first, h). if first then assert_irq x d isa isa h else Some h) else Some h))"
  using assms wire_index [of intx dev] by (simp add: pci_intx_assert_def Let_def w split: bind_splits cong: if_cong)

lemma gives_wire_on:
  assumes w: "w = dev * 4 + intx"
  shows "gives d (if pci_intx (irqs d h) w then irqs d h else wire_on w (irqs d h)) h (pci_intx_assert x d dev intx h)"
proof (cases "dev \<le> 31 \<and> intx \<le> 3 \<and> \<not> pci_intx (irqs d h) w")
  case True
  define J where "J = add_gsi (wire_gsi w) 1 ((irqs d h)\<lparr>pci_intx := (pci_intx (irqs d h))(w := True)\<rparr>)"
  define l where "l = wire_link w"
  have J: "wire_on w (irqs d h) = (let K = J\<lparr>pci_link_assert_count := bump l 1 (pci_link_assert_count J)\<rparr> in
      if pci_link_assert_count J l = 0 \<and> route J l \<noteq> 0 then add_gsi (route J l) 1 K else K)"
    by (simp add: wire_on_def J_def l_def add_gsi_def Let_def)
  have tail: "gives d (wire_on w (irqs d h)) k
      (if pci_link_assert_count (irqs d k) l = 0 \<and> route (irqs d k) l \<noteq> 0
       then gsi_inc d (route (irqs d k) l) (link_add d l 1 k) \<bind>
         (\<lambda>(first, h). if first then assert_irq x d (route (irqs d k) l) (route (irqs d k) l) h else Some h)
       else Some (link_add d l 1 k))" if "irqs d k = J" for k
    unfolding J that Let_def
    by (rule gives_link) (auto simp: link_add_irqs that intro: gives_inc_assert gives_same)
  have head: "gives d J h (gsi_inc d (wire_gsi w) (upd_irq d (\<lambda>I. I\<lparr>pci_intx := (pci_intx I)(w := True)\<rparr>) h) \<bind>
      (\<lambda>(first, h). if first then assert_gsi x d (wire_gsi w) h else Some h))"
    unfolding J_def by (rule gives_upd, rule gives_inc_gsi) simp
  show ?thesis using True gives_bind [OF head tail] unfolding l_def by (simp add: pci_assert_eq [OF _ _ w] Let_def)
next
  case False
  then show ?thesis by (auto simp: pci_intx_assert_def w intro: gives_same)
qed

lemma pci_deassert_eq:
  assumes "dev \<le> 31" "intx \<le> 3" and w: "w = dev * 4 + intx"
  shows "pci_intx_deassert d dev intx h =
    (if \<not> pci_intx (irqs d h) w then Some h
     else gsi_dec d (wire_gsi w) (upd_irq d (\<lambda>I. I\<lparr>pci_intx := (pci_intx I)(w := False)\<rparr>) h) \<bind>
          (\<lambda>(_, h). let isa = route (irqs d h) (wire_link w); h = link_add d (wire_link w) (- 1) h in
               if pci_link_assert_count (irqs d h) (wire_link w) = 0 \<and> isa \<noteq> 0
               then gsi_dec d isa h \<bind> (\<lambda>(last, h). if last then deassert_irq d isa h else Some h) else Some h))"
  using assms wire_index [of intx dev] by (simp add: pci_intx_deassert_def Let_def w cong: if_cong)

lemma gives_wire_off:
  assumes w: "w = dev * 4 + intx"
  shows "gives d (if pci_intx (irqs d h) w then wire_off w (irqs d h) else irqs d h) h (pci_intx_deassert d dev intx h)"
proof (cases "dev \<le> 31 \<and> intx \<le> 3 \<and> pci_intx (irqs d h) w")
  case True
  define J where "J = add_gsi (wire_gsi w) (- 1) ((irqs d h)\<lparr>pci_intx := (pci_intx (irqs d h))(w := False)\<rparr>)"
  define l where "l = wire_link w"
  have J: "wire_off w (irqs d h) = (let K = J\<lparr>pci_link_assert_count := bump l (- 1) (pci_link_assert_count J)\<rparr> in
      if pci_link_assert_count K l = 0 \<and> route J l \<noteq> 0 then add_gsi (route J l) (- 1) K else K)"
    by (simp add: wire_off_def J_def l_def add_gsi_def Let_def)
  have tail: "gives d (wire_off w (irqs d h)) k
      (if pci_link_assert_count (irqs d (link_add d l (- 1) k)) l = 0 \<and> route (irqs d k) l \<noteq> 0
       then gsi_dec d (route (irqs d k) l) (link_add d l (- 1) k) \<bind>
         (\<lambda>(last, h). if last then deassert_irq d (route (irqs d k) l) h else Some h)
       else Some (link_add d l (- 1) k))" if "irqs d k = J" for k
    unfolding J that Let_def
    by (rule gives_link) (auto simp: link_add_irqs that intro: gives_dec_deassert gives_same)
  have all: "gives d (wire_off w (irqs d h)) (upd_irq d (\<lambda>I. I\<lparr>pci_intx := (pci_intx I)(w := False)\<rparr>) h)
      (gsi_dec d (wire_gsi w) (upd_irq d (\<lambda>I. I\<lparr>pci_intx := (pci_intx I)(w := False)\<rparr>) h) \<bind>
          (\<lambda>(_, k). if pci_link_assert_count (irqs d (link_add d l (- 1) k)) l = 0 \<and> route (irqs d k) l \<noteq> 0
       then gsi_dec d (route (irqs d k) l) (link_add d l (- 1) k) \<bind>
         (\<lambda>(last, h). if last then deassert_irq d (route (irqs d k) l) h else Some h)
       else Some (link_add d l (- 1) k)))"
    by (rule gives_dec, subst prod.case, rule tail, simp add: J_def)
  show ?thesis using True gives_upd [OF all] unfolding l_def by (simp add: pci_deassert_eq [OF _ _ w] Let_def)
next
  case False
  then show ?thesis by (auto simp: pci_intx_deassert_def w intro: gives_same)
qed


definition set_wire :: "nat \<Rightarrow> bool \<Rightarrow> hvm_irq \<Rightarrow> hvm_irq" where
  "set_wire w b I = (if w \<ge> 128 \<or> pci_intx I w = b then I else if b then wire_on w I else wire_off w I)"

lemma gives_pci:
  assumes "irqs d h = I"
  shows "gives d (set_wire (dev * 4 + intx) True I) h (pci_intx_assert x d dev intx h)"
    and "gives d (set_wire (dev * 4 + intx) False I) h (pci_intx_deassert d dev intx h)"
proof -
  define w where "w = dev * 4 + intx"
  have "w < 128" if "dev \<le> 31" "intx \<le> 3" using that by (simp add: w_def)
  then show "gives d (set_wire (dev * 4 + intx) True I) h (pci_intx_assert x d dev intx h)"
    "gives d (set_wire (dev * 4 + intx) False I) h (pci_intx_deassert d dev intx h)"
    using gives_wire_on [OF w_def, of d h x] gives_wire_off [OF w_def, of d h] assms
    by (cases "dev \<le> 31 \<and> intx \<le> 3";
        auto simp: set_wire_def w_def [symmetric] pci_intx_assert_def pci_intx_deassert_def split: if_splits)+
qed

section \<open>The invariant of all domains\<close>

definition wires_ok :: "hvm_irq \<Rightarrow> bool" where
  "wires_ok I \<longleftrightarrow> counts_ok I \<and> via_ok I"

definition hvm_ok :: "hvms \<Rightarrow> bool" where
  "hvm_ok h \<longleftrightarrow> pics_ok h \<and> (\<forall>e. wires_ok (irqs e h))"

definition holds :: "hvms \<Rightarrow> hvms option \<Rightarrow> bool" where
  "holds h r \<longleftrightarrow> (hvm_ok h \<longrightarrow> (\<forall>h'. r = Some h' \<longrightarrow> hvm_ok h'))"

lemma hvm_ok_frame [simp]: "hvm_ok (hvm_emit e h) = hvm_ok h" "hvm_ok (h\<lparr>hx := s\<rparr>) = hvm_ok h"
  by (simp_all add: hvm_ok_def pics_ok_def)

lemma holds_gives: "gives d J h r \<Longrightarrow> (wires_ok (irqs d h) \<Longrightarrow> wires_ok J) \<Longrightarrow> holds h r"
  unfolding holds_def gives_def moves_def hvm_ok_def by metis

lemma set_wire_via: "via_ok (set_wire w b I) = via_ok I"
  by (simp add: via_ok_def set_wire_def wire_on_def wire_off_def Let_def)

lemma set_wire_counts: "counts_ok I \<Longrightarrow> counts_ok (set_wire w b I)"
  using wire_on_counts [of w I] wire_off_counts [of w I] by (auto simp: set_wire_def)

lemma set_wire_ok: "wires_ok I \<Longrightarrow> wires_ok (set_wire w b I)"
  by (simp add: wires_ok_def set_wire_via set_wire_counts)

lemma gives_section: "(\<And>k. irqs d k = irqs d h \<Longrightarrow> hx k = hx h \<Longrightarrow> gives d J k (f k)) \<Longrightarrow>
    gives d J h (lock_irq d h \<bind> (\<lambda>h. f h \<bind> (\<lambda>h. Some (unlock_irq d h))))"
  by (rule gives_locked, rule gives_bind [where J = J]) (auto intro: gives_unlock)

lemma pci_assert_holds: "holds h (hvm_pci_intx_assert x d dev intx h)" "holds h (hvm_pci_intx_deassert d dev intx h)"
  unfolding hvm_pci_intx_assert_def hvm_pci_intx_deassert_def
  by (rule holds_gives [OF gives_section], erule gives_pci, erule set_wire_ok)+

definition set_isa :: "nat \<Rightarrow> bool \<Rightarrow> hvm_irq \<Rightarrow> hvm_irq" where
  "set_isa i b I =
     (if i \<ge> 16 \<or> isa_irq I i = b then I
      else add_gsi (hvm_isa_irq_to_gsi i) (if b then 1 else - 1) (I\<lparr>isa_irq := (isa_irq I)(i := b)\<rparr>))"

lemma set_isa_ok: "wires_ok I \<Longrightarrow> wires_ok (set_isa i b I)"
  using isa_wires_on [of i I] isa_wires_off [of i I] by (auto simp: wires_ok_def set_isa_def via_ok_def)

lemma set_isa_same: "isa_irq I i = b \<Longrightarrow> set_isa i b I = I"
  by (simp add: set_isa_def)

lemma gives_isa_assert: "gives d (set_isa i True (irqs d h)) h (hvm_isa_irq_assert x d i h)"
proof (cases "i \<le> 15")
  case True
  have on: "gives d (set_isa i True (irqs d h)) k
      (gsi_inc d (hvm_isa_irq_to_gsi i) (upd_irq d (\<lambda>I. I\<lparr>isa_irq := (isa_irq I)(i := True)\<rparr>) k) \<bind>
       (\<lambda>(first, h). if first then assert_irq x d (hvm_isa_irq_to_gsi i) i h else Some h))"
    if "irqs d k = irqs d h" "\<not> isa_irq (irqs d h) i" for k
  proof -
    have "set_isa i True (irqs d h) = add_gsi (hvm_isa_irq_to_gsi i) 1 ((irqs d h)\<lparr>isa_irq := (isa_irq (irqs d h))(i := True)\<rparr>)"
      using True that by (simp add: set_isa_def)
    then show ?thesis by (simp only:, intro gives_upd [of d _ "\<lambda>I. I\<lparr>isa_irq := (isa_irq I)(i := True)\<rparr>" k] gives_inc_assert) (simp add: that)
  qed
  show ?thesis
    using True unfolding hvm_isa_irq_assert_def Let_def assert_that_bind
    by simp (rule gives_section, rule gives_if, auto simp: set_isa_same intro: gives_same on)
next
  case False
  then show ?thesis by (simp add: hvm_isa_irq_assert_def Let_def)
qed

lemma gives_isa_deassert: "gives d (set_isa i False (irqs d h)) h (hvm_isa_irq_deassert d i h)"
proof (cases "i \<le> 15")
  case True
  have off: "gives d (set_isa i False (irqs d h)) k
      (gsi_dec d (hvm_isa_irq_to_gsi i) (upd_irq d (\<lambda>I. I\<lparr>isa_irq := (isa_irq I)(i := False)\<rparr>) k) \<bind>
       (\<lambda>(last, h). if last then deassert_irq d i h else Some h))"
    if "irqs d k = irqs d h" "isa_irq (irqs d h) i" for k
  proof -
    have "set_isa i False (irqs d h) = add_gsi (hvm_isa_irq_to_gsi i) (- 1) ((irqs d h)\<lparr>isa_irq := (isa_irq (irqs d h))(i := False)\<rparr>)"
      using True that by (simp add: set_isa_def)
    then show ?thesis by (simp only:, intro gives_upd [of d _ "\<lambda>I. I\<lparr>isa_irq := (isa_irq I)(i := False)\<rparr>" k] gives_dec_deassert) (simp add: that)
  qed
  show ?thesis
    using True unfolding hvm_isa_irq_deassert_def Let_def assert_that_bind
    by simp (rule gives_section, rule gives_if, auto simp: set_isa_same intro: gives_same off)
next
  case False
  then show ?thesis by (simp add: hvm_isa_irq_deassert_def Let_def)
qed

lemma isa_holds: "holds h (hvm_isa_irq_assert x d i h)" "holds h (hvm_isa_irq_deassert d i h)"
  by (blast intro: holds_gives gives_isa_assert gives_isa_deassert set_isa_ok)+


section \<open>The call-back line\<close>

lemma gives_emitted:
  assumes "irqs d h = J"
  shows "gives d J h (Some (hvm_emit e h))" "gives d J h (pic_positive_edge d g (hvm_emit e h))"
proof -
  have m: "moves d J h (hvm_emit e h)" using moves_emit [of d h e] assms by simp
  then show "gives d J h (Some (hvm_emit e h))" by (simp add: gives_Some)
  have "gives d J (hvm_emit e h) (pic_positive_edge d g (hvm_emit e h))" using assms by (intro gives_edges) simp
  then show "gives d J h (pic_positive_edge d g (hvm_emit e h))" by (rule gives_after [OF m])
qed

lemma gives_callback_assert: "irqs d h = J \<Longrightarrow> gives d (add_gsi g 1 J) h (callback_gsi_assert d g h)"
  unfolding callback_gsi_assert_def by (rule gives_inc) (simp add: Let_def gives_emitted gives_same)

lemma gives_callback_deassert: "irqs d h = J \<Longrightarrow> gives d (add_gsi g (- 1) J) h (callback_gsi_deassert d g h)"
  unfolding callback_gsi_deassert_def by (rule gives_dec) (simp add: gives_edges gives_same)

text \<open>The wires after the call-back line has the level \<open>b\<close>, which it did not have before.\<close>

definition set_callback :: "bool \<Rightarrow> hvm_irq \<Rightarrow> hvm_irq" where
  "set_callback b I =
     (let J = I\<lparr>callback_via_asserted := b\<rparr> in
      case callback_via_type I of
        HVMIRQ_callback_gsi \<Rightarrow> add_gsi (via_gsi I) (if b then 1 else - 1) J
      | HVMIRQ_callback_pci_intx \<Rightarrow> set_wire (via_dev I * 4 + via_intx I) b J
      | _ \<Rightarrow> J)"

lemma callback_flag_counts: "counts_ok I \<Longrightarrow> callback_via_type I \<noteq> HVMIRQ_callback_gsi \<Longrightarrow> counts_ok (I\<lparr>callback_via_asserted := b\<rparr>)"
  by (rule callback_counts [of I]) (simp_all add: callback_wire_def)

lemma via_ok_flag: "via_ok (I\<lparr>callback_via_asserted := b\<rparr>) = via_ok I" "via_ok (add_gsi g c I) = via_ok I"
  by (simp_all add: via_ok_def)

lemma set_callback_ok:
  assumes ok: "wires_ok I" and b: "callback_via_asserted I \<noteq> b"
  shows "wires_ok (set_callback b I)"
proof (cases "callback_via_type I")
  case HVMIRQ_callback_gsi
  have "counts_ok (add_gsi (via_gsi I) (if b then 1 else - 1) (I\<lparr>callback_via_asserted := b\<rparr>))"
    by (rule callback_counts [of I]) (use ok b HVMIRQ_callback_gsi in \<open>auto simp: wires_ok_def callback_wire_def\<close>)
  then show ?thesis using ok by (simp add: HVMIRQ_callback_gsi set_callback_def wires_ok_def via_ok_flag)
qed (use ok in \<open>auto simp: set_callback_def wires_ok_def via_ok_flag set_wire_via intro!: callback_flag_counts set_wire_counts\<close>)

lemma gives_level:
  assumes "irqs d h = I"
  shows "gives d (if callback_via_asserted I = b then I else set_callback b I) h (set_callback_level x d b h)"
proof (cases "callback_via_asserted I = b")
  case True
  then show ?thesis using assms by (simp add: set_callback_level_def gives_same)
next
  case False
  have "gives d (set_callback b I) h
     (case callback_via_type I of
        HVMIRQ_callback_gsi \<Rightarrow> if b then callback_gsi_assert d (via_gsi I) (upd_irq d (\<lambda>I. I\<lparr>callback_via_asserted := b\<rparr>) h)
          else callback_gsi_deassert d (via_gsi I) (upd_irq d (\<lambda>I. I\<lparr>callback_via_asserted := b\<rparr>) h)
      | HVMIRQ_callback_pci_intx \<Rightarrow>
          if b then pci_intx_assert x d (via_dev I) (via_intx I) (upd_irq d (\<lambda>I. I\<lparr>callback_via_asserted := b\<rparr>) h)
          else pci_intx_deassert d (via_dev I) (via_intx I) (upd_irq d (\<lambda>I. I\<lparr>callback_via_asserted := b\<rparr>) h)
      | _ \<Rightarrow> Some (upd_irq d (\<lambda>I. I\<lparr>callback_via_asserted := b\<rparr>) h))"
    by (rule gives_upd [of d _ "\<lambda>I. I\<lparr>callback_via_asserted := b\<rparr>" h])
      (auto simp: set_callback_def assms split: callback_type.split
        intro: gives_callback_assert gives_callback_deassert gives_pci gives_same)
  then show ?thesis using False assms by (cases b; cases "callback_via_type I"; simp add: set_callback_level_def Let_def)
qed

lemma set_callback_level_holds: "holds h (hvm_set_callback_irq_level x d v h)"
proof (cases "v = 0")
  case True
  define I where "I = irqs d h"
  define b where "b = (case get_vcpu (hx h) d v of None \<Rightarrow> False | Some V \<Rightarrow> evtchn_upcall_pending V)"
  have "gives d (if callback_via_asserted I = b then I else set_callback b I) k
      (case get_vcpu (hx k) d v of None \<Rightarrow> None | Some V \<Rightarrow> set_callback_level x d (evtchn_upcall_pending V) k)"
    if "irqs d k = irqs d h" "hx k = hx h" for k
    using gives_level [of k d I b x] that by (auto simp: I_def b_def split: option.split)
  then have "gives d (if callback_via_asserted I = b then I else set_callback b I) h (hvm_set_callback_irq_level x d v h)"
    unfolding hvm_set_callback_irq_level_def using True by (simp add: gives_section)
  then show ?thesis by (rule holds_gives) (simp add: set_callback_ok I_def)
next
  case False
  then show ?thesis by (simp add: hvm_set_callback_irq_level_def holds_def)
qed


lemma maybe_deassert_holds: "holds h (hvm_maybe_deassert_evtchn_irq x d h)"
  using set_callback_level_holds [of h x d 0]
  by (cases "get_vcpu (hx h) d 0") (auto simp: hvm_maybe_deassert_evtchn_irq_def holds_def split: bind_splits if_splits)

lemma assert_evtchn_holds: "holds h (hvm_assert_evtchn_irq x d v h)"
  using set_callback_level_holds [of h x d v]
  by (simp add: hvm_assert_evtchn_irq_def evtchn_irq_by_def holds_def)

text \<open>The two halves of choosing a call-back line: without a type, the call-back line asserts no GSI.\<close>

definition torn :: "hvm_irq \<Rightarrow> hvm_irq" where
  "torn I =
     (if \<not> callback_via_asserted I then I
      else case callback_via_type I of
        HVMIRQ_callback_gsi \<Rightarrow> add_gsi (via_gsi I) (- 1) I
      | HVMIRQ_callback_pci_intx \<Rightarrow> set_wire (via_dev I * 4 + via_intx I) False I
      | _ \<Rightarrow> I)"

lemma gives_teardown: "gives d (torn (irqs d h)) h (via_teardown d h)"
  by (cases "callback_via_type (irqs d h)")
    (auto simp: torn_def via_teardown_def Let_def intro: gives_same gives_callback_deassert gives_pci)

abbreviation untyped :: "hvm_irq \<Rightarrow> hvm_irq" where
  "untyped I \<equiv> I\<lparr>callback_via_type := HVMIRQ_callback_none\<rparr>"

lemma set_wire_untyped: "untyped (set_wire w b I) = set_wire w b (untyped I)"
  by (simp add: set_wire_def wire_on_def wire_off_def Let_def add_gsi_def)

lemma torn_counts:
  assumes "counts_ok I"
  shows "counts_ok (untyped (torn I))"
proof (cases "callback_via_type I")
  case HVMIRQ_callback_pci_intx
  have "counts_ok (untyped I)" by (rule callback_counts [OF assms]) (simp_all add: callback_wire_def HVMIRQ_callback_pci_intx)
  then show ?thesis using HVMIRQ_callback_pci_intx by (simp add: torn_def set_wire_untyped set_wire_counts)
next
  case HVMIRQ_callback_gsi
  then show ?thesis by (intro callback_counts [OF assms]) (simp_all add: torn_def callback_wire_def)
qed (rule callback_counts [OF assms]; simp add: torn_def callback_wire_def)+

lemma torn_fields: "via_dev (torn I) = via_dev I" "via_intx (torn I) = via_intx I" "route (torn I) = route I"
  "callback_via_asserted (torn I) = callback_via_asserted I"
  by (simp_all add: torn_def set_wire_def wire_on_def wire_off_def Let_def split: callback_type.split)

definition setup_wires :: "64 word \<Rightarrow> hvm_irq \<Rightarrow> hvm_irq" where
  "setup_wires via I =
     (let low = unat (ucast via :: u8); J = I\<lparr>callback_via_type := via_type_of via\<rparr> in
      case via_type_of via of
        HVMIRQ_callback_gsi \<Rightarrow>
          if low = 0 \<or> low \<ge> VIOAPIC_NUM_PINS then untyped (J\<lparr>via_gsi := low\<rparr>)
          else if callback_via_asserted I then add_gsi low 1 (J\<lparr>via_gsi := low\<rparr>) else J\<lparr>via_gsi := low\<rparr>
      | HVMIRQ_callback_pci_intx \<Rightarrow>
          let dev = unat ((ucast (drop_bit 11 via) :: u8) AND 31); intx = unat ((ucast via :: u8) AND 3);
              K = J\<lparr>via_dev := dev, via_intx := intx\<rparr>
          in if callback_via_asserted I then set_wire (dev * 4 + intx) True K else K
      | HVMIRQ_callback_vector \<Rightarrow> J\<lparr>via_vector := low\<rparr>
      | HVMIRQ_callback_none \<Rightarrow> J)"

lemma gives_setup:
  assumes "irqs d h = I"
  shows "gives d (setup_wires via I) h (via_setup x d via h)"
proof -
  let ?h = "upd_irq d (\<lambda>I. I\<lparr>callback_via_type := via_type_of via\<rparr>) h"
  have "gives d (setup_wires via I) ?h (via_setup x d via h)"
  proof (cases "via_type_of via")
    case HVMIRQ_callback_gsi
    let ?k = "upd_irq d (\<lambda>I. I\<lparr>via_gsi := unat (ucast via :: u8)\<rparr>) ?h"
    have "gives d (setup_wires via I) ?k (via_setup x d via h)"
      by (auto simp: via_setup_def setup_wires_def HVMIRQ_callback_gsi Let_def assms
          intro: gives_same gives_callback_assert intro!: gives_updated)
    then show ?thesis by (rule gives_upd)
  next
    case HVMIRQ_callback_pci_intx
    let ?k = "upd_irq d (\<lambda>I. I\<lparr>via_dev := unat ((ucast (drop_bit 11 via) :: u8) AND 31), via_intx := unat ((ucast via :: u8) AND 3)\<rparr>) ?h"
    have "gives d (setup_wires via I) ?k (via_setup x d via h)"
      by (auto simp: via_setup_def setup_wires_def HVMIRQ_callback_pci_intx Let_def assms intro: gives_same gives_pci)
    then show ?thesis by (rule gives_upd)
  next
    case HVMIRQ_callback_vector
    show ?thesis
      by (simp add: via_setup_def setup_wires_def HVMIRQ_callback_vector Let_def assms gives_updated)
  next
    case HVMIRQ_callback_none
    then show ?thesis by (simp add: via_setup_def setup_wires_def Let_def assms gives_same)
  qed
  then show ?thesis by (rule gives_upd)
qed


lemma mask_le: "unat (x AND 31 :: u8) \<le> 31" "unat (x AND 3 :: u8) \<le> 3"
  using word_and_le1 [of x 31] word_and_le1 [of x 3] by (simp_all add: word_le_nat_alt)

lemma setup_ok:
  assumes c: "counts_ok (untyped I)" and v: "\<forall>l < 4. route I l \<le> 15" "via_dev I \<le> 31" "via_intx I \<le> 3"
  shows "wires_ok (setup_wires via I)"
proof (cases "via_type_of via")
  case HVMIRQ_callback_pci_intx
  define dev intx where "dev = unat ((ucast (drop_bit 11 via) :: u8) AND 31)" and "intx = unat ((ucast via :: u8) AND 3)"
  define K where "K = I\<lparr>callback_via_type := HVMIRQ_callback_pci_intx, via_dev := dev, via_intx := intx\<rparr>"
  have "counts_ok K" by (rule callback_counts [OF c]) (simp_all add: K_def callback_wire_def)
  moreover have "via_ok K" using v by (auto simp: K_def via_ok_def dev_def intx_def mask_le)
  moreover have "setup_wires via I = (if callback_via_asserted I then set_wire (dev * 4 + intx) True K else K)"
    by (simp add: setup_wires_def HVMIRQ_callback_pci_intx Let_def K_def dev_def intx_def)
  ultimately show ?thesis by (simp add: wires_ok_def set_wire_counts set_wire_via)
next
  case HVMIRQ_callback_gsi
  have "counts_ok (setup_wires via I)"
    by (rule callback_counts [OF c]) (auto simp: setup_wires_def HVMIRQ_callback_gsi Let_def callback_wire_def)
  then show ?thesis using v by (auto simp: wires_ok_def via_ok_def setup_wires_def HVMIRQ_callback_gsi Let_def)
next
  case HVMIRQ_callback_none
  have "counts_ok (setup_wires via I)"
    by (rule callback_counts [OF c]) (auto simp: setup_wires_def HVMIRQ_callback_none Let_def callback_wire_def)
  then show ?thesis using v by (auto simp: wires_ok_def via_ok_def setup_wires_def HVMIRQ_callback_none Let_def)
next
  case HVMIRQ_callback_vector
  have "counts_ok (setup_wires via I)"
    by (rule callback_counts [OF c]) (auto simp: setup_wires_def HVMIRQ_callback_vector Let_def callback_wire_def)
  then show ?thesis using v by (auto simp: wires_ok_def via_ok_def setup_wires_def HVMIRQ_callback_vector Let_def)
qed

lemma gives_set_via: "gives d (setup_wires via (torn (irqs d h))) h (hvm_set_callback_via x d via h)"
proof -
  have "gives d (setup_wires via (torn (irqs d h))) k (via_teardown d k \<bind> via_setup x d via)" if "irqs d k = irqs d h" for k
    by (rule gives_bind [where J = "torn (irqs d h)"]) (use gives_teardown [of d k] that gives_setup in auto)
  from gives_section [of d h, OF this] show ?thesis by (simp add: hvm_set_callback_via_def)
qed

lemma set_via_ok: "wires_ok I \<Longrightarrow> wires_ok (setup_wires via (torn I))"
  by (rule setup_ok) (auto simp: wires_ok_def via_ok_def torn_fields torn_counts)

lemma set_via_holds: "holds h (hvm_set_callback_via x d via h)"
  by (rule holds_gives [OF gives_set_via set_via_ok])

section \<open>Routes\<close>

definition reroute :: "nat \<Rightarrow> nat \<Rightarrow> hvm_irq \<Rightarrow> hvm_irq" where
  "reroute l r I =
     (let old = route I l; J = dpci_fixup old (I\<lparr>route := (route I)(l := r)\<rparr>) in
      if old = r then I
      else if pci_link_assert_count I l = 0 then J
      else
        let J = (if old \<noteq> 0 then add_gsi old (- 1) J else J) in
        if r \<noteq> 0 then add_gsi r 1 J else J)"

lemma dpci_fixup_simps [simp]:
  "pci_intx (dpci_fixup o' I) = pci_intx I" "isa_irq (dpci_fixup o' I) = isa_irq I" "route (dpci_fixup o' I) = route I"
  "callback_via_asserted (dpci_fixup o' I) = callback_via_asserted I" "callback_via_type (dpci_fixup o' I) = callback_via_type I"
  "via_gsi (dpci_fixup o' I) = via_gsi I" "via_dev (dpci_fixup o' I) = via_dev I" "via_intx (dpci_fixup o' I) = via_intx I"
  "pci_link_assert_count (dpci_fixup o' I) = pci_link_assert_count I" "gsi_assert_count (dpci_fixup o' I) = gsi_assert_count I"
  by (simp_all add: dpci_fixup_def Let_def split: option.split)

lemma reroute_ok:
  assumes ok: "wires_ok I" and l: "l \<le> 3" and r: "r \<le> 15"
  shows "wires_ok (reroute l r I)"
proof (cases "route I l = r")
  case False
  have c: "counts_ok I" and l4: "l < 4" using ok l by (simp_all add: wires_ok_def)
  note idle = link_count_0 [OF c l4]
  have "counts_ok (reroute l r I)"
    by (rule route_counts [OF c l4, where r = r])
      (use False idle in \<open>auto simp: reroute_def Let_def callback_wire_def link_wire_def fun_eq_iff\<close>)
  then show ?thesis using ok r by (auto simp: wires_ok_def via_ok_def reroute_def Let_def)
qed (use ok in \<open>simp add: reroute_def\<close>)

lemma gives_reroute:
  assumes I: "irqs d h = I"
  shows "gives d (reroute l r I) h (set_link_route d l r h)"
proof -
  define old where "old = route I l"
  define J where "J = dpci_fixup old (I\<lparr>route := (route I)(l := r)\<rparr>)"
  define J1 where "J1 = (if old \<noteq> 0 then add_gsi old (- 1) J else J)"
  have dec: "gives d J1 k (if old \<noteq> 0 then gsi_dec d old k \<bind> (\<lambda>(last, h). if last then pic_negative_edge d old h else Some h) else Some k)"
    if "irqs d k = J" for k
    by (cases "old = 0") (auto simp: J1_def that intro: gives_same intro!: gives_dec gives_edges)
  have inc: "gives d (if r \<noteq> 0 then add_gsi r 1 J1 else J1) k (if r \<noteq> 0 then gsi_inc d r k \<bind>
      (\<lambda>(first, h). if first then pic_positive_edge d r (hvm_emit (Vioapic_positive_edge d r) h) else Some h) else Some k)"
    if "irqs d k = J1" for k
    by (cases "r = 0") (auto simp: that intro: gives_same intro!: gives_inc gives_emitted)
  let ?h = "upd_irq d (\<lambda>I. dpci_fixup old (I\<lparr>route := (route I)(l := r)\<rparr>)) h"
  define both where "both = (if old \<noteq> 0 then gsi_dec d old ?h \<bind> (\<lambda>(last, h). if last then pic_negative_edge d old h else Some h)
       else Some ?h) \<bind>
     (\<lambda>k. if r \<noteq> 0 then gsi_inc d r k \<bind>
       (\<lambda>(first, h). if first then pic_positive_edge d r (hvm_emit (Vioapic_positive_edge d r) h) else Some h) else Some k)"
  have k: "irqs d ?h = J" using I by (simp add: J_def)
  then have g: "gives d (if r \<noteq> 0 then add_gsi r 1 J1 else J1) h both"
    unfolding both_def by (intro gives_upd [of d _ "\<lambda>I. dpci_fixup old (I\<lparr>route := (route I)(l := r)\<rparr>)" h] gives_bind [OF dec inc])
  have j: "gives d J h (Some ?h)" using I by (intro gives_updated) (simp add: J_def)
  have s: "set_link_route d l r h = (if old = r then Some h else if pci_link_assert_count J l = 0 then Some ?h else both)"
    unfolding set_link_route_def Let_def both_def I old_def [symmetric] k ..
  have "reroute l r I = (if old = r then I else if pci_link_assert_count J l = 0 then J else if r \<noteq> 0 then add_gsi r 1 J1 else J1)"
    by (simp add: reroute_def Let_def J_def J1_def old_def)
  then show ?thesis unfolding s using g j gives_same [OF I] by simp
qed

lemma route_holds: "holds h (hvm_set_pci_link_route d l r h)"
proof (cases "l \<le> 3 \<and> r \<le> 15")
  case True
  have "gives d (reroute l r (irqs d h)) h (hvm_set_pci_link_route d l r h)"
    unfolding hvm_set_pci_link_route_def using True by (simp add: gives_section gives_reroute)
  then show ?thesis by (rule holds_gives) (use True reroute_ok in blast)
qed (auto simp: hvm_set_pci_link_route_def holds_def)


section \<open>Message-signalled interrupts, acknowledging and ports\<close>

lemma send_holds: "holds h (hvm_send_pirq (hvm_assert_evtchn_irq x) x d i h)"
proof -
  have "hvm_ok h'" if ok: "hvm_ok h" and r: "run_upcalls (hvm_assert_evtchn_irq x) es (h\<lparr>hx := s\<rparr>) = Some h'" for h' es s
    by (rule foldM_inv [OF r [unfolded run_upcalls_def], of hvm_ok])
      (use ok assert_evtchn_holds in \<open>auto simp: holds_def split: effect.splits\<close>)
  then show ?thesis by (auto simp: hvm_send_pirq_def holds_def split: bind_splits)
qed

lemma holds_Some: "(hvm_ok h \<Longrightarrow> hvm_ok h') \<Longrightarrow> holds h (Some h')"
  by (simp add: holds_def)

lemma holds_after: "(hvm_ok h \<Longrightarrow> hvm_ok k) \<Longrightarrow> holds k r \<Longrightarrow> holds h r"
  unfolding holds_def by blast

lemma inject_msi_holds: "holds h (hvm_inject_msi x d addr data h)"
proof -
  have "holds h (hvm_send_pirq (hvm_assert_evtchn_irq x) x d i (h\<lparr>hx := s\<rparr>))" for i s
    by (rule holds_after [OF _ send_holds]) simp
  then show ?thesis
    unfolding hvm_inject_msi_def
    by (auto simp: vmsi_deliver_def Let_def send_holds holds_Some split: bind_splits option.split prod.split)
      (auto simp: holds_def)
qed

lemma ack_holds: "hvm_vcpu_ack_pending_irq l d v ia h = Some (ia', h') \<Longrightarrow> hvm_ok h \<Longrightarrow> hvm_ok h'"
proof -
  assume a: "hvm_vcpu_ack_pending_irq l d v ia h = Some (ia', h')" and ok: "hvm_ok h"
  have pic: "vpic_ok (hvpic (hdoms h d))" using ok by (simp add: hvm_ok_def pics_ok_def)
  have "vpic_ok p" if "vpic_ack_pending_irq acc (hvpic (hdoms h d)) = Some (vec, p)" for acc vec p
    by (rule ack_ok [OF pic, of acc]) (use that in auto)
  then show "hvm_ok h'"
    using a ok by (auto simp: hvm_vcpu_ack_pending_irq_def Let_def hvm_ok_def pics_ok_def split: hvm_intsrc.splits bind_splits)
qed

interpretation hv: vpic_host "\<lambda>h. hvpic (hdoms h d)" "\<lambda>p. upd_hvm d (\<lambda>D. D\<lparr>hvpic := p\<rparr>)" hvm_ok for d
  by unfold_locales (auto simp: hvm_ok_def pics_ok_def)

end
