(* ===== verification/Hvm_Op.thy ===== *)
theory Hvm_Op
  imports Hvm_Irq Portio
begin

text \<open>
  The hypercalls that reach the virtual interrupt wires: the operations of \<^verbatim>\<open>do_hvm_op\<close> in \<^verbatim>\<open>xen/arch/x86/hvm/hvm.c\<close> on wires,
  routes, message-signalled interrupts and the call-back line, and the part of \<^verbatim>\<open>PHYSDEVOP_map_pirq\<close>
  (\<^verbatim>\<open>xen/arch/x86/physdev.c\<close>) by which an HVM guest maps an emulated interrupt to an event. \<open>cur\<close> is the calling domain; an
  argument \<open>None\<close> is a failed copy from guest memory. The security hooks are arguments.
\<close>

section \<open>The target of a call\<close>

definition rcu_lock_remote_target_domain_by_id :: "xen \<Rightarrow> domid \<Rightarrow> domid \<Rightarrow> (int + domid) option" where
  "rcu_lock_remote_target_domain_by_id s cur dm =
     (case rcu_lock_domain_by_id s dm of
        None \<Rightarrow> Some (Inl (- ESRCH))
      | Some d \<Rightarrow> do {
          C \<leftarrow> doms s cur;
          if d = cur \<or> \<not> IS_PRIV_FOR C d then Some (Inl (- EPERM)) else Some (Inr d)
        })"

text \<open>The common part after the look-up: only HVM domains, and only when the security hook \<open>xsm\<close> allows it.\<close>

definition on_target :: "(int + domid) option \<Rightarrow> (domid \<Rightarrow> int) \<Rightarrow> hvms \<Rightarrow> (domid \<Rightarrow> (int \<times> hvms) option) \<Rightarrow> (int \<times> hvms) option" where
  "on_target t xsm h f =
     (case t of
        None \<Rightarrow> None
      | Some (Inl rc) \<Rightarrow> Some (rc, h)
      | Some (Inr d) \<Rightarrow>
          (case doms (hx h) d of
             None \<Rightarrow> None
           | Some D \<Rightarrow>
               if \<not> is_hvm D then Some (- EINVAL, h)
               else if xsm d \<noteq> 0 then Some (xsm d, h)
               else f d))"

abbreviation (input) rc_0 :: "hvms option \<Rightarrow> (int \<times> hvms) option" where
  "rc_0 r \<equiv> map_option (Pair 0) r"

section \<open>Wires, routes and message-signalled interrupts\<close>

record xen_hvm_set_pci_intx_level =
  pi_domid :: domid
  pi_domain :: nat
  pi_bus :: nat
  pi_device :: nat
  pi_intx :: nat
  pi_level :: nat

definition hvmop_set_pci_intx_level ::
  "ext \<Rightarrow> domid \<Rightarrow> (domid \<Rightarrow> int) \<Rightarrow> xen_hvm_set_pci_intx_level option \<Rightarrow> hvms \<Rightarrow> (int \<times> hvms) option" where
  "hvmop_set_pci_intx_level x cur xsm uop h =
     (case uop of
        None \<Rightarrow> Some (- EFAULT, h)
      | Some op \<Rightarrow>
          if pi_domain op > 0 \<or> pi_bus op > 0 \<or> pi_device op > 31 \<or> pi_intx op > 3 then Some (- EINVAL, h)
          else on_target (rcu_lock_remote_target_domain_by_id (hx h) cur (pi_domid op)) xsm h (\<lambda>d.
            if pi_level op = 0 then rc_0 (hvm_pci_intx_deassert d (pi_device op) (pi_intx op) h)
            else if pi_level op = 1 then rc_0 (hvm_pci_intx_assert x d (pi_device op) (pi_intx op) h)
            else Some (- EINVAL, h)))"

definition hvmop_set_isa_irq_level ::
  "ext \<Rightarrow> domid \<Rightarrow> (domid \<Rightarrow> int) \<Rightarrow> (domid \<times> nat \<times> nat) option \<Rightarrow> hvms \<Rightarrow> (int \<times> hvms) option" where
  "hvmop_set_isa_irq_level x cur xsm uop h =
     (case uop of
        None \<Rightarrow> Some (- EFAULT, h)
      | Some (dm, isa, level) \<Rightarrow>
          if isa > 15 then Some (- EINVAL, h)
          else on_target (rcu_lock_remote_target_domain_by_id (hx h) cur dm) xsm h (\<lambda>d.
            if level = 0 then rc_0 (hvm_isa_irq_deassert d isa h)
            else if level = 1 then rc_0 (hvm_isa_irq_assert x d isa h)
            else Some (- EINVAL, h)))"

definition hvmop_set_pci_link_route ::
  "domid \<Rightarrow> (domid \<Rightarrow> int) \<Rightarrow> (domid \<times> nat \<times> nat) option \<Rightarrow> hvms \<Rightarrow> (int \<times> hvms) option" where
  "hvmop_set_pci_link_route cur xsm uop h =
     (case uop of
        None \<Rightarrow> Some (- EFAULT, h)
      | Some (dm, link, isa) \<Rightarrow>
          if link > 3 \<or> isa > 15 then Some (- EINVAL, h)
          else on_target (rcu_lock_remote_target_domain_by_id (hx h) cur dm) xsm h
                 (\<lambda>d. rc_0 (hvm_set_pci_link_route d link isa h)))"

definition hvmop_inject_msi ::
  "ext \<Rightarrow> domid \<Rightarrow> (domid \<Rightarrow> int) \<Rightarrow> (domid \<times> 64 word \<times> 32 word) option \<Rightarrow> hvms \<Rightarrow> (int \<times> hvms) option" where
  "hvmop_inject_msi x cur xsm uop h =
     (case uop of
        None \<Rightarrow> Some (- EFAULT, h)
      | Some (dm, addr, data) \<Rightarrow>
          on_target (rcu_lock_remote_target_domain_by_id (hx h) cur dm) xsm h (\<lambda>d. rc_0 (hvm_inject_msi x d addr data h)))"

section \<open>The call-back parameter\<close>

text \<open>\<open>mode\<close> is the execution mode of the calling virtual CPU; the wall-clock update of the latched page is left out.\<close>

definition hvm_latch_shinfo_size :: "domid \<Rightarrow> nat \<Rightarrow> domid \<Rightarrow> hvms \<Rightarrow> hvms option" where
  "hvm_latch_shinfo_size cur mode d h =
     (if cur = d then do {
        D \<leftarrow> doms (hx h) d;
        Some (h\<lparr>hx := put_dom (hx h) d (D\<lparr>has_32bit_shinfo := (mode \<noteq> 8)\<rparr>)\<rparr>)
      } else Some h)"

definition set_callback_param ::
  "ext \<Rightarrow> domid \<Rightarrow> nat \<Rightarrow> (domid \<Rightarrow> int) \<Rightarrow> domid \<Rightarrow> 64 word \<Rightarrow> hvms \<Rightarrow> (int \<times> hvms) option" where
  "set_callback_param x cur mode xsm dm value h =
     on_target (rcu_lock_target_domain_by_id (hx h) cur dm) xsm h
       (\<lambda>d. rc_0 (hvm_set_callback_via x d value h \<bind> hvm_latch_shinfo_size cur mode d))"

section \<open>Mapping an emulated interrupt\<close>

definition is_free_pirq :: "xdomain \<Rightarrow> pirq option \<Rightarrow> bool" where
  "is_free_pirq D i \<longleftrightarrow> (case i of None \<Rightarrow> True | Some i \<Rightarrow> arch_irq i = 0 \<and> (\<not> is_hvm D \<or> hvm_emuirq i = IRQ_UNBOUND))"

abbreviation (input) MAP_PIRQ_TYPE_GSI :: int where "MAP_PIRQ_TYPE_GSI \<equiv> 1"

definition get_free_pirq :: "ext \<Rightarrow> int \<Rightarrow> xdomain \<Rightarrow> int \<Rightarrow> int \<times> xdomain" where
  "get_free_pirq x nr_irqs_gsi D type =
     (let gsis = (if type = MAP_PIRQ_TYPE_GSI then [16..nr_irqs_gsi - 1] else []) in
      case List.find (\<lambda>i. is_free_pirq D (pirq_tree D i)) (gsis @ rev [nr_irqs_gsi..nr_pirqs D - 1]) of
        Some i \<Rightarrow> (i, snd (pirq_get_info x D i))
      | None \<Rightarrow> (- ENOSPC, D))"

text \<open>The result is the return code, the index and the interrupt number written back.\<close>

definition physdev_hvm_map_pirq ::
  "ext \<Rightarrow> int \<Rightarrow> domid \<Rightarrow> int \<Rightarrow> int \<Rightarrow> int \<Rightarrow> hvms \<Rightarrow> (int \<times> int \<times> int \<times> hvms) option" where
  "physdev_hvm_map_pirq x nr_irqs_gsi d type index q h = do {
     D \<leftarrow> doms (hx h) d;
     if type \<noteq> MAP_PIRQ_TYPE_GSI \<or> index < 0 \<or> index \<ge> int VIOAPIC_NUM_PINS then Some (- EINVAL, index, q, h)
     else do {
       let machine_gsi = (case dpci (irqs d h) of
             None \<Rightarrow> 0
           | Some P \<Rightarrow> (case girq P (nat index) of [] \<Rightarrow> 0 | gs \<Rightarrow> int (last gs)));
       if machine_gsi \<noteq> 0 then
         Some (if machine_gsi > 0 then 0 else machine_gsi, domain_pirq_to_irq D machine_gsi, machine_gsi, h)
       else do {
         let (q, D) = (if q < 0 then get_free_pirq x nr_irqs_gsi D type else (q, D));
         (ret, D) \<leftarrow> map_domain_emuirq_pirq x D q index;
         Some (ret, index, q, h\<lparr>hx := put_dom (hx h) d D\<rparr>)
       }
     }
   }"

definition map_own_pirq ::
  "ext \<Rightarrow> int \<Rightarrow> domid \<Rightarrow> int \<Rightarrow> int \<Rightarrow> int \<Rightarrow> hvms \<Rightarrow> (int \<times> int \<times> int \<times> hvms) option" where
  "map_own_pirq x nr_irqs_gsi d type index q h =
     (if \<not> is_hvm_pv_evtchn_domain d h then Some (- EINVAL, index, q, h)
      else physdev_hvm_map_pirq x nr_irqs_gsi d type index q h)"

end
