(* ===== verification/Hvm_Restore.thy ===== *)
theory Hvm_Restore
  imports Hvm_Step
begin

text \<open>
  Save and restore of the interrupt wires. The counters are not saved: each of the three records that are loaded adds its part, and
  after the last one every counter is the number of asserted wires again.
\<close>

section \<open>Recounting\<close>

lemma count_Suc: "count (Suc n) P = count n P + (if P n then 1 else 0)"
proof -
  have "{k. k < Suc n \<and> P k} = (if P n then insert n {k. k < n \<and> P k} else {k. k < n \<and> P k})"
    by (auto simp: less_Suc_eq)
  then show ?thesis by (simp add: count_def)
qed

lemma count_none [simp]: "count 0 P = 0"
  by (simp add: count_def)

lemma load_pci_fold:
  "fold load_pci_wire [0..<n] I = I\<lparr>
     gsi_assert_count := (\<lambda>g. gsi_assert_count I g + of_nat (count n (\<lambda>w. pci_intx I w \<and> wire_gsi w = g))),
     pci_link_assert_count := (\<lambda>l. pci_link_assert_count I l + of_nat (count n (\<lambda>w. pci_intx I w \<and> wire_link w = l)))\<rparr>"
proof (induction n)
  case (Suc n)
  then show ?case
    by (intro hvm_irq.equality) (auto simp: load_pci_wire_def Let_def count_Suc fun_eq_iff wire_gsi_def wire_link_def)
qed simp

lemma load_isa_fold:
  "fold load_isa_wire [0..<n] I = I\<lparr>
     gsi_assert_count := (\<lambda>g. gsi_assert_count I g + of_nat (count n (\<lambda>i. isa_irq I i \<and> hvm_isa_irq_to_gsi i = g)))\<rparr>"
proof (induction n)
  case (Suc n)
  then show ?case by (intro hvm_irq.equality) (auto simp: load_isa_wire_def Let_def count_Suc fun_eq_iff)
qed simp

lemma load_link_fold:
  "fold load_link [0..<n] I = I\<lparr>
     gsi_assert_count := (\<lambda>g. gsi_assert_count I g +
       of_nat (count n (\<lambda>l. pci_link_assert_count I l \<noteq> 0 \<and> (route I l \<noteq> 0 \<and> route I l = g))))\<rparr>"
proof (induction n)
  case (Suc n)
  then show ?case by (intro hvm_irq.equality) (auto simp: load_link_def Let_def count_Suc fun_eq_iff)
qed simp

section \<open>The restored wires\<close>

definition restored :: "(nat \<Rightarrow> bool) \<Rightarrow> (nat \<Rightarrow> bool) \<Rightarrow> (nat \<Rightarrow> nat) \<Rightarrow> hvm_irq \<Rightarrow> hvm_irq" where
  "restored ws is r I = fold load_link [0..<4] ((fold load_isa_wire [0..<16] ((fold load_pci_wire [0..<128]
     (I\<lparr>pci_intx := ws, pci_link_assert_count := (\<lambda>_. 0), gsi_assert_count := (\<lambda>_. 0)\<rparr>))\<lparr>isa_irq := is\<rparr>))\<lparr>route := r\<rparr>)"

lemma restored_fields:
  "pci_intx (restored ws is r I) = ws" "isa_irq (restored ws is r I) = is" "route (restored ws is r I) = r"
  "callback_via_asserted (restored ws is r I) = callback_via_asserted I" "callback_via_type (restored ws is r I) = callback_via_type I"
  "via_gsi (restored ws is r I) = via_gsi I" "via_dev (restored ws is r I) = via_dev I" "via_intx (restored ws is r I) = via_intx I"
  by (simp_all only: restored_def load_pci_fold load_isa_fold load_link_fold) simp_all

lemma restored_link: "pci_link_assert_count (restored ws is r I) l = of_nat (link_wires (restored ws is r I) l)"
  unfolding link_wires_def restored_fields by (simp only: restored_def load_pci_fold load_isa_fold load_link_fold) simp

lemma restored_counts:
  assumes "\<not> callback_via_asserted I"
  shows "counts_ok (restored ws is r I)"
proof -
  let ?J = "restored ws is r I"
  have idle: "pci_link_assert_count ?J l \<noteq> 0 \<longleftrightarrow> 0 < link_wires ?J l" for l
    unfolding restored_link using u8_of_nat(2) [of "link_wires ?J l"] link_wires_le [of ?J l] by simp
  have "gsi_assert_count ?J g = of_nat (count 128 (\<lambda>w. ws w \<and> wire_gsi w = g)) +
      of_nat (count 16 (\<lambda>i. is i \<and> hvm_isa_irq_to_gsi i = g)) +
      of_nat (count 4 (\<lambda>l. pci_link_assert_count ?J l \<noteq> 0 \<and> (r l \<noteq> 0 \<and> r l = g)))" for g
    by (simp only: restored_def load_pci_fold load_isa_fold load_link_fold) simp
  moreover have "callback_wire ?J g = 0" for g using assms by (simp add: callback_wire_def restored_fields)
  ultimately have "gsi_assert_count ?J g = of_nat (gsi_wires ?J g)" for g
    by (simp add: gsi_wires_def restored_fields idle)
  then show ?thesis by (simp add: counts_ok_def restored_link)
qed

lemma load_wires:
  assumes r: "\<forall>l < 4. r l \<le> 15"
  shows "\<exists>t1 t2 t3. irq_load_pci d (Some ws) t = (0, t1) \<and> irq_load_isa d (Some is) t1 = (0, t2) \<and> irq_load_link d (Some r) t2 = (0, t3) \<and>
    t3 = upd_irq d (restored ws is r) t"
proof -
  have "\<not> list_ex (\<lambda>l. r l > 15) [0..<4]" using r by (auto simp: list_ex_iff)
  then show ?thesis
    unfolding irq_load_pci_def irq_load_isa_def irq_load_link_def
    by (simp add: restored_def upd_irq_def upd_hvm_def Let_def del: upt_rec_numeral)
qed

section \<open>The saved wires\<close>

lemma unlock_lock_irqs: "lock_irq d h = Some h' \<Longrightarrow> irqs d h' = irqs d h" "irqs d (unlock_irq d h) = irqs d h"
  by (auto simp: lock_irq_def unlock_irq_def upd_hvm_def split: if_splits)

text \<open>The wire of the call-back is saved as not asserted: it follows the shared page of the restored domain.\<close>

lemma save_pci_entry:
  assumes "irq_save_pci x d True h = Some (rc, e, h')"
  shows "e = Some (if callback_via_asserted (irqs d h) \<and> callback_via_type (irqs d h) = HVMIRQ_callback_pci_intx
      then (pci_intx (irqs d h))(via_dev (irqs d h) * 4 + via_intx (irqs d h) := False) else pci_intx (irqs d h))"
proof -
  let ?I = "irqs d h"
  have off: "pci_intx (irqs d k') = (pci_intx (irqs d k))(dev * 4 + intx := False)" if "pci_intx_deassert d dev intx k = Some k'" for dev intx k k'
  proof -
    have "irqs d k' = set_wire (dev * 4 + intx) False (irqs d k)" using gives_pci(2) [OF refl, of d dev intx k] that
      by (simp add: gives_def moves_def)
    moreover have "dev \<le> 31 \<and> intx \<le> 3" using that by (cases "dev \<le> 31 \<and> intx \<le> 3") (simp_all add: pci_intx_deassert_def)
    ultimately show ?thesis by (auto simp: set_wire_def wire_off_def Let_def fun_eq_iff)
  qed
  show ?thesis using assms off unlock_lock_irqs(1) [of d h]
    unfolding irq_save_pci_def Let_def by (auto split: bind_splits if_splits)
qed

lemma save_pci_same:
  assumes "irq_save_pci x d room h = Some (rc, e, h')"
  shows "isa_irq (irqs d h') = isa_irq (irqs d h)" "route (irqs d h') = route (irqs d h)"
proof -
  have w: "isa_irq (irqs d k') = isa_irq (irqs d k) \<and> route (irqs d k') = route (irqs d k)"
    if "pci_intx_assert x d dev intx k = Some k' \<or> pci_intx_deassert d dev intx k = Some k'" for dev intx k k'
  proof -
    have "\<exists>b. irqs d k' = set_wire (dev * 4 + intx) b (irqs d k)"
      using gives_pci(1) [OF refl, of d dev intx k x] gives_pci(2) [OF refl, of d dev intx k] that by (auto simp: gives_def moves_def)
    then show ?thesis by (auto simp: set_wire_def wire_on_def wire_off_def Let_def)
  qed
  have "isa_irq (irqs d h') = isa_irq (irqs d h) \<and> route (irqs d h') = route (irqs d h)"
    using assms unlock_lock_irqs(1) [of d h] unfolding irq_save_pci_def Let_def
    by (auto simp: unlock_lock_irqs(2) dest!: w [OF disjI1] w [OF disjI2] split: bind_splits if_splits)
  then show "isa_irq (irqs d h') = isa_irq (irqs d h)" "route (irqs d h') = route (irqs d h)" by simp_all
qed

text \<open>Two sets of the same wires without a call-back have the same counters.\<close>

lemma same_wires_counts:
  assumes "counts_ok I" "counts_ok J" "pci_intx J = pci_intx I" "isa_irq J = isa_irq I" "route J = route I"
    "\<not> callback_via_asserted I" "\<not> callback_via_asserted J"
  shows "\<forall>l < 4. pci_link_assert_count J l = pci_link_assert_count I l" "\<forall>g < 48. gsi_assert_count J g = gsi_assert_count I g"
proof -
  have l: "link_wires J = link_wires I" by (simp add: link_wires_def fun_eq_iff assms(3))
  then have "gsi_wires J = gsi_wires I" by (simp add: gsi_wires_def callback_wire_def fun_eq_iff assms(3-7))
  then show "\<forall>l < 4. pci_link_assert_count J l = pci_link_assert_count I l" "\<forall>g < 48. gsi_assert_count J g = gsi_assert_count I g"
    using assms(1,2) by (simp_all add: counts_ok_def l)
qed

end
