(* ===== verification/Hvm_Return.thy ===== *)
theory Hvm_Return
  imports Hvm_Step Evtchn_Step
begin

text \<open>
  When the operations on the wires return. They do when no global interrupt of the domain is mapped to an event, or when the
  domain takes events by a vector: then the call-back line is never touched under the lock. With a mapped interrupt and another
  call-back type they deadlock on the lock of the domain.
\<close>

section \<open>The upcalls of a send\<close>

definition upcalls_for :: "domid \<Rightarrow> effect \<Rightarrow> bool" where
  "upcalls_for d e = (case e of Hvm_assert_evtchn_irq e' v \<Rightarrow> e' = d | _ \<Rightarrow> True)"

definition adds :: "domid \<Rightarrow> effect list \<Rightarrow> xen \<Rightarrow> bool" where
  "adds d l s \<longleftrightarrow> (\<exists>es. effects s = l @ es \<and> list_all (upcalls_for d) es)"

lemma adds_simps [simp]:
  "adds d l (put_dom s e D) = adds d l s" "adds d l (s\<lparr>urgent_count := c\<rparr>) = adds d l s"
  by (simp_all add: adds_def)

lemma adds_emit: "adds d l s \<Longrightarrow> upcalls_for d e \<Longrightarrow> adds d l (emit s e)"
  by (auto simp: adds_def)

lemma adds_runstate: "vcpu_runstate_change s e v t n = Some s' \<Longrightarrow> adds d l s \<Longrightarrow> adds d l s'"
  by (auto simp: vcpu_runstate_change_def vcpu_urgent_count_update_def upd_vcpu_def Let_def split: bind_splits if_splits option.splits)

lemma adds_unblock: "vcpu_unblock x s e v = Some s' \<Longrightarrow> adds d l s \<Longrightarrow> adds d l s'"
  by (auto simp: vcpu_unblock_def vcpu_wake_def Let_def upcalls_for_def intro!: adds_emit dest!: adds_runstate [where d = d and l = l] split: bind_splits if_splits)

lemma adds_wake: "wake_poller x d p v s = Some s' \<Longrightarrow> adds d l s \<Longrightarrow> adds d l s'"
  by (auto simp: wake_poller_def dest!: adds_unblock [where d = d and l = l] split: bind_splits if_splits)

lemma adds_mark: "vcpu_mark_events_pending s d v = Some s' \<Longrightarrow> adds d l s \<Longrightarrow> adds d l s'"
  by (auto simp: vcpu_mark_events_pending_def Let_def upcalls_for_def intro!: adds_emit split: bind_splits if_splits)

lemma adds_set_pending:
  assumes "evtchn_set_pending x s d v p = Some s'" "adds d l s"
  shows "adds d l s'"
proof -
  have w: "adds d l t'" if "foldM (wake_poller x d p) vs t = Some t'" "adds d l t" for vs t t'
    by (rule foldM_inv [where I = "adds d l", OF that]) (rule adds_wake)
  show ?thesis using assms by (auto simp: evtchn_set_pending_def Let_def dest!: w adds_mark [where l = l] split: bind_splits if_splits)
qed

lemma adds_send:
  assumes "send_guest_pirq x s d i = Some s'"
  shows "list_all (upcalls_for d) (drop (length (effects s)) (effects s'))"
proof -
  have "adds d (effects s) s" by (simp add: adds_def)
  then have "adds d (effects s) s'" using assms
    by (auto simp: send_guest_pirq_def Let_def dest!: adds_set_pending [where l = "effects s"] split: bind_splits if_splits)
  then show ?thesis by (auto simp: adds_def)
qed

section \<open>States in which the operations return\<close>

text \<open>\<open>pend\<close> are the closes of event channels in progress, an argument of their invariant.\<close>

definition unmapped :: "xdomain \<Rightarrow> bool" where
  "unmapped D \<longleftrightarrow> (\<forall>g < VIOAPIC_NUM_PINS. \<not> hvm_domain_use_pirq D (gsi_pirq D g))"

definition ready :: "closer list \<Rightarrow> domid \<Rightarrow> hvms \<Rightarrow> bool" where
  "ready pend d h \<longleftrightarrow> pics_ok h \<and> via_ok (irqs d h) \<and>
     (\<exists>D. doms (hx h) d = Some D \<and>
        (is_hvm D \<and> callback_via_type (irqs d h) = HVMIRQ_callback_vector \<and> sys_ok (hx h) pend \<or> unmapped D))"

definition returns :: "closer list \<Rightarrow> domid \<Rightarrow> hvms option \<Rightarrow> bool" where
  "returns pend d r \<longleftrightarrow> (\<exists>h'. r = Some h' \<and> ready pend d h')"

lemma returns_Some [simp]: "returns pend d (Some h) \<longleftrightarrow> ready pend d h"
  by (simp add: returns_def)

lemma returns_bind: "returns pend d r \<Longrightarrow> (\<And>k. ready pend d k \<Longrightarrow> returns pend d (f k)) \<Longrightarrow> returns pend d (r \<bind> f)"
  by (auto simp: returns_def)

lemma ready_hvm [simp]:
  "(\<And>D. hirq (f D) = hirq D) \<Longrightarrow> (\<And>D. hvpic (f D) = hvpic D) \<Longrightarrow> ready pend d (upd_hvm d f h) = ready pend d h"
  "ready pend d (hvm_emit e h) = ready pend d h"
  by (auto simp: ready_def pics_ok_def)

lemma ready_irq:
  assumes "\<And>I. via_ok (f I) = via_ok I" "\<And>I. callback_via_type (f I) = callback_via_type I"
  shows "ready pend d (upd_irq d f h) = ready pend d h"
  using assms by (simp add: ready_def pics_ok_def)

lemma ready_kick: "ready pend d h \<Longrightarrow> ready pend d (h\<lparr>hx := emit (hx h) e\<rparr>)"
  by (auto simp: ready_def pics_ok_def)

lemma returns_inc:
  assumes "ready pend d h" "g < 48" "\<And>b k. ready pend d k \<Longrightarrow> returns pend d (f b k)"
  shows "returns pend d (gsi_inc d g h \<bind> (\<lambda>(b, k). f b k))" "returns pend d (gsi_dec d g h \<bind> (\<lambda>(b, k). f b k))"
  using assms by (auto simp: gsi_inc_def gsi_dec_def ready_irq via_ok_def)

lemma returns_edges:
  assumes "ready pend d h" "i \<le> 15"
  shows "returns pend d (pic_positive_edge d i h)" "returns pend d (pic_negative_edge d i h)"
  using assms edges_ok [of "hvpic (hdoms h d)" i] by (auto simp: pic_edge_def ready_def pics_ok_def)

text \<open>With a vector no upcall of a send takes the lock.\<close>

lemma returns_upcalls:
  assumes h: "ready pend d h" "is_hvm_pv_evtchn_domain d h" and es: "list_all (upcalls_for d) es"
  shows "returns pend d (run_upcalls evtchn_irq_locked es h)"
proof -
  let ?I = "\<lambda>k. ready pend d k \<and> is_hvm_pv_evtchn_domain d k"
  have "\<exists>k'. (case e of Hvm_assert_evtchn_irq d v \<Rightarrow> evtchn_irq_locked d v k | _ \<Rightarrow> Some k) = Some k' \<and> ?I k'"
    if "e \<in> set es" "?I k" for e k
    using that es by (auto simp: list_all_iff upcalls_for_def evtchn_irq_locked_def evtchn_irq_by_def ready_kick
        is_hvm_pv_evtchn_domain_def split: effect.splits)
  then have "\<exists>k'. run_upcalls evtchn_irq_locked es h = Some k' \<and> ?I k'"
    unfolding run_upcalls_def using h by (intro foldM_total) auto
  then show ?thesis by (auto simp: returns_def)
qed

lemma returns_gsi:
  assumes h: "ready pend d h" and g: "g < 48"
  shows "returns pend d (assert_gsi x d g h)"
proof -
  obtain D where D: "doms (hx h) d = Some D"
    and c: "is_hvm D \<and> callback_via_type (irqs d h) = HVMIRQ_callback_vector \<and> sys_ok (hx h) pend \<or> unmapped D"
    using h by (auto simp: ready_def)
  show ?thesis
  proof (cases "hvm_domain_use_pirq D (gsi_pirq D g)")
    case False
    then show ?thesis using h D by (simp add: assert_gsi_def)
  next
    case True
    then have v: "is_hvm D" "callback_via_type (irqs d h) = HVMIRQ_callback_vector" and ok: "sys_ok (hx h) pend"
      using c g by (auto simp: unmapped_def)
    obtain i where i: "pirq_tree D (domain_emuirq_to_pirq D (int g)) = Some i"
      using True by (auto simp: hvm_domain_use_pirq_def gsi_pirq_def split: option.splits)
    obtain s where s: "send_guest_pirq x (hx h) d (Some i) = Some s" "same_ec (hx h) s"
      using send_guest_pirq_same [OF ok D i] v by blast
    have "rel_option same_dom (Some D) (doms s d)" using s(2) D unfolding same_ec_def by metis
    then obtain E where E: "doms s d = Some E" "same_dom D E" by (auto simp: option_rel_Some1)
    have "ready pend d (h\<lparr>hx := s\<rparr>)" "is_hvm_pv_evtchn_domain d (h\<lparr>hx := s\<rparr>)"
      using h E v sys_ok_same [OF ok s(2)] by (auto simp: ready_def pics_ok_def same_dom_def is_hvm_pv_evtchn_domain_def)
    from returns_upcalls [OF this adds_send [OF s(1)]] show ?thesis
      using D i True s(1) by (simp add: assert_gsi_def hvm_send_pirq_def gsi_pirq_def)
  qed
qed

lemma returns_irq: "ready pend d h \<Longrightarrow> g < 48 \<Longrightarrow> i \<le> 15 \<Longrightarrow> returns pend d (assert_irq x d g i h)"
  unfolding assert_irq_def by (intro returns_bind returns_gsi returns_edges)

lemma returns_deassert:
  assumes "ready pend d h" "i \<le> 15"
  shows "returns pend d (deassert_irq d i h)"
proof -
  obtain D where "doms (hx h) d = Some D" using assms(1) by (auto simp: ready_def)
  then show ?thesis using assms by (simp add: deassert_irq_def returns_edges)
qed

section \<open>The operations return\<close>

lemma returns_locked:
  assumes "ready pend d h" "\<not> irq_lock (hdoms h d)" "\<And>k. ready pend d k \<Longrightarrow> returns pend d (f k)"
  shows "returns pend d (lock_irq d h \<bind> (\<lambda>k. f k \<bind> (\<lambda>k. Some (unlock_irq d k))))"
  using assms(1,2) assms(3) [of "upd_hvm d (\<lambda>D. D\<lparr>irq_lock := True\<rparr>) h"]
  by (auto simp: lock_irq_def unlock_irq_def returns_def)

lemma returns_isa:
  assumes "ready pend d h" "\<not> irq_lock (hdoms h d)" "i \<le> 15"
  shows "returns pend d (hvm_isa_irq_assert x d i h)" "returns pend d (hvm_isa_irq_deassert d i h)"
proof -
  have g: "hvm_isa_irq_to_gsi i < 48" using isa_gsi_range [of i] assms(3) by simp
  have u: "ready pend d (upd_irq d (\<lambda>I. I\<lparr>isa_irq := (isa_irq I)(i := b)\<rparr>) k) = ready pend d k" for b k
    by (rule ready_irq) (simp_all add: via_ok_def)
  show "returns pend d (hvm_isa_irq_assert x d i h)"
    unfolding hvm_isa_irq_assert_def Let_def using assms g
    by (auto intro!: returns_locked returns_inc simp: u returns_irq)
  show "returns pend d (hvm_isa_irq_deassert d i h)"
    unfolding hvm_isa_irq_deassert_def Let_def using assms g
    by (auto intro!: returns_locked returns_inc simp: u returns_deassert)
qed

lemma ready_route: "ready pend d h \<Longrightarrow> l < 4 \<Longrightarrow> route (irqs d h) l \<le> 15"
  by (simp add: ready_def via_ok_def)

lemma ready_updates [simp]:
  "ready pend d (upd_irq d (\<lambda>I. I\<lparr>pci_intx := f I\<rparr>) h) = ready pend d h"
  "ready pend d (link_add d l c h) = ready pend d h"
  unfolding link_add_def by (rule ready_irq; simp add: via_ok_def)+

lemma pci_gsi_link [simp]: "hvm_pci_intx_gsi dev intx < 48" "hvm_pci_intx_link dev intx < 4"
  by (simp_all add: hvm_pci_intx_gsi_def hvm_pci_intx_link_def)

lemma returns_pci_locked:
  assumes h: "ready pend d h" and w: "dev \<le> 31" "intx \<le> 3"
  shows "returns pend d (pci_intx_assert x d dev intx h)" "returns pend d (pci_intx_deassert d dev intx h)"
proof -
  have r: "ready pend d k \<Longrightarrow> route (irqs d k) (hvm_pci_intx_link dev intx) \<le> 15"
    "ready pend d k \<Longrightarrow> route (irqs d k) (hvm_pci_intx_link dev intx) < 48" for k
    using ready_route [of pend d k "hvm_pci_intx_link dev intx"] by simp_all
  show "returns pend d (pci_intx_assert x d dev intx h)"
    using h w by (auto simp: pci_intx_assert_def Let_def returns_gsi returns_irq r intro!: returns_inc returns_bind)
  show "returns pend d (pci_intx_deassert d dev intx h)"
    using h w by (auto simp: pci_intx_deassert_def Let_def returns_deassert r intro!: returns_inc returns_bind)
qed

lemma returns_pci:
  assumes "ready pend d h" "\<not> irq_lock (hdoms h d)" "dev \<le> 31" "intx \<le> 3"
  shows "returns pend d (hvm_pci_intx_assert x d dev intx h)" "returns pend d (hvm_pci_intx_deassert d dev intx h)"
  unfolding hvm_pci_intx_assert_def hvm_pci_intx_deassert_def
  by (rule returns_locked [OF assms(1,2)], erule returns_pci_locked, use assms in auto)+

lemma returns_route:
  assumes h: "ready pend d h" "\<not> irq_lock (hdoms h d)" and l: "l \<le> 3" "r \<le> 15"
  shows "returns pend d (hvm_set_pci_link_route d l r h)"
proof -
  have u: "ready pend d (upd_irq d (\<lambda>I. dpci_fixup old (I\<lparr>route := (route I)(l := r)\<rparr>)) k)" if "ready pend d k" for old k
    using that l by (auto simp: ready_def pics_ok_def via_ok_def)
  have o: "route (irqs d k) l \<le> 15" "route (irqs d k) l < 48" if "ready pend d k" for k
    using ready_route [OF that, of l] l by simp_all
  have "returns pend d (set_link_route d l r k)" if "ready pend d k" for k
    using that l unfolding set_link_route_def Let_def by (auto simp: u o returns_edges simp del: Option.bind_assoc intro!: returns_bind returns_inc)
  then show ?thesis using l returns_locked [OF h] by (simp add: hvm_set_pci_link_route_def)
qed

section \<open>The hypercalls return\<close>

definition all_ready :: "closer list \<Rightarrow> hvms \<Rightarrow> bool" where
  "all_ready pend h \<longleftrightarrow> (\<forall>d D. doms (hx h) d = Some D \<and> is_hvm D \<longrightarrow> ready pend d h \<and> \<not> irq_lock (hdoms h d))"

lemma on_target_returns:
  assumes "doms (hx h) cur \<noteq> None"
    and "\<And>d D. doms (hx h) d = Some D \<Longrightarrow> is_hvm D \<Longrightarrow> \<exists>rc h'. f d = Some (rc, h')"
  shows "\<exists>rc h'. on_target (rcu_lock_remote_target_domain_by_id (hx h) cur dm) xsm h f = Some (rc, h')"
proof -
  obtain C where "doms (hx h) cur = Some C" using assms(1) by auto
  then show ?thesis using assms(2)
    by (auto simp: on_target_def rcu_lock_remote_target_domain_by_id_def rcu_lock_domain_by_id_def split: option.splits)
qed

lemma returns_rc: "returns pend d r \<Longrightarrow> \<exists>h'. r = Some h'"
  by (auto simp: returns_def)

lemma hvmops_return:
  assumes ok: "all_ready pend h" and cur: "doms (hx h) cur \<noteq> None"
  shows "\<exists>rc h'. hvmop_set_pci_intx_level x cur xsm pci h = Some (rc, h')"
    "\<exists>rc h'. hvmop_set_isa_irq_level x cur xsm isa h = Some (rc, h')"
    "\<exists>rc h'. hvmop_set_pci_link_route cur xsm rt h = Some (rc, h')"
  using ok unfolding all_ready_def hvmop_set_pci_intx_level_def hvmop_set_isa_irq_level_def hvmop_set_pci_link_route_def
  by (auto split: option.splits intro!: on_target_returns [OF cur])
    (auto intro!: returns_rc [of pend] returns_pci returns_isa returns_route)

section \<open>The deadlock\<close>

text \<open>
  The interrupt \<open>isa\<close> is mapped to an unmasked event port of virtual CPU 0 with no event outstanding, and the call-back is not a vector:
  asserting the wire reaches \<^verbatim>\<open>hvm_set_callback_irq_level\<close> with the lock held.
\<close>

definition mapped_to_vcpu0 :: "domid \<Rightarrow> nat \<Rightarrow> hvms \<Rightarrow> bool" where
  "mapped_to_vcpu0 d g h \<longleftrightarrow>
     (\<exists>D V i c. doms (hx h) d = Some D \<and> is_hvm D \<and> gsi_pirq D g = Some i \<and> hvm_emuirq i \<noteq> IRQ_UNBOUND \<and>
        pirq_evtchn i \<noteq> 0 \<and> evtchn_from_port D (pirq_evtchn i) = Some c \<and> notify_vcpu_id c = 0 \<and> d_vcpu D 0 = Some V \<and>
        \<not> evtchn_pending D (pirq_evtchn i) \<and> \<not> evtchn_mask D (pirq_evtchn i) \<and>
        \<not> evtchn_pending_sel V (pirq_evtchn i div BITS_PER_EVTCHN_WORD D) \<and> \<not> evtchn_upcall_pending V \<and>
        list_all (\<lambda>v. \<not> poll_mask D v) [0..max_vcpus D - 1])"

lemma assert_gsi_deadlock:
  assumes m: "mapped_to_vcpu0 d g h" and l: "irq_lock (hdoms h d)" and o: "\<not> irqs_off h"
    and c: "callback_via_type (irqs d h) \<noteq> HVMIRQ_callback_vector"
  shows "assert_gsi x d g h = None"
  using m l o c
  by (auto simp: mapped_to_vcpu0_def assert_gsi_def hvm_domain_use_pirq_def hvm_send_pirq_def send_guest_pirq_def
      evtchn_set_pending_def vcpu_mark_events_pending_def Let_def run_upcalls_def evtchn_irq_locked_def evtchn_irq_by_def
      is_hvm_pv_evtchn_domain_def lock_irq_def BITS_PER_EVTCHN_WORD_def)

lemma isa_assert_deadlock:
  assumes m: "mapped_to_vcpu0 d (hvm_isa_irq_to_gsi isa) h" and o: "\<not> irqs_off h" "isa \<le> 15" "\<not> isa_irq (irqs d h) isa"
    and z: "gsi_assert_count (irqs d h) (hvm_isa_irq_to_gsi isa) = 0"
    and c: "callback_via_type (irqs d h) \<noteq> HVMIRQ_callback_vector"
  shows "hvm_isa_irq_assert x d isa h = None"
proof (cases "irq_lock (hdoms h d)")
  case False
  let ?h = "upd_irq d (\<lambda>I. I\<lparr>gsi_assert_count := (gsi_assert_count I)(hvm_isa_irq_to_gsi isa := gsi_assert_count I (hvm_isa_irq_to_gsi isa) + 1)\<rparr>)
    (upd_irq d (\<lambda>I. I\<lparr>isa_irq := (isa_irq I)(isa := True)\<rparr>) (upd_hvm d (\<lambda>D. D\<lparr>irq_lock := True\<rparr>) h))"
  have "mapped_to_vcpu0 d (hvm_isa_irq_to_gsi isa) ?h" using m by (simp add: mapped_to_vcpu0_def)
  then have "assert_gsi x d (hvm_isa_irq_to_gsi isa) ?h = None"
    using o c by (intro assert_gsi_deadlock) auto
  moreover have "hvm_isa_irq_to_gsi isa < 48" using isa_gsi_range [of isa] o by simp
  ultimately show ?thesis
    using o z False by (simp add: hvm_isa_irq_assert_def lock_irq_def gsi_inc_def assert_irq_def Let_def)
qed (use assms in \<open>simp add: hvm_isa_irq_assert_def lock_irq_def\<close>)

text \<open>With a vector the same assertion returns, and choosing another call-back line while the line is idle only changes the type.\<close>

lemma isa_assert_vector:
  assumes "hvm_ok h" "mapped_to_vcpu0 d (hvm_isa_irq_to_gsi isa) h" "isa \<le> 15" "\<not> irq_lock (hdoms h d)"
    "\<not> isa_irq (irqs d h) isa" "gsi_assert_count (irqs d h) (hvm_isa_irq_to_gsi isa) = 0"
    "callback_via_type (irqs d h) = HVMIRQ_callback_vector"
  shows "\<exists>h1. hvm_isa_irq_assert x d isa h = Some h1"
proof -
  let ?g = "hvm_isa_irq_to_gsi isa"
  let ?h = "upd_irq d (\<lambda>I. I\<lparr>gsi_assert_count := (gsi_assert_count I)(?g := gsi_assert_count I ?g + 1)\<rparr>)
    (upd_irq d (\<lambda>I. I\<lparr>isa_irq := (isa_irq I)(isa := True)\<rparr>) (upd_hvm d (\<lambda>D. D\<lparr>irq_lock := True\<rparr>) h))"
  have "\<exists>k. assert_gsi x d ?g ?h = Some k \<and> hdoms k = hdoms ?h"
    using assms(2,7)
    by (auto simp: mapped_to_vcpu0_def assert_gsi_def hvm_domain_use_pirq_def hvm_send_pirq_def send_guest_pirq_def
        evtchn_set_pending_def vcpu_mark_events_pending_def Let_def run_upcalls_def evtchn_irq_locked_def evtchn_irq_by_def
        is_hvm_pv_evtchn_domain_def BITS_PER_EVTCHN_WORD_def)
  then obtain k where k: "assert_gsi x d ?g ?h = Some k" "hdoms k = hdoms ?h" by blast
  have "vpic_ok (hvpic (hdoms k d))" using assms(1) by (simp add: k(2) hvm_ok_def pics_ok_def)
  from edges_ok(1) [OF this assms(3)] obtain p where "vpic_irq_positive_edge isa (hvpic (hdoms k d)) = Some p" by blast
  moreover have "?g < 48" using isa_gsi_range [of isa] assms(3) by simp
  ultimately show ?thesis
    using assms(3-6) k(1) by (simp add: hvm_isa_irq_assert_def lock_irq_def gsi_inc_def assert_irq_def pic_edge_def Let_def)
qed

lemma set_via_idle:
  assumes "\<not> irq_lock (hdoms h d)" "callback_via_type (irqs d h) = HVMIRQ_callback_vector" "\<not> callback_via_asserted (irqs d h)"
    "via_type_of via \<noteq> HVMIRQ_callback_vector"
  shows "\<exists>h2. hvm_set_callback_via x d via h = Some h2 \<and> hx h2 = hx h \<and> irqs_off h2 = irqs_off h \<and>
    isa_irq (irqs d h2) = isa_irq (irqs d h) \<and> gsi_assert_count (irqs d h2) = gsi_assert_count (irqs d h) \<and>
    callback_via_type (irqs d h2) \<noteq> HVMIRQ_callback_vector"
  using assms
  by (cases "via_type_of via")
    (simp_all add: hvm_set_callback_via_def lock_irq_def unlock_irq_def via_teardown_def via_setup_def Let_def)

end
