(* ===== verification/Vpic_Props.thy ===== *)
theory Vpic_Props
  imports Vpic_Correct
begin

text \<open>
  The priority logic of the controllers against a reference that walks over the lines in the order of their priority.
\<close>

section \<open>The reference\<close>

text \<open>The lines from the highest priority to the lowest.\<close>

definition order :: "vpic \<Rightarrow> nat list" where
  "order v = map (nth_line v) [0..<8]"

text \<open>
  A line in service holds back every line of the same or a lower priority. In special fully nested mode the line of the slave is not
  held back by itself; in special mask mode a masked line in service holds nothing back.
\<close>

definition holds_back :: "vpic \<Rightarrow> nat \<Rightarrow> nat \<Rightarrow> bool" where
  "holds_back v n m \<longleftrightarrow> bit (isr v) m \<and> \<not> (special_fully_nested_mode v \<and> is_master v \<and> n = 2 \<and> m = 2) \<and>
     \<not> (special_mask_mode v \<and> bit (imr v) m)"

definition delivered :: "vpic \<Rightarrow> int" where
  "delivered v =
     (case List.find (\<lambda>n. bit (irr v) n \<and> \<not> bit (imr v) n) (order v) of
        None \<Rightarrow> -1
      | Some n \<Rightarrow> if list_ex (holds_back v n) (takeWhile (\<lambda>m. m \<noteq> n) (order v) @ [n]) then -1 else int n)"

section \<open>Equivalence\<close>

lemma nth_line_inj: "j < 8 \<Longrightarrow> k < 8 \<Longrightarrow> nth_line v j = nth_line v k \<longleftrightarrow> j = k"
proof -
  assume b: "j < 8" "k < 8"
  define a where "a = priority_add v mod 8"
  have a: "a < 8" by (simp add: a_def)
  have "nth_line v i = (if i + a < 8 then i + a else i + a - 8)" if "i < 8" for i
  proof -
    have "nth_line v i = (i + a) mod 8" by (simp add: nth_line_def a_def mod_add_right_eq)
    then show ?thesis using that a by (simp add: mod_if)
  qed
  then show "nth_line v j = nth_line v k \<longleftrightarrow> j = k" using a b by auto
qed

lemma take_order:
  assumes "k < 8"
  shows "takeWhile (\<lambda>m. m \<noteq> nth_line v k) (order v) @ [nth_line v k] = map (nth_line v) [0..<Suc k]"
proof -
  have o: "order v = map (nth_line v) [0..<k] @ nth_line v k # map (nth_line v) [Suc k..<8]"
    unfolding order_def using assms upt_add_eq_append [of 0 k "8 - k"] by (simp add: upt_conv_Cons)
  have "takeWhile (\<lambda>m. m \<noteq> nth_line v k) (order v) = map (nth_line v) [0..<k] @ takeWhile (\<lambda>m. m \<noteq> nth_line v k) (nth_line v k # map (nth_line v) [Suc k..<8])"
    unfolding o by (rule takeWhile_append2) (use assms nth_line_inj in auto)
  then show ?thesis by simp
qed

lemma find_order:
  assumes "w \<noteq> 0"
  shows "List.find (bit w) (order v) = Some (nth_line v (vpic_get_priority v w))"
  using priority_some [OF assms, of v] unfolding find_Some_iff order_def
  by (intro exI [of _ "vpic_get_priority v w"]) auto

lemma priority_le:
  assumes "k < 8"
  shows "list_ex (bit w) (map (nth_line v) [0..<Suc k]) \<longleftrightarrow> vpic_get_priority v w \<le> k"
proof (cases "w = 0")
  case True
  then show ?thesis using priority_none [of v w] assms by (simp add: list_ex_iff)
next
  case False
  have "list_ex (bit w) (map (nth_line v) [0..<Suc k]) \<longleftrightarrow> (\<exists>j \<le> k. bit w (nth_line v j))"
    by (auto simp: list_ex_iff less_Suc_eq_le simp del: upt_Suc)
  then show ?thesis using priority_some [OF False, of v] by (meson le_trans not_le)
qed

text \<open>C32: The interrupt that the rotated bit scans of a controller select is the one of the reference: the unmasked requested line
  of the highest priority, unless a line in service holds it back.\<close>

theorem highest_priority_is_reference: "vpic_get_highest_priority_irq v = delivered v"
proof -
  define w where "w = irr v AND NOT (imr v)"
  define k where "k = vpic_get_priority v w"
  define n where "n = nth_line v k"
  define b where "b = (if special_fully_nested_mode v \<and> is_master v \<and> n = 2 then isr v AND NOT (line_mask 2) else isr v)"
  define c where "c = (if special_mask_mode v then b AND NOT (imr v) else b)"
  have f: "(\<lambda>n. bit (irr v) n \<and> \<not> bit (imr v) n) = bit w" unfolding w_def by (auto simp: bit_simps fun_eq_iff dest: bit_imp_le_length)
  have h: "holds_back v n = bit c" unfolding holds_back_def c_def b_def
    by (auto simp: bit_simps bit_line_mask fun_eq_iff dest: bit_imp_le_length)
  show ?thesis
  proof (cases "w = 0")
    case True
    then have "List.find (bit w) (order v) = None" by (simp add: find_None_iff)
    then show ?thesis using True by (simp add: delivered_def f vpic_get_highest_priority_irq_def Let_def priority_none w_def)
  next
    case False
    then have k: "k < 8" and ff: "List.find (bit w) (order v) = Some n"
      using priority_some [OF False, of v] find_order [OF False, of v] by (simp_all add: k_def n_def)
    have "vpic_get_highest_priority_irq v = (if k < vpic_get_priority v c then int n else -1)"
      using k unfolding vpic_get_highest_priority_irq_def Let_def w_def [symmetric] k_def [symmetric] c_def b_def n_def nth_line_def by simp
    moreover have "delivered v = (if vpic_get_priority v c \<le> k then -1 else int n)"
      unfolding delivered_def f ff option.case h take_order [OF k, of v, folded n_def] priority_le [OF k] ..
    ultimately show ?thesis by simp
  qed
qed

end
