(* ===== verification/Hvm_Props.thy ===== *)
theory Hvm_Props
  imports Hvm_Restore Hvm_Return Evtchn_Example Vpic_Props
begin

text \<open>
  The properties of the interrupt delivery to HVM domains, with a concrete system: domain 3 is an HVM guest, domain 2 its device
  model. Faults of the message-signalled interrupts and of the dispatcher of emulated accesses are stated as lemmas at the end.
\<close>

section \<open>A concrete system\<close>

definition ex_pic :: vpics where
  "ex_pic = vpic_reset \<lparr>pics = (\<lambda>_. vpic_zero), i8259_target = True, vpic_events = []\<rparr>"

text \<open>The guest, and the guest with interrupt 4 mapped to the physical interrupt 20 and event port 6.\<close>

definition ex_guest :: xdomain where
  "ex_guest = (ex_dom (\<lambda>_. zero_evtchn))\<lparr>is_hvm := True\<rparr>"

definition ex_mapped :: xdomain where
  "ex_mapped = (ex_dom (\<lambda>i. if i = 6 then zero_evtchn\<lparr>ec_state := ECS_PIRQ, u_lo := 20\<rparr> else zero_evtchn))
     \<lparr>is_hvm := True, emuirq_pirq := (\<lambda>e. if e = 4 then Some 20 else None),
      pirq_tree := (\<lambda>q. if q = 20 then Some \<lparr>pirq_evtchn = 6, arch_irq = 0, hvm_emuirq = 4, dpci_flags = 0\<rparr> else None)\<rparr>"

definition ex_hvms :: "xdomain \<Rightarrow> callback_type \<Rightarrow> vpics \<Rightarrow> hvms" where
  "ex_hvms D t p = \<lparr>hx = ex_xen\<lparr>doms := (doms ex_xen)(3 \<mapsto> D)\<rparr>,
     hdoms = (\<lambda>_. \<lparr>hirq = hvm_irq_zero\<lparr>callback_via_type := t\<rparr>, hvpic = p, irq_lock = False, nmi_pending = (\<lambda>_. False), mce_pending = (\<lambda>_. False)\<rparr>),
     irqs_off = False, hvm_events = []\<rparr>"

lemma ex_pic_ok: "vpic_ok ex_pic"
  unfolding ex_pic_def by (rule reset_ok)

lemma ex_created: "hvm_created (ex_hvms D HVMIRQ_callback_none ex_pic)"
  by (auto simp: hvm_created_def ex_hvms_def hvm_irq_zero_def ex_pic_def)

lemma ex_hvm_ok: "vpic_ok p \<Longrightarrow> t \<noteq> HVMIRQ_callback_gsi \<Longrightarrow> hvm_ok (ex_hvms D t p)"
  using zero_wires_ok by (simp add: hvm_ok_def pics_ok_def ex_hvms_def wires_ok_def counts_ok_def via_ok_def link_wires_def gsi_wires_def
      callback_wire_def hvm_irq_zero_def)

lemma ex_hvm_simps [simp]:
  "hx (ex_hvms D t p) = ex_xen\<lparr>doms := (doms ex_xen)(3 \<mapsto> D)\<rparr>" "irqs d (ex_hvms D t p) = hvm_irq_zero\<lparr>callback_via_type := t\<rparr>"
  "hvpic (hdoms (ex_hvms D t p) d) = p" "irq_lock (hdoms (ex_hvms D t p) d) = False" "irqs_off (ex_hvms D t p) = False"
  "nmi_pending (hdoms (ex_hvms D t p) d) v = False" "mce_pending (hdoms (ex_hvms D t p) d) v = False"
  by (simp_all add: ex_hvms_def)

lemma ex_all_ready: "all_ready pend (ex_hvms ex_guest HVMIRQ_callback_none ex_pic)"
proof -
  have "d = 3" if "doms ex_xen d = Some D" "is_hvm D" for d D
    using that by (auto simp: ex_doms(3) ex_dom_def)
  then show ?thesis using ex_pic_ok
    by (auto simp: all_ready_def ready_def pics_ok_def via_ok_def hvm_irq_zero_def unmapped_def hvm_domain_use_pirq_def gsi_pirq_def
        ex_guest_def ex_dom_def)
qed

section \<open>Reachable states\<close>

text \<open>C25: In every state that any interleaving of the device model's hypercalls, changes of the call-back line, upcalls, entries to the
  guest, acknowledgements, port accesses and saves reaches from the creation of the domains, the 8-bit counter of each global interrupt is the number of wires
  (PCI, ISA, routed links, call-back) that assert it, the counter of each link the number of its wires, and the
  interrupt controllers are well formed. In particular no counter has wrapped.\<close>

theorem wires_reachable_counted:
  assumes "hvm_created h" and "hvm_step\<^sup>*\<^sup>* h h'"
  shows "(\<forall>g < VIOAPIC_NUM_PINS. unat (gsi_assert_count (irqs d h') g) = gsi_wires (irqs d h') g) \<and>
    (\<forall>l < NR_LINK. unat (pci_link_assert_count (irqs d h') l) = link_wires (irqs d h') l) \<and> vpic_ok (hvpic (hdoms h' d))"
proof -
  have "hvm_ok h'" by (rule hw.reach [OF assms(2) created_ok [OF assms(1)]])
  then have c: "counts_ok (irqs d h')" "vpic_ok (hvpic (hdoms h' d))" by (simp_all add: hvm_ok_def wires_ok_def pics_ok_def)
  have "gsi_wires (irqs d h') g < 256" "link_wires (irqs d h') g < 256" for g
    using gsi_wires_le [of "irqs d h'" g] link_wires_le [of "irqs d h'" g] by simp_all
  then show ?thesis using c by (simp add: counts_ok_def u8_of_nat(1))
qed

lemma ex_step:
  obtains h' where "hvm_step (ex_hvms ex_guest HVMIRQ_callback_none ex_pic) h'" "isa_irq (irqs 3 h') 4"
proof -
  let ?h = "ex_hvms ex_guest HVMIRQ_callback_none ex_pic"
  have r: "ready [] 3 ?h" using ex_all_ready by (simp add: all_ready_def ex_guest_def)
  then obtain h' where h': "hvm_isa_irq_assert ex_ext 3 4 ?h = Some h'"
    using returns_isa(1) [of "[]" 3 ?h 4 ex_ext] by (auto simp: returns_def)
  then have "hvmop_set_isa_irq_level ex_ext 2 (\<lambda>_. 0) (Some (3, 4, 1)) ?h = Some (0, h')"
    by (simp add: hvmop_set_isa_irq_level_def on_target_def rcu_lock_remote_target_domain_by_id_def rcu_lock_domain_by_id_def ex_guest_def
        ex_doms IS_PRIV_FOR_def) (simp add: ex_dom_def)
  then have "hvm_step ?h h'" by (rule hvm_step.isa_level)
  moreover have "irqs 3 h' = set_isa 4 True (irqs 3 ?h)"
    using gives_isa_assert [of 3 4 ?h ex_ext] h' by (simp add: gives_def moves_def)
  then have "isa_irq (irqs 3 h') 4" by (simp add: set_isa_def hvm_irq_zero_def)
  ultimately show thesis by (rule that)
qed

theorem wires_reachable_counted_witness:
  "\<exists>h'. hvm_step\<^sup>*\<^sup>* (ex_hvms ex_guest HVMIRQ_callback_none ex_pic) h' \<and> isa_irq (irqs 3 h') 4 \<and>
     unat (gsi_assert_count (irqs 3 h') 4) = gsi_wires (irqs 3 h') 4"
proof -
  obtain h' where h': "hvm_step (ex_hvms ex_guest HVMIRQ_callback_none ex_pic) h'" "isa_irq (irqs 3 h') 4" by (rule ex_step)
  from r_into_rtranclp [of hvm_step, OF h'(1)] h'(2) show ?thesis
    using wires_reachable_counted [OF ex_created r_into_rtranclp [of hvm_step, OF h'(1)], of 3] by auto
qed

section \<open>Save and restore\<close>

text \<open>C26: Loading the three saved records into a domain whose call-back line is idle succeeds and gives back the wires and routes that were saved, the
  wire of an asserted call-back excepted; every counter is recomputed as the number of its wires, and equals the saved
  domain's when its call-back line was idle.\<close>

theorem wires_save_restore:
  assumes "hvm_ok h" and "irq_save_pci x d True h = Some (rc0, Some ws, h1)"
    and "irq_save_isa d True h1 = (rc1, Some is)" and "irq_save_link d True h1 = (rc2, Some r)"
    and "\<not> callback_via_asserted (irqs d t)"
  shows "\<exists>t1 t2 t3. irq_load_pci d (Some ws) t = (0, t1) \<and> irq_load_isa d (Some is) t1 = (0, t2) \<and> irq_load_link d (Some r) t2 = (0, t3) \<and>
    isa_irq (irqs d t3) = isa_irq (irqs d h) \<and> route (irqs d t3) = route (irqs d h) \<and>
    pci_intx (irqs d t3) =
      (if callback_via_asserted (irqs d h) \<and> callback_via_type (irqs d h) = HVMIRQ_callback_pci_intx
       then (pci_intx (irqs d h))(via_dev (irqs d h) * 4 + via_intx (irqs d h) := False) else pci_intx (irqs d h)) \<and>
    counts_ok (irqs d t3) \<and>
    (\<not> callback_via_asserted (irqs d h) \<longrightarrow>
      (\<forall>l < NR_LINK. pci_link_assert_count (irqs d t3) l = pci_link_assert_count (irqs d h) l) \<and>
      (\<forall>g < VIOAPIC_NUM_PINS. gsi_assert_count (irqs d t3) g = gsi_assert_count (irqs d h) g))"
proof -
  have ok: "counts_ok (irqs d h)" "\<forall>l < 4. route (irqs d h) l \<le> 15" using assms(1) by (simp_all add: hvm_ok_def wires_ok_def via_ok_def)
  have sv: "is = isa_irq (irqs d h)" "r = route (irqs d h)"
    using assms(3,4) save_pci_same [OF assms(2)] by (simp_all add: irq_save_isa_def irq_save_link_def)
  have ws: "ws = (if callback_via_asserted (irqs d h) \<and> callback_via_type (irqs d h) = HVMIRQ_callback_pci_intx
       then (pci_intx (irqs d h))(via_dev (irqs d h) * 4 + via_intx (irqs d h) := False) else pci_intx (irqs d h))"
    using save_pci_entry [OF assms(2)] by simp
  obtain t1 t2 t3 where l: "irq_load_pci d (Some ws) t = (0, t1)" "irq_load_isa d (Some is) t1 = (0, t2)" "irq_load_link d (Some r) t2 = (0, t3)"
    and t3: "t3 = upd_irq d (restored ws is r) t" using load_wires [of r d ws t "is"] ok(2) sv(2) by auto
  let ?J = "restored ws is r (irqs d t)"
  have J: "irqs d t3 = ?J" by (simp add: t3)
  have c: "counts_ok ?J" by (rule restored_counts [OF assms(5)])
  have eq: "(\<forall>l < 4. pci_link_assert_count ?J l = pci_link_assert_count (irqs d h) l) \<and> (\<forall>g < 48. gsi_assert_count ?J g = gsi_assert_count (irqs d h) g)"
    if "\<not> callback_via_asserted (irqs d h)"
    using same_wires_counts [OF ok(1) c] that assms(5) by (simp add: restored_fields sv ws)
  show ?thesis using l c eq by (intro exI [of _ t1] exI [of _ t2] exI [of _ t3]) (simp add: J restored_fields sv ws)
qed

theorem wires_save_restore_witness:
  "\<exists>t1 t2 t3. irq_load_pci 3 (Some (\<lambda>_. False)) (ex_hvms ex_guest HVMIRQ_callback_none ex_pic) = (0, t1) \<and>
     irq_load_isa 3 (Some (\<lambda>_. False)) t1 = (0, t2) \<and> irq_load_link 3 (Some (\<lambda>_. 0)) t2 = (0, t3) \<and> counts_ok (irqs 3 t3)"
proof -
  let ?h = "ex_hvms ex_guest HVMIRQ_callback_none ex_pic"
  have "irq_save_pci ex_ext 3 True ?h =
      Some (0, Some (\<lambda>_. False), unlock_irq 3 (upd_hvm 3 (\<lambda>D. D\<lparr>irq_lock := True\<rparr>) ?h))"
    by (simp add: irq_save_pci_def lock_irq_def hvm_irq_zero_def)
  from wires_save_restore [OF ex_hvm_ok [OF ex_pic_ok] this, of 0 "\<lambda>_. False" 0 "\<lambda>_. 0" ?h] show ?thesis
    by (auto simp: irq_save_isa_def irq_save_link_def unlock_irq_def hvm_irq_zero_def)
qed

section \<open>Acknowledging an interrupt of the controllers\<close>

text \<open>C27: When the next interrupt of a virtual CPU comes from the interrupt controllers, acknowledging it returns, keeps the invariant and gives
  the vector of a line other than the cascade line that is requested and not masked: the base of its controller plus the number of the line.\<close>

theorem pending_pic_acknowledged:
  assumes "hvm_ok h" and "hvm_vcpu_has_pending_irq l d v h = Some (Intsrc_pic, w)"
  shows "\<exists>n h'. n < 16 \<and> n \<noteq> 2 \<and> pending (hvpic (hdoms h d)) 0 n \<and> hvm_ok h' \<and>
    hvm_vcpu_ack_pending_irq l d v (Intsrc_pic, w) h =
      Some ((Intsrc_pic, irq_base (pics (hvpic (hdoms h' d)) (n div 8)) + of_nat (n mod 8)), h')"
proof -
  let ?p = "hvpic (hdoms h d)"
  have p: "vlapic_accept_pic_intr l d v \<and> int_output (pics ?p 0)"
    using assms(2) by (auto simp: hvm_vcpu_has_pending_irq_def Let_def split: bind_splits if_splits)
  have "vpic_ok ?p" using assms(1) by (simp add: hvm_ok_def pics_ok_def)
  then obtain vec q where a: "vpic_ack_pending_irq (vlapic_accept_pic_intr l d v) ?p = Some (vec, q)"
    "if vlapic_accept_pic_intr l d v \<and> int_output (pics ?p 0)
     then \<exists>n < 16. n \<noteq> 2 \<and> pending ?p 0 n \<and> vec = int (unat (irq_base (pics q (n div 8)))) + int (n mod 8)
     else vec = -1 \<and> q = ?p" by (rule ack_ok)
  then obtain n where n: "n < 16" "n \<noteq> 2" "pending ?p 0 n" "vec = int (unat (irq_base (pics q (n div 8)))) + int (n mod 8)"
    using p by auto
  define h' where "h' = upd_hvm d (\<lambda>D. D\<lparr>hvpic := q\<rparr>) h"
  have "hvm_vcpu_ack_pending_irq l d v (Intsrc_pic, w) h = Some ((Intsrc_pic, irq_base (pics q (n div 8)) + of_nat (n mod 8)), h')"
  proof -
    have "0 \<le> vec" unfolding n(4) by simp
    then have "vec \<noteq> -1" by simp
    moreover have "(of_int vec :: u8) = irq_base (pics q (n div 8)) + of_nat (n mod 8)" by (simp add: n(4))
    ultimately show ?thesis using a(1) by (simp add: hvm_vcpu_ack_pending_irq_def Let_def h'_def)
  qed
  then show ?thesis using n ack_holds [OF _ assms(1)] by (intro exI [of _ n] exI [of _ h']) (auto simp: h'_def)
qed

definition ex_requested :: vpics where
  "ex_requested = \<lparr>pics = (\<lambda>i. if i = 0 then vpic_zero\<lparr>is_master := True, elcr := line_mask 2, irr := line_mask 4, int_output := True\<rparr> else vpic_zero),
     i8259_target = True, vpic_events = []\<rparr>"

definition ex_lapic :: lapic where
  "ex_lapic = \<lparr>vlapic_accept_pic_intr = (\<lambda>_ _. True), vlapic_has_pending_irq = (\<lambda>_ _. -1), vlapic_ack_pending_irq = (\<lambda>_ _ _. True),
     hvm_interrupt_blocked = (\<lambda>_ _ _. False)\<rparr>"

lemma ex_requested_ok: "vpic_ok ex_requested"
  by code_simp

theorem pending_pic_acknowledged_witness:
  "\<exists>n h'. n < 16 \<and> n \<noteq> 2 \<and> pending ex_requested 0 n \<and>
    hvm_vcpu_ack_pending_irq ex_lapic 3 0 (Intsrc_pic, 0) (ex_hvms ex_guest HVMIRQ_callback_none ex_requested) =
      Some ((Intsrc_pic, irq_base (pics (hvpic (hdoms h' 3)) (n div 8)) + of_nat (n mod 8)), h')"
proof -
  let ?h = "ex_hvms ex_guest HVMIRQ_callback_none ex_requested"
  have "hvm_vcpu_has_pending_irq ex_lapic 3 0 ?h = Some (Intsrc_pic, 0)"
    by (simp add: hvm_vcpu_has_pending_irq_def ex_guest_def ex_dom_def hvm_irq_zero_def ex_lapic_def ex_requested_def)
  from pending_pic_acknowledged [OF ex_hvm_ok [OF ex_requested_ok] this] show ?thesis by auto
qed

section \<open>Interrupts mapped to events\<close>

text \<open>C28: For an interrupt mapped to an unmasked event port of virtual CPU 0, asserting its wire returns while the domain takes events by a vector, as it did when
  the mapping was accepted. The domain may then choose another call-back line; the call succeeds, and asserting the wire after
  it never returns: it takes the lock of the domain a second time.\<close>

theorem callback_change_deadlocks:
  assumes "hvm_ok h" and "mapped_to_vcpu0 d (hvm_isa_irq_to_gsi isa) h" and "isa \<le> 15" and "\<not> irq_lock (hdoms h d)" and "\<not> irqs_off h"
    and "\<not> isa_irq (irqs d h) isa" and "gsi_assert_count (irqs d h) (hvm_isa_irq_to_gsi isa) = 0"
    and "callback_via_type (irqs d h) = HVMIRQ_callback_vector" and "\<not> callback_via_asserted (irqs d h)"
    and "via_type_of via \<noteq> HVMIRQ_callback_vector"
  shows "(\<exists>h1. hvm_isa_irq_assert x d isa h = Some h1) \<and>
    (\<exists>h2. hvm_set_callback_via x d via h = Some h2 \<and> hvm_isa_irq_assert x d isa h2 = None)"
proof -
  obtain h2 where h2: "hvm_set_callback_via x d via h = Some h2" "hx h2 = hx h" "irqs_off h2 = irqs_off h"
    "isa_irq (irqs d h2) = isa_irq (irqs d h)" "gsi_assert_count (irqs d h2) = gsi_assert_count (irqs d h)"
    "callback_via_type (irqs d h2) \<noteq> HVMIRQ_callback_vector"
    using set_via_idle [OF assms(4,8,9,10)] by blast
  have "mapped_to_vcpu0 d (hvm_isa_irq_to_gsi isa) h2" using assms(2) by (simp add: mapped_to_vcpu0_def h2(2))
  then have "hvm_isa_irq_assert x d isa h2 = None" using assms h2 by (intro isa_assert_deadlock) simp_all
  moreover have "\<exists>h1. hvm_isa_irq_assert x d isa h = Some h1"
    by (rule isa_assert_vector [OF assms(1-4) assms(6-8)])
  ultimately show ?thesis using h2(1) by blast
qed

lemma ex_mapped_to: "mapped_to_vcpu0 3 4 (ex_hvms ex_mapped t p)"
  unfolding mapped_to_vcpu0_def
  by (rule exI [of _ ex_mapped], rule exI [of _ ex_vcpu])
    (simp add: ex_mapped_def gsi_pirq_def domain_emuirq_to_pirq_def evtchn_from_port_def bucket_from_port_def ex_dom_def zero_evtchn_def ex_vcpu_def
      BITS_PER_EVTCHN_WORD_def)

theorem callback_change_deadlocks_witness:
  "(\<exists>h1. hvm_isa_irq_assert ex_ext 3 4 (ex_hvms ex_mapped HVMIRQ_callback_vector ex_pic) = Some h1) \<and>
   (\<exists>h2. hvm_set_callback_via ex_ext 3 5 (ex_hvms ex_mapped HVMIRQ_callback_vector ex_pic) = Some h2 \<and> hvm_isa_irq_assert ex_ext 3 4 h2 = None)"
proof -
  have t: "via_type_of 5 \<noteq> HVMIRQ_callback_vector" by (simp add: via_type_of_def Let_def)
  have g: "hvm_isa_irq_to_gsi 4 = 4" by (simp add: hvm_isa_irq_to_gsi_def)
  show ?thesis
    using callback_change_deadlocks [where h = "ex_hvms ex_mapped HVMIRQ_callback_vector ex_pic" and isa = 4 and via = 5 and d = 3 and x = ex_ext,
        OF ex_hvm_ok [OF ex_pic_ok]] t
    by (simp add: g ex_mapped_to hvm_irq_zero_def)
qed

text \<open>C29: The device model's hypercalls that set a PCI wire, an ISA wire or a route return when no HVM domain holds its lock and each either has no
  interrupt mapped to an event or takes events by a vector with well-formed event channels: no lock is taken twice, no assertion
  fails and no array is left.\<close>

theorem wire_hypercalls_return:
  assumes "all_ready pend h" and "doms (hx h) cur \<noteq> None"
  shows "(\<exists>rc h'. hvmop_set_pci_intx_level x cur xsm pci h = Some (rc, h')) \<and>
    (\<exists>rc h'. hvmop_set_isa_irq_level x cur xsm isa h = Some (rc, h')) \<and>
    (\<exists>rc h'. hvmop_set_pci_link_route cur xsm rt h = Some (rc, h'))"
  using hvmops_return [OF assms] by blast

theorem wire_hypercalls_return_witness:
  "\<exists>rc h'. hvmop_set_pci_link_route 2 (\<lambda>_. 0) (Some (3, 1, 5)) (ex_hvms ex_guest HVMIRQ_callback_none ex_pic) = Some (rc, h')"
  using wire_hypercalls_return [OF ex_all_ready, of 2] by (simp add: ex_doms)

section \<open>Accesses to the controllers\<close>

text \<open>C30: Every port access of at most four bytes that reaches the handlers of the interrupt controllers, repeated or not, returns and keeps all registers of all
  controllers in their types: a rotation below 8, an initialisation state below 16 and a vector base that is a multiple of 8, with
  outputs and cascade line up to date.\<close>

theorem port_accesses_keep_types:
  assumes "memory_keeps m hvm_ok" and "hvm_ok h" and "valid_pio p"
  shows "\<exists>rc p' h'. intercept_from m junk (vpic_ports (\<lambda>h. hvpic (hdoms h d)) (\<lambda>v. upd_hvm d (\<lambda>D. D\<lparr>hvpic := v\<rparr>))) HVM_PORTIO p h = Some (rc, p', h') \<and>
    (\<forall>e. vpic_ok (hvpic (hdoms h' e)) \<and> (\<forall>i \<le> 1. priority_add (pics (hvpic (hdoms h' e)) i) < 8 \<and>
      init_state (pics (hvpic (hdoms h' e)) i) < 16 \<and> irq_base (pics (hvpic (hdoms h' e)) i) AND 7 = 0))"
proof -
  obtain rc p' h' where r: "intercept_from m junk (vpic_ports (\<lambda>h. hvpic (hdoms h d)) (\<lambda>v. upd_hvm d (\<lambda>D. D\<lparr>hvpic := v\<rparr>))) HVM_PORTIO p h =
      Some (rc, p', h')" and ok: "hvm_ok h'" using hv.dispatch_ok [OF assms, of junk d] by blast
  have f: "vpic_ok (hvpic (hdoms h' e))" for e using ok by (simp add: hvm_ok_def pics_ok_def)
  have "fields_ok (pics (hvpic (hdoms h' e)) i)" if "i \<le> 1" for e i
    using f [of e] that by (cases i) (simp_all add: vpic_ok_def)
  then show ?thesis using r f by (intro exI [of _ rc] exI [of _ p'] exI [of _ h']) (simp add: fields_ok_def)
qed

definition ex_memory :: "hvms guest_memory" where
  "ex_memory = \<lparr>hvm_copy_to_guest_phys = (\<lambda>_ _ _ s. (HVMCOPY_okay, s)), hvm_copy_from_guest_phys = (\<lambda>_ _ _ _. (HVMCOPY_okay, 0))\<rparr>"

definition ex_icw1 :: ioreq where
  "ex_icw1 = \<lparr>io_addr = 0x20, io_data = 0x11, io_count = 1, io_size = 1, data_is_ptr = False, io_dir = IOREQ_WRITE, io_df = False\<rparr>"

theorem port_accesses_keep_types_witness:
  "\<exists>rc p' h'. intercept_from ex_memory 0 (vpic_ports (\<lambda>h. hvpic (hdoms h 3)) (\<lambda>v. upd_hvm 3 (\<lambda>D. D\<lparr>hvpic := v\<rparr>))) HVM_PORTIO ex_icw1
      (ex_hvms ex_guest HVMIRQ_callback_none ex_pic) = Some (rc, p', h') \<and> init_state (pics (hvpic (hdoms h' 3)) 0) < 16"
proof -
  have "memory_keeps ex_memory hvm_ok" "valid_pio ex_icw1" by (simp_all add: memory_keeps_def ex_memory_def valid_pio_def ex_icw1_def)
  from port_accesses_keep_types [where h = "ex_hvms ex_guest HVMIRQ_callback_none ex_pic" and junk = 0 and d = 3, OF this(1) _ this(2)]
  obtain rc p' h' where r: "intercept_from ex_memory 0 (vpic_ports (\<lambda>h. hvpic (hdoms h 3)) (\<lambda>v. upd_hvm 3 (\<lambda>D. D\<lparr>hvpic := v\<rparr>))) HVM_PORTIO ex_icw1
      (ex_hvms ex_guest HVMIRQ_callback_none ex_pic) = Some (rc, p', h')" "\<forall>i \<le> 1. init_state (pics (hvpic (hdoms h' 3)) i) < 16"
    using ex_hvm_ok [OF ex_pic_ok] by blast
  then show ?thesis by (intro exI [of _ rc] exI [of _ p'] exI [of _ h']) simp
qed

section \<open>Faults\<close>

text \<open>A message-signalled interrupt with vector 0 that names a physical interrupt without a record stops the hypervisor.\<close>

lemma inject_msi_unallocated:
  assumes "data AND 0xff = 0" "msi_pirq addr > 0" "doms (hx h) d = Some D" "pirq_tree D (msi_pirq addr) = None"
  shows "hvm_inject_msi x d addr data h = None"
  using assms by (simp add: hvm_inject_msi_def)



text \<open>
  With the direction flag set, item \<open>i\<close> of a repeated access should lie \<open>i\<close> items below the address. The offset is an unsigned 32-bit product that is extended
  with zeros, so the item lies \<open>2 ^ 32\<close> above that place.
\<close>

lemma ucast_minus:
  assumes "0 < n" "n < 2 ^ 32"
  shows "ucast (- (of_nat n :: u32)) = (2 ^ 32 - of_nat n :: ulong)"
proof -
  have n: "uint (of_nat n :: u32) = int n" using assms(2) by (simp add: unsigned_of_nat take_bit_nat_eq_self_iff)
  have "(- int n) mod 2 ^ 32 = 2 ^ 32 - int n" using assms by (subst zmod_zminus1_eq_if) simp
  then have "uint (- (of_nat n :: u32)) = 2 ^ 32 - int n" by (subst uint_word_ariths(4)) (simp add: n)
  then have "ucast (- (of_nat n :: u32)) = (of_int (2 ^ 32 - int n) :: ulong)" by (metis word_of_int_uint unsigned_ucast_eq of_int_uint ucast_eq)
  then show ?thesis by simp
qed

lemma backward_item_address:
  assumes "io_df p" "0 < i * unat (io_size p)" "i * unat (io_size p) < 2 ^ 32"
  shows "item_addr base p i = base - of_nat (i * unat (io_size p)) + 2 ^ 32"
proof -
  have "(- 1) * of_nat i * io_size p = - (of_nat (i * unat (io_size p)) :: u32)" by simp
  then have "item_addr base p i = base + ucast (- (of_nat (i * unat (io_size p)) :: u32))"
    using assms(1) by (simp only: item_addr_def if_True)
  then show ?thesis by (simp only: ucast_minus [OF assms(2,3)]) simp
qed

end
