(* ===== verification/Spec2Isabelle.thy ===== *)
theory Spec2Isabelle
  imports Iocap Evtchn_Props Timer_Props Hvm_Props
begin

text \<open>
  Verification of parts of the Xen hypervisor 4.2.2: event channels and virtual-CPU blocking, timers, rangesets with the I/O
  capabilities, and the delivery of interrupts to HVM domains (interrupt wires, emulated 8259 controllers, dispatch of port
  accesses, hypercalls). All file names below are relative to \<^verbatim>\<open>src/\<close>.

  \<^bold>\<open>How the parts interact.\<close> A device model sets virtual interrupt wires by hypercalls (\<open>Hvm_Op\<close>); the wires
  (\<open>Hvm_Irq\<close>) raise lines of the emulated controllers (\<open>Vpic\<close>) or, for interrupts that the guest has mapped, send events
  (\<open>Evtchn\<close>). An event sets a pending bit, wakes blocked virtual CPUs (\<open>Vcpu\<close>) and, in an HVM domain, asserts the call-back
  line, which is a wire again. The guest programs the controllers through ports (\<open>Portio\<close>). Polling sets a timer, which is an effect there; the timers
  themselves are \<open>Timer\<close>. Rangesets (\<open>Rangeset\<close>) hold the frames and interrupts a domain may use (\<open>Iocap\<close>).

  \<^bold>\<open>Conventions.\<close> Functions take and return the state; the result \<open>None\<close> is a stopped hypervisor: a failed \<^verbatim>\<open>BUG_ON\<close> or
  \<^verbatim>\<open>ASSERT\<close>, a null pointer, an index outside an array, or a lock taken by its holder. Return codes are integers, errors
  negative. Calls to code that is not modelled are recorded in order in the state (\<open>effect\<close>, \<open>hvm_event\<close>, \<open>vpic_event\<close>) or are
  functions in a record of external code (\<open>ext\<close>, \<open>lapic\<close>, \<open>guest_memory\<close>). Words have the width of the C type where wrapping matters.

  \<^bold>\<open>Theories.\<close>

  \<^item> \<open>Xen_Prelude\<close>: errors, assertions, loops (\<open>foldM\<close>) and the contract \<open>transition_invariant\<close> of a step relation with an
    invariant, interpreted for event channels (\<open>ec\<close>), timers (\<open>tq\<close>) and HVM interrupts (\<open>hw\<close>).
  \<^item> \<open>Rangeset\<close>, \<open>Rangeset_Correct\<close>, \<open>Iocap\<close>: \<^verbatim>\<open>xen/common/rangeset.c\<close>, \<^verbatim>\<open>xen/include/xen/iocap.h\<close>. A set is a list of ranges; the
    operations are the set operations, with the cases in which removing and reporting go wrong.
  \<^item> \<open>Xen_State\<close>, \<open>Vcpu\<close>, \<open>Evtchn\<close>: domains, virtual CPUs and ports; \<^verbatim>\<open>xen/common/event_channel.c\<close>, parts of
    \<^verbatim>\<open>xen/common/schedule.c\<close>, \<^verbatim>\<open>xen/common/domain.c\<close> and \<^verbatim>\<open>xen/arch/x86/irq.c\<close>. \<open>Vcpu_Facts\<close>, \<open>Evtchn_Inv\<close>, \<open>Evtchn_Dom\<close>, \<open>Evtchn_Pirq\<close>,
    \<open>Evtchn_Sys\<close>, \<open>Evtchn_Ops\<close>, \<open>Evtchn_Peer\<close>, \<open>Evtchn_Close\<close>, \<open>Evtchn_Life\<close> hold the invariant \<open>sys_ok\<close> and that each operation keeps it;
    \<open>Evtchn_Step\<close> the interleaving of all operations, with a close that drops its locks split in two; \<open>Evtchn_Example\<close> a concrete system;
    \<open>Evtchn_Props\<close> the properties.
  \<^item> \<open>Timer\<close>: \<^verbatim>\<open>xen/common/timer.c\<close>. \<open>Timer_Heap\<close> (heap order), \<open>Timer_Inv\<close> (the invariant and the contract \<open>expiry_queue\<close>
    of heap and list), \<open>Timer_Ops\<close>, \<open>Timer_Softirq\<close>, \<open>Timer_Hotplug\<close> (refinement of abstract timers), \<open>Timer_Props\<close>.
  \<^item> \<open>Vpic\<close>, \<open>Vpic_Correct\<close>, \<open>Vpic_Props\<close>: \<^verbatim>\<open>xen/arch/x86/hvm/vpic.c\<close>, its invariant \<open>vpic_ok\<close>, and the priority logic against a
    reference.
  \<^item> \<open>Portio\<close>, \<open>Portio_Correct\<close>: \<^verbatim>\<open>xen/arch/x86/hvm/intercept.c\<close>, and the contract \<open>portio_device\<close> of a device behind ports, met by the
    controllers (\<open>vpic_host\<close>, interpreted as \<open>hv\<close> on the HVM state).
  \<^item> \<open>Hvm_Irq\<close>, \<open>Hvm_Op\<close>: \<^verbatim>\<open>xen/arch/x86/hvm/irq.c\<close> and the hypercalls of \<^verbatim>\<open>hvm.c\<close> and \<^verbatim>\<open>physdev.c\<close>. \<open>Hvm_Irq_Wires\<close> counts wires,
    \<open>Hvm_Irq_Correct\<close> shows that every operation keeps the counters equal to the numbers of wires, \<open>Hvm_Step\<close> is the interleaving,
    \<open>Hvm_Restore\<close> save and restore, \<open>Hvm_Return\<close> when the operations return and when they deadlock, \<open>Hvm_Props\<close> the properties.

  \<^bold>\<open>Termination and bounds.\<close> Loops over ports, virtual CPUs, wires and links are folds over finite lists. Loops that follow lists
  in memory (the physical-interrupt ports of a virtual CPU) or the heap are total functions or partial functions that are
  proved to return under the invariant. No fuel is chosen that a property depends on.

  \<^bold>\<open>Not modelled.\<close> Operations are atomic except where the code drops a lock inside one; memory ordering, RCU grace periods and
  preemption are left out. Page tables, grant tables, the instruction emulator, scheduling policies, the IO-APIC and local
  APIC, VMX and SVM, drivers, the ARM port, boot code, security policies and all user-space tools are outside: they work on hardware,
  page tables or I/O that the model does not have. Debug output and dumps are left out.
\<close>

end
